(* ===== verification/Prelude.thy ===== *)
theory Prelude
  imports Main "HOL-Library.Word" "HOL-Library.Char_ord" "HOL-Library.List_Lexorder"
    "HOL-Library.Multiset" "HOL-Library.Sublist"
begin

text \<open>
  The shared vocabulary of the development.

  \<^item> Byte strings are \<^typ>\<open>char list\<close>: Isabelle's \<^typ>\<open>char\<close> is exactly an 8-bit byte, and the
    lexicographic order of \<^verbatim>\<open>List_Lexorder\<close> over \<^verbatim>\<open>Char_ord\<close> is the order of Rust's \<^verbatim>\<open>[u8]\<close>.
    A Rust \<^verbatim>\<open>String\<close> is the byte string of its UTF-8 encoding.
  \<^item> Machine integers are words; arithmetic wraps as in a Rust release build.
  \<^item> Fallible, stateful code is a function from a state to an outcome and a state; \<^verbatim>\<open>?\<close> is
    \<^verbatim>\<open>bnd\<close>.  \<^verbatim>\<open>wp\<close> is the weakest precondition of such a program and \<^verbatim>\<open>wp_rules\<close>
    collects its rules.
  \<^item> Ordered trees are strictly sorted association lists (\<^verbatim>\<open>ot_insert\<close>, \<^verbatim>\<open>ot_remove\<close>).
  \<^item> Big-endian encodings (\<^verbatim>\<open>to_be_bytes\<close>) and UTF-8 validity (\<^verbatim>\<open>utf8_ok\<close>) of Rust's
    standard library.
\<close>

named_theorems wp_rules
named_theorems wp_simps
named_theorems ot_simps

type_synonym bytes = "char list"
type_synonym u8 = "8 word"
type_synonym u16 = "16 word"
type_synonym u32 = "32 word"
type_synonym u64 = "64 word"
type_synonym i64 = "64 word"

section \<open>Outcomes, programs and weakest preconditions\<close>

datatype ('e, 'a) outcome = Ok 'a | Err 'e | Panic | Diverge

type_synonym ('s, 'e, 'a) prog = "'s \<Rightarrow> ('e, 'a) outcome \<times> 's"

definition ret :: "'a \<Rightarrow> ('s, 'e, 'a) prog" where
  "ret x s = (Ok x, s)"

definition throw :: "'e \<Rightarrow> ('s, 'e, 'a) prog" where
  "throw e s = (Err e, s)"

definition panic :: "('s, 'e, 'a) prog" where
  "panic s = (Panic, s)"

definition diverge :: "('s, 'e, 'a) prog" where
  "diverge s = (Diverge, s)"

definition bnd :: "('s, 'e, 'a) prog \<Rightarrow> ('a \<Rightarrow> ('s, 'e, 'b) prog) \<Rightarrow> ('s, 'e, 'b) prog" where
  "bnd c f s = (case c s of
       (Ok a, s') \<Rightarrow> f a s'
     | (Err e, s') \<Rightarrow> (Err e, s')
     | (Panic, s') \<Rightarrow> (Panic, s')
     | (Diverge, s') \<Rightarrow> (Diverge, s'))"

definition modify :: "('s \<Rightarrow> 's) \<Rightarrow> ('s, 'e, unit) prog" where
  "modify f s = (Ok (), f s)"

definition gets :: "('s \<Rightarrow> 'a) \<Rightarrow> ('s, 'e, 'a) prog" where
  "gets f s = (Ok (f s), s)"

fun for_each :: "('x \<Rightarrow> ('s, 'e, unit) prog) \<Rightarrow> 'x list \<Rightarrow> ('s, 'e, unit) prog" where
  "for_each f [] = ret ()"
| "for_each f (x # xs) = bnd (f x) (\<lambda>_. for_each f xs)"

definition wp :: "('s, 'e, 'a) prog \<Rightarrow> (('e, 'a) outcome \<Rightarrow> 's \<Rightarrow> bool) \<Rightarrow> 's \<Rightarrow> bool" where
  "wp c Q s = (case c s of (r, s') \<Rightarrow> Q r s')"

definition on_ok :: "('a \<Rightarrow> 's \<Rightarrow> bool) \<Rightarrow> (('e, 'b) outcome \<Rightarrow> 's \<Rightarrow> bool) \<Rightarrow> ('e, 'a) outcome \<Rightarrow> 's \<Rightarrow> bool"
  where
  "on_ok P Q r s = (case r of
       Ok a \<Rightarrow> P a s | Err e \<Rightarrow> Q (Err e) s | Panic \<Rightarrow> Q Panic s | Diverge \<Rightarrow> Q Diverge s)"

section \<open>Ordered trees\<close>

type_synonym otree = "(bytes \<times> bytes) list"

fun ot_insert :: "'k::linorder \<Rightarrow> 'v \<Rightarrow> ('k \<times> 'v) list \<Rightarrow> ('k \<times> 'v) list" where
  "ot_insert k v [] = [(k, v)]"
| "ot_insert k v ((a, b) # xs) =
     (if k < a then (k, v) # (a, b) # xs
      else if k = a then (k, v) # xs
      else (a, b) # ot_insert k v xs)"

definition ot_remove :: "'k \<Rightarrow> ('k \<times> 'v) list \<Rightarrow> ('k \<times> 'v) list" where
  "ot_remove k xs = filter (\<lambda>p. fst p \<noteq> k) xs"

abbreviation keys :: "('k \<times> 'v) list \<Rightarrow> 'k list" where
  "keys xs \<equiv> map fst xs"

abbreviation vals :: "('k \<times> 'v) list \<Rightarrow> 'v list" where
  "vals xs \<equiv> map snd xs"

definition ot_sorted :: "('k::linorder \<times> 'v) list \<Rightarrow> bool" where
  "ot_sorted xs = sorted_wrt (<) (keys xs)"

definition val_bytes :: "otree \<Rightarrow> nat" where
  "val_bytes xs = sum_list (map length (vals xs))"

section \<open>Big-endian integers\<close>

fun be_nat :: "nat \<Rightarrow> nat \<Rightarrow> bytes" where
  "be_nat 0 n = []"
| "be_nat (Suc w) n = char_of (n div 256 ^ w) # be_nat w n"

definition to_be_bytes :: "'a::len word \<Rightarrow> bytes" where
  "to_be_bytes x = be_nat (LENGTH('a) div 8) (unat x)"

definition nat_of_be :: "bytes \<Rightarrow> nat" where
  "nat_of_be bs = foldl (\<lambda>a c. a * 256 + of_char c) 0 bs"

definition from_be_bytes :: "bytes \<Rightarrow> 'a::len word" where
  "from_be_bytes bs = word_of_nat (nat_of_be bs)"

section \<open>UTF-8\<close>

definition utf8_cont :: "nat \<Rightarrow> bool" where
  "utf8_cont b \<longleftrightarrow> 0x80 \<le> b \<and> b \<le> 0xBF"

definition utf8_head3 :: "nat \<Rightarrow> nat \<Rightarrow> bool" where
  "utf8_head3 a b \<longleftrightarrow>
     (a = 0xE0 \<and> 0xA0 \<le> b \<and> b \<le> 0xBF) \<or>
     (0xE1 \<le> a \<and> a \<le> 0xEC \<and> utf8_cont b) \<or>
     (a = 0xED \<and> 0x80 \<le> b \<and> b \<le> 0x9F) \<or>
     (0xEE \<le> a \<and> a \<le> 0xEF \<and> utf8_cont b)"

definition utf8_head4 :: "nat \<Rightarrow> nat \<Rightarrow> bool" where
  "utf8_head4 a b \<longleftrightarrow>
     (a = 0xF0 \<and> 0x90 \<le> b \<and> b \<le> 0xBF) \<or>
     (0xF1 \<le> a \<and> a \<le> 0xF3 \<and> utf8_cont b) \<or>
     (a = 0xF4 \<and> 0x80 \<le> b \<and> b \<le> 0x8F)"

fun utf8_codes :: "nat list \<Rightarrow> bool" where
  "utf8_codes [] = True"
| "utf8_codes (a # r) =
     (if a < 0x80 then utf8_codes r
      else (case r of [] \<Rightarrow> False
            | b # r1 \<Rightarrow>
                if 0xC2 \<le> a \<and> a \<le> 0xDF then utf8_cont b \<and> utf8_codes r1
                else (case r1 of [] \<Rightarrow> False
                      | c # r2 \<Rightarrow>
                          if utf8_head3 a b then utf8_cont c \<and> utf8_codes r2
                          else (case r2 of [] \<Rightarrow> False
                                | d # r3 \<Rightarrow> utf8_head4 a b \<and> utf8_cont c \<and> utf8_cont d \<and> utf8_codes r3))))"

definition utf8_ok :: "bytes \<Rightarrow> bool" where
  "utf8_ok s = utf8_codes (map of_char s)"

definition from_utf8 :: "bytes \<Rightarrow> string option" where
  "from_utf8 s = (if utf8_ok s then Some s else None)"

section \<open>Lemmas: programs\<close>

lemma wp_ret [wp_simps]: "wp (ret x) Q s = Q (Ok x) s"
  by (simp add: wp_def ret_def)

lemma wp_throw [wp_simps]: "wp (throw e) Q s = Q (Err e) s"
  by (simp add: wp_def throw_def)

lemma wp_panic [wp_simps]: "wp panic Q s = Q Panic s"
  by (simp add: wp_def panic_def)

lemma wp_diverge [wp_simps]: "wp diverge Q s = Q Diverge s"
  by (simp add: wp_def diverge_def)

lemma wp_modify [wp_simps]: "wp (modify f) Q s = Q (Ok ()) (f s)"
  by (simp add: wp_def modify_def)

lemma wp_gets [wp_simps]: "wp (gets f) Q s = Q (Ok (f s)) s"
  by (simp add: wp_def gets_def)

lemma wp_bnd [wp_simps]: "wp (bnd c f) Q s = wp c (on_ok (\<lambda>a. wp (f a) Q) Q) s"
  by (simp add: wp_def bnd_def on_ok_def split: prod.splits outcome.splits)

lemma on_ok_simps [simp]:
  "on_ok P Q (Ok a) s = P a s"
  "on_ok P Q (Err e) s = Q (Err e) s"
  "on_ok P Q Panic s = Q Panic s"
  "on_ok P Q Diverge s = Q Diverge s"
  by (simp_all add: on_ok_def)

lemma wpI: "(\<And>r s'. c s = (r, s') \<Longrightarrow> Q r s') \<Longrightarrow> wp c Q s"
  by (simp add: wp_def split: prod.splits)

lemma wpD: "wp c Q s \<Longrightarrow> c s = (r, s') \<Longrightarrow> Q r s'"
  by (simp add: wp_def)

lemma wp_mono: "wp c Q s \<Longrightarrow> (\<And>r s'. Q r s' \<Longrightarrow> Q' r s') \<Longrightarrow> wp c Q' s"
  by (simp add: wp_def split: prod.splits)

lemma wp_conj: "wp c Q s \<Longrightarrow> wp c Q' s \<Longrightarrow> wp c (\<lambda>r s'. Q r s' \<and> Q' r s') s"
  by (simp add: wp_def split: prod.splits)

lemma wp_for_each:
  assumes "I xs s"
    and "\<And>x ys s. I (x # ys) s \<Longrightarrow> wp (f x) (on_ok (\<lambda>_. I ys) Q) s"
    and "\<And>s. I [] s \<Longrightarrow> Q (Ok ()) s"
  shows "wp (for_each f xs) Q s"
  using assms(1)
proof (induction xs arbitrary: s)
  case Nil
  then show ?case by (simp add: wp_simps assms(3))
next
  case (Cons x xs)
  show ?case
    unfolding for_each.simps wp_bnd
    by (rule wp_mono [OF assms(2) [OF Cons.prems]])
      (auto simp: on_ok_def Cons.IH split: outcome.splits)
qed

section \<open>Lemmas: ordered trees\<close>

lemma keys_ot_insert [simp]: "set (keys (ot_insert k v xs)) = insert k (set (keys xs))"
  by (induction k v xs rule: ot_insert.induct) auto

lemma fst_set_ot_insert [simp]: "fst ` set (ot_insert k v xs) = insert k (fst ` set xs)"
  using keys_ot_insert by (metis list.set_map)

lemma ot_sorted_simps [ot_simps]:
  "ot_sorted []"
  "ot_sorted ((k, v) # xs) \<longleftrightarrow> (\<forall>p \<in> set xs. k < fst p) \<and> ot_sorted xs"
  by (auto simp: ot_sorted_def)

lemma ot_sorted_insert [intro]: "ot_sorted xs \<Longrightarrow> ot_sorted (ot_insert k v xs)"
proof (induction k v xs rule: ot_insert.induct)
  case (2 k v a b xs)
  have "\<forall>p \<in> set (ot_insert k v xs). a < fst p" if "\<not> k < a" "k \<noteq> a"
  proof
    fix p assume "p \<in> set (ot_insert k v xs)"
    then have "fst p \<in> insert k (fst ` set xs)"
      using fst_set_ot_insert by (metis imageI)
    then show "a < fst p" using 2 that by (auto simp: ot_simps)
  qed
  with 2 show ?case by (auto simp: ot_simps)
qed (auto simp: ot_simps)

lemma ot_sorted_filter [intro]: "ot_sorted xs \<Longrightarrow> ot_sorted (filter P xs)"
  by (induction xs) (auto simp: ot_simps)

lemma ot_sorted_remove [intro]: "ot_sorted xs \<Longrightarrow> ot_sorted (ot_remove k xs)"
  by (simp add: ot_remove_def ot_sorted_filter)

lemma ot_sorted_distinct: "ot_sorted xs \<Longrightarrow> distinct (keys xs)"
  by (simp add: ot_sorted_def strict_sorted_iff)

lemma ot_sorted_append:
  "ot_sorted (xs @ ys) \<longleftrightarrow>
     ot_sorted xs \<and> ot_sorted ys \<and> (\<forall>p \<in> set xs. \<forall>q \<in> set ys. fst p < fst q)"
  by (auto simp: ot_sorted_def sorted_wrt_append)

lemma map_of_ot_insert [simp]: "map_of (ot_insert k v xs) = (map_of xs)(k \<mapsto> v)"
  by (induction k v xs rule: ot_insert.induct) auto

lemma map_of_ot_remove [simp]: "map_of (ot_remove k xs) = (map_of xs)(k := None)"
  by (induction xs) (auto simp: ot_remove_def)

lemma keys_ot_remove [simp]: "set (keys (ot_remove k xs)) = set (keys xs) - {k}"
  by (auto simp: ot_remove_def)

lemma fst_set_ot_remove [simp]: "fst ` set (ot_remove k xs) = fst ` set xs - {k}"
  by (auto simp: ot_remove_def)

lemma set_ot_remove: "set (ot_remove k xs) = {p \<in> set xs. fst p \<noteq> k}"
  by (auto simp: ot_remove_def)

lemma set_ot_insert_subset: "set (ot_insert k v xs) \<subseteq> insert (k, v) (set xs)"
  by (induction k v xs rule: ot_insert.induct) auto

lemma set_ot_insert_fresh: "k \<notin> set (keys xs) \<Longrightarrow> set (ot_insert k v xs) = insert (k, v) (set xs)"
  by (induction k v xs rule: ot_insert.induct) auto

lemma ot_remove_Nil [simp]: "ot_remove k [] = []"
  by (simp add: ot_remove_def)

lemma ot_remove_absent: "k \<notin> set (keys xs) \<Longrightarrow> ot_remove k xs = xs"
  unfolding ot_remove_def by (rule filter_True) auto

lemma ot_remove_head: "ot_sorted ((k, v) # xs) \<Longrightarrow> ot_remove k ((k, v) # xs) = xs"
  by (auto simp: ot_remove_def ot_simps intro!: filter_True)

lemma map_of_Some_iff: "ot_sorted xs \<Longrightarrow> map_of xs k = Some v \<longleftrightarrow> (k, v) \<in> set xs"
  by (simp add: ot_sorted_distinct)

lemma mset_ot_insert:
  "k \<notin> set (keys xs) \<Longrightarrow> mset (ot_insert k v xs) = add_mset (k, v) (mset xs)"
  by (induction k v xs rule: ot_insert.induct) auto

lemma mset_vals_insert:
  "k \<notin> set (keys xs) \<Longrightarrow> mset (vals (ot_insert k v xs)) = add_mset v (mset (vals xs))"
  by (induction k v xs rule: ot_insert.induct) auto

lemma mset_vals_remove:
  "ot_sorted xs \<Longrightarrow> map_of xs k = Some v \<Longrightarrow>
     mset (vals xs) = add_mset v (mset (vals (ot_remove k xs)))"
proof (induction xs)
  case (Cons p xs)
  obtain a b where p: "p = (a, b)" by force
  show ?case
  proof (cases "a = k")
    case True
    with Cons.prems p have "b = v" by simp
    with True p Cons.prems show ?thesis by (simp add: ot_remove_head)
  next
    case False
    with Cons p show ?thesis by (simp add: ot_remove_def ot_simps)
  qed
qed simp

lemma length_ot_insert:
  "k \<notin> set (keys xs) \<Longrightarrow> length (ot_insert k v xs) = Suc (length xs)"
  by (induction k v xs rule: ot_insert.induct) auto

lemma ot_insert_split:
  "ot_sorted xs \<Longrightarrow> k \<notin> set (keys xs) \<Longrightarrow>
     ot_insert k v xs = filter (\<lambda>p. fst p < k) xs @ (k, v) # filter (\<lambda>p. k < fst p) xs"
proof (induction k v xs rule: ot_insert.induct)
  case (2 k v a b xs)
  show ?case
  proof (cases "k < a")
    case True
    with 2 have "\<forall>p \<in> set xs. k < fst p" by (auto simp: ot_simps)
    then have "filter (\<lambda>p. fst p < k) xs = []" "filter (\<lambda>p. k < fst p) xs = xs"
      by (auto simp: filter_empty_conv)
    with True show ?thesis by simp
  next
    case False
    with 2 show ?thesis by (auto simp: ot_simps)
  qed
qed simp

lemma ot_insert_last:
  "\<forall>p \<in> set xs. fst p < k \<Longrightarrow> ot_insert k v xs = xs @ [(k, v)]"
  by (induction k v xs rule: ot_insert.induct) auto

lemma val_bytes_simps [simp]:
  "val_bytes [] = 0"
  "val_bytes (p # xs) = length (snd p) + val_bytes xs"
  by (simp_all add: val_bytes_def)

lemma val_bytes_mset:
  assumes "mset (vals xs) = mset (vals ys)"
  shows "val_bytes xs = val_bytes ys"
proof -
  have "mset (map length (vals xs)) = mset (map length (vals ys))"
    using arg_cong [OF assms, of "image_mset length"] by (simp only: mset_map)
  then show ?thesis
    unfolding val_bytes_def by (metis sum_mset_sum_list)
qed

lemma val_bytes_insert:
  "k \<notin> set (keys xs) \<Longrightarrow> val_bytes (ot_insert k v xs) = length v + val_bytes xs"
  by (induction k v xs rule: ot_insert.induct) auto

lemma val_bytes_remove:
  assumes "ot_sorted xs" "map_of xs k = Some v"
  shows "val_bytes xs = length v + val_bytes (ot_remove k xs)"
proof -
  have "mset (vals xs) = mset (vals ((k, v) # ot_remove k xs))"
    using mset_vals_remove [OF assms] by simp
  from val_bytes_mset [OF this] show ?thesis by simp
qed

section \<open>Lemmas: big-endian integers\<close>

lemma length_be_nat [simp]: "length (be_nat w n) = w"
  by (induction w) auto

lemma length_to_be_bytes [simp]: "length (to_be_bytes (x :: 'a::len word)) = LENGTH('a) div 8"
  by (simp add: to_be_bytes_def)

lemma of_char_char_of_mod [simp]: "(of_char (char_of (n :: nat) :: char) :: nat) = n mod 256"
  by simp

lemma be_nat_mod: "be_nat w (n mod 256 ^ w) = be_nat w n"
proof -
  have "be_nat w (n mod 256 ^ v) = be_nat w n" if "w \<le> v" for v
    using that
  proof (induction w)
    case (Suc w)
    have "n mod 256 ^ v div 256 ^ w mod 256 = n div 256 ^ w mod (256 :: nat)"
    proof -
      have v: "(256::nat) ^ v = 256 ^ w * 256 ^ (v - w)"
        using Suc.prems by (simp flip: power_add)
      have "n mod 256 ^ v div 256 ^ w = n div 256 ^ w mod 256 ^ (v - w)"
        by (simp add: v mod_mult2_eq)
      moreover have "(256 :: nat) dvd 256 ^ (v - w)"
        using Suc.prems by (intro dvd_power) auto
      ultimately show ?thesis by (simp add: mod_mod_cancel)
    qed
    then have "(char_of (n mod 256 ^ v div 256 ^ w) :: char) = char_of (n div 256 ^ w)"
      by (metis char_of_mod_256)
    with Suc show ?case by simp
  qed simp
  then show ?thesis by blast
qed

lemma foldl_be: "foldl (\<lambda>a c. a * 256 + of_char c) (x::nat) bs = x * 256 ^ length bs + nat_of_be bs"
proof (induction bs arbitrary: x)
  case (Cons c bs)
  have "foldl (\<lambda>a c. a * 256 + of_char c) x (c # bs)
          = (x * 256 + of_char c) * 256 ^ length bs + nat_of_be bs"
    using Cons by simp
  moreover have "nat_of_be (c # bs) = of_char c * 256 ^ length bs + nat_of_be bs"
    using Cons [of "of_char c"] by (simp add: nat_of_be_def)
  ultimately show ?case by (simp add: algebra_simps)
qed (simp add: nat_of_be_def)

lemma nat_of_be_simps [simp]:
  "nat_of_be [] = 0"
  "nat_of_be (c # bs) = of_char c * 256 ^ length bs + nat_of_be bs"
  using foldl_be [of "of_char c" bs] by (simp_all add: nat_of_be_def)

lemma nat_of_be_be_nat: "nat_of_be (be_nat w n) = n mod 256 ^ w"
proof (induction w)
  case (Suc w)
  have "n mod 256 ^ Suc w = 256 ^ w * (n div 256 ^ w mod 256) + n mod 256 ^ w"
    using mod_mult2_eq [of n "256 ^ w" 256] by (simp add: mult.commute)
  with Suc show ?case by simp
qed simp

lemma nat_of_be_less: "nat_of_be bs < 256 ^ length bs"
proof (induction bs)
  case (Cons c bs)
  have "(of_char c :: nat) < 256" by (metis of_char_mod_256 mod_less_divisor zero_less_numeral)
  then have "Suc (of_char c) * 256 ^ length bs \<le> 256 * (256 :: nat) ^ length bs"
    by (intro mult_le_mono1 Suc_leI)
  moreover have "nat_of_be (c # bs) < Suc (of_char c) * 256 ^ length bs"
    using Cons by simp
  ultimately show ?case by (simp only: length_Cons power_Suc)
qed simp

lemma be_nat_nat_of_be: "be_nat (length bs) (nat_of_be bs) = bs"
proof (induction bs)
  case (Cons c bs)
  have lt: "nat_of_be bs < 256 ^ length bs" by (rule nat_of_be_less)
  then have d: "nat_of_be (c # bs) div 256 ^ length bs = of_char c" by simp
  have "be_nat (length bs) (nat_of_be (c # bs)) = be_nat (length bs) (nat_of_be (c # bs) mod 256 ^ length bs)"
    by (simp only: be_nat_mod)
  also have "\<dots> = bs" using lt Cons by simp
  finally show ?case using d by simp
qed simp

lemma be_nat_less:
  "m < 256 ^ w \<Longrightarrow> n < 256 ^ w \<Longrightarrow> be_nat w m < be_nat w n \<longleftrightarrow> m < n"
proof (induction w arbitrary: m n)
  case (Suc w)
  let ?B = "256 ^ w :: nat"
  have q: "m div ?B < 256" "n div ?B < 256"
    using Suc.prems by (simp_all add: less_mult_imp_div_less)
  have IH: "be_nat w m < be_nat w n \<longleftrightarrow> m mod ?B < n mod ?B"
    using Suc.IH [of "m mod ?B" "n mod ?B"] by (simp add: be_nat_mod)
  have e: "(char_of (m div ?B) :: char) = char_of (n div ?B) \<longleftrightarrow> m div ?B = n div ?B"
    using q by (metis of_char_char_of_mod mod_less)
  have l: "(char_of (m div ?B) :: char) < char_of (n div ?B) \<longleftrightarrow> m div ?B < n div ?B"
    using q by (simp add: less_char_def)
  have "m < n \<longleftrightarrow> m div ?B < n div ?B \<or> m div ?B = n div ?B \<and> m mod ?B < n mod ?B"
  proof (cases "m div ?B = n div ?B")
    case True
    then show ?thesis
      by (metis div_mult_mod_eq nat_add_left_cancel_less order_less_irrefl)
  next
    case False
    then show ?thesis
      by (metis div_le_mono linorder_not_less nat_less_le)
  qed
  then show ?case using IH e l by (simp only: be_nat.simps Cons_less_Cons)
qed simp

lemma be_nat_inj: "m < 256 ^ w \<Longrightarrow> n < 256 ^ w \<Longrightarrow> be_nat w m = be_nat w n \<longleftrightarrow> m = n"
  by (metis be_nat_less linorder_less_linear order_less_irrefl)

lemma unat_lt_256: "8 dvd LENGTH('a) \<Longrightarrow> unat (x :: 'a::len word) < 256 ^ (LENGTH('a) div 8)"
proof -
  assume "8 dvd LENGTH('a)"
  then have "(2::nat) ^ LENGTH('a) = (2 ^ 8) ^ (LENGTH('a) div 8)"
    by (simp only: power_mult [symmetric] dvd_mult_div_cancel)
  moreover have "unat x < 2 ^ LENGTH('a)" by (rule unsigned_less)
  ultimately show ?thesis by simp
qed

lemma from_be_bytes_to_be_bytes:
  "8 dvd LENGTH('a) \<Longrightarrow> from_be_bytes (to_be_bytes x) = (x :: 'a::len word)"
  by (simp add: from_be_bytes_def to_be_bytes_def nat_of_be_be_nat unat_lt_256)

lemma to_be_bytes_less:
  "8 dvd LENGTH('a) \<Longrightarrow> to_be_bytes x < to_be_bytes y \<longleftrightarrow> x < (y :: 'a::len word)"
  by (simp add: to_be_bytes_def be_nat_less unat_lt_256 word_less_nat_alt)

lemma to_be_bytes_inj:
  "8 dvd LENGTH('a) \<Longrightarrow> to_be_bytes x = to_be_bytes y \<longleftrightarrow> x = (y :: 'a::len word)"
  by (metis from_be_bytes_to_be_bytes)

lemma to_be_bytes_64 [simp]:
  "from_be_bytes (to_be_bytes (x :: 64 word)) = x"
  "to_be_bytes (x :: 64 word) < to_be_bytes y \<longleftrightarrow> x < y"
  "to_be_bytes (x :: 64 word) = to_be_bytes y \<longleftrightarrow> x = y"
  "length (to_be_bytes (x :: 64 word)) = 8"
  by (simp_all add: from_be_bytes_to_be_bytes to_be_bytes_less to_be_bytes_inj)

lemma unat_u64_of_nat [simp]: "n < 2 ^ 64 \<Longrightarrow> unat (word_of_nat n :: u64) = n"
  by (simp add: unat_of_nat take_bit_eq_mod)

lemma less_append_same: "(u :: bytes) @ x < u @ y \<longleftrightarrow> x < y"
  by (induction u) auto

lemma append_less_length:
  "length u = length v \<Longrightarrow> (u :: bytes) @ x < v @ y \<longleftrightarrow> u < v \<or> u = v \<and> x < y"
  by (induction u v rule: list_induct2) auto

end
