(* ===== verification/Sled.thy ===== *)
theory Sled
  imports Prelude
begin

text \<open>
  The interface to the embedded database \<^verbatim>\<open>sled\<close> (crate version 0.34), a third-party library.
  It is a parameter of the whole model: a record of the operations the program calls, over an
  abstract type \<open>'db\<close> of database states.

  The locale \<^verbatim>\<open>sled_store\<close> states what the program relies on, as documented by the crate: a
  database is a family of named trees, each an ordered map from byte strings to byte strings;
  \<^verbatim>\<open>insert\<close>, \<^verbatim>\<open>remove\<close>, \<^verbatim>\<open>get\<close>, \<^verbatim>\<open>contains_key\<close>, \<^verbatim>\<open>len\<close>, \<^verbatim>\<open>iter\<close>, \<^verbatim>\<open>range\<close> and \<^verbatim>\<open>last\<close> are
  the ordered-map operations; \<^verbatim>\<open>open_tree\<close> creates an empty tree when there is none;
  \<^verbatim>\<open>generate_id\<close> gives out strictly increasing identifiers; a transaction is all or nothing.
  The contents are observed through \<open>view\<close>, the next identifier through \<open>nxt\<close>.
  Every operation may fail with an I/O error when \<open>faulty\<close> holds, and then leaves the contents
  as they were; with \<open>faulty = False\<close> no operation fails (identifier exhaustion apart), and
  identifiers are contiguous.

  \<^verbatim>\<open>wp_rules\<close> receives the weakest-precondition rules of the operations, which carry the proofs
  of every client.
\<close>

section \<open>The operations\<close>

record 'db sled =
  sl_open_tree :: "'db \<Rightarrow> bytes \<Rightarrow> string + 'db"
  sl_contains_key :: "'db \<Rightarrow> bytes \<Rightarrow> bytes \<Rightarrow> string + bool"
  sl_get :: "'db \<Rightarrow> bytes \<Rightarrow> bytes \<Rightarrow> string + bytes option"
  sl_insert :: "'db \<Rightarrow> bytes \<Rightarrow> bytes \<Rightarrow> bytes \<Rightarrow> string + 'db"
  sl_remove :: "'db \<Rightarrow> bytes \<Rightarrow> bytes \<Rightarrow> string + (bytes option \<times> 'db)"
  sl_iter :: "'db \<Rightarrow> bytes \<Rightarrow> (string + bytes \<times> bytes) list"
  sl_range :: "'db \<Rightarrow> bytes \<Rightarrow> bytes \<Rightarrow> bool \<Rightarrow> bytes \<Rightarrow> (string + bytes \<times> bytes) list"
  sl_len :: "'db \<Rightarrow> bytes \<Rightarrow> nat"
  sl_last :: "'db \<Rightarrow> bytes \<Rightarrow> string + (bytes \<times> bytes) option"
  sl_generate_id :: "'db \<Rightarrow> string + (u64 \<times> 'db)"
  sl_commit :: "'db \<Rightarrow> string + 'db"
  sl_flush :: "'db \<Rightarrow> string + 'db"

datatype tx_error = TxAbort | TxStorage string

section \<open>The operations as programs\<close>

text \<open>Each call is followed by \<^verbatim>\<open>.map_err(E)?\<close> in the source; \<open>E\<close> is the error constructor.\<close>

definition db_open_tree :: "(string \<Rightarrow> 'e) \<Rightarrow> 'db sled \<Rightarrow> bytes \<Rightarrow> ('db, 'e, unit) prog" where
  "db_open_tree E S t d = (case sl_open_tree S d t of Inl e \<Rightarrow> (Err (E e), d) | Inr d' \<Rightarrow> (Ok (), d'))"

definition db_contains :: "(string \<Rightarrow> 'e) \<Rightarrow> 'db sled \<Rightarrow> bytes \<Rightarrow> bytes \<Rightarrow> ('db, 'e, bool) prog" where
  "db_contains E S t k d = (case sl_contains_key S d t k of Inl e \<Rightarrow> (Err (E e), d) | Inr b \<Rightarrow> (Ok b, d))"

definition db_get :: "(string \<Rightarrow> 'e) \<Rightarrow> 'db sled \<Rightarrow> bytes \<Rightarrow> bytes \<Rightarrow> ('db, 'e, bytes option) prog" where
  "db_get E S t k d = (case sl_get S d t k of Inl e \<Rightarrow> (Err (E e), d) | Inr r \<Rightarrow> (Ok r, d))"

definition db_insert :: "(string \<Rightarrow> 'e) \<Rightarrow> 'db sled \<Rightarrow> bytes \<Rightarrow> bytes \<Rightarrow> bytes \<Rightarrow> ('db, 'e, unit) prog"
  where
  "db_insert E S t k v d =
     (case sl_insert S d t k v of Inl e \<Rightarrow> (Err (E e), d) | Inr d' \<Rightarrow> (Ok (), d'))"

definition db_remove :: "(string \<Rightarrow> 'e) \<Rightarrow> 'db sled \<Rightarrow> bytes \<Rightarrow> bytes \<Rightarrow> ('db, 'e, bytes option) prog"
  where
  "db_remove E S t k d =
     (case sl_remove S d t k of Inl e \<Rightarrow> (Err (E e), d) | Inr (r, d') \<Rightarrow> (Ok r, d'))"

definition db_iter :: "'db sled \<Rightarrow> bytes \<Rightarrow> ('db, 'e, (string + bytes \<times> bytes) list) prog" where
  "db_iter S t d = (Ok (sl_iter S d t), d)"

text \<open>\<^verbatim>\<open>range(lo..hi)\<close> and, with \<open>incl\<close>, \<^verbatim>\<open>range(lo..=hi)\<close>.\<close>

definition db_range ::
    "'db sled \<Rightarrow> bytes \<Rightarrow> bytes \<Rightarrow> bool \<Rightarrow> bytes \<Rightarrow> ('db, 'e, (string + bytes \<times> bytes) list) prog" where
  "db_range S t lo incl hi d = (Ok (sl_range S d t lo incl hi), d)"

definition in_range :: "bytes \<Rightarrow> bool \<Rightarrow> bytes \<Rightarrow> bytes \<times> bytes \<Rightarrow> bool" where
  "in_range lo incl hi kv \<longleftrightarrow> lo \<le> fst kv \<and> (if incl then fst kv \<le> hi else fst kv < hi)"

definition db_len :: "'db sled \<Rightarrow> bytes \<Rightarrow> ('db, 'e, nat) prog" where
  "db_len S t d = (Ok (sl_len S d t), d)"

definition db_last :: "(string \<Rightarrow> 'e) \<Rightarrow> 'db sled \<Rightarrow> bytes \<Rightarrow> ('db, 'e, (bytes \<times> bytes) option) prog"
  where
  "db_last E S t d = (case sl_last S d t of Inl e \<Rightarrow> (Err (E e), d) | Inr r \<Rightarrow> (Ok r, d))"

definition db_generate_id :: "(string \<Rightarrow> 'e) \<Rightarrow> 'db sled \<Rightarrow> ('db, 'e, u64) prog" where
  "db_generate_id E S d =
     (case sl_generate_id S d of Inl e \<Rightarrow> (Err (E e), d) | Inr (i, d') \<Rightarrow> (Ok i, d'))"

definition db_flush :: "(string \<Rightarrow> 'e) \<Rightarrow> 'db sled \<Rightarrow> ('db, 'e, unit) prog" where
  "db_flush E S d = (case sl_flush S d of Inl e \<Rightarrow> (Err (E e), d) | Inr d' \<Rightarrow> (Ok (), d'))"

text \<open>
  A transaction runs its closure on the current contents and commits the result; an abort, a
  storage error or a failed commit leaves the database as it was.  The result is a value the
  source matches on.
\<close>

definition transaction :: "'db sled \<Rightarrow> ('db, tx_error, 'a) prog \<Rightarrow> ('db, 'e, tx_error + 'a) prog"
  where
  "transaction S body d =
     (case body d of
        (Ok a, d') \<Rightarrow>
          (case sl_commit S d' of
             Inl e \<Rightarrow> (Ok (Inl (TxStorage e)), d)
           | Inr d'' \<Rightarrow> (Ok (Inr a), d''))
      | (Err e, _) \<Rightarrow> (Ok (Inl e), d)
      | (Panic, _) \<Rightarrow> (Panic, d)
      | (Diverge, _) \<Rightarrow> (Diverge, d))"

text \<open>The entries of an iteration against the contents: equal, or an error where one may occur.\<close>

definition entries_ok :: "bool \<Rightarrow> (string + bytes \<times> bytes) list \<Rightarrow> otree \<Rightarrow> bool" where
  "entries_ok f es xs = list_all2 (\<lambda>r kv. r = Inr kv \<or> (f \<and> isl r)) es xs"

section \<open>The contract\<close>

locale sled_store =
  fixes S :: "'db sled"
    and view :: "'db \<Rightarrow> bytes \<Rightarrow> otree"
    and nxt :: "'db \<Rightarrow> nat"
    and faulty :: bool
  assumes view_sorted: "ot_sorted (view d t)"
    and open_tree_law: "sl_open_tree S d t = Inr d' \<Longrightarrow> view d' = view d \<and> nxt d' = nxt d"
    and contains_key_law: "sl_contains_key S d t k = Inr b \<Longrightarrow> b = (k \<in> set (keys (view d t)))"
    and get_law: "sl_get S d t k = Inr r \<Longrightarrow> r = map_of (view d t) k"
    and insert_law: "sl_insert S d t k v = Inr d' \<Longrightarrow>
          view d' = (view d)(t := ot_insert k v (view d t)) \<and> nxt d' = nxt d"
    and remove_law: "sl_remove S d t k = Inr (r, d') \<Longrightarrow>
          r = map_of (view d t) k \<and> view d' = (view d)(t := ot_remove k (view d t)) \<and> nxt d' = nxt d"
    and iter_law: "entries_ok faulty (sl_iter S d t) (view d t)"
    and range_law: "entries_ok faulty (sl_range S d t lo incl hi) (filter (in_range lo incl hi) (view d t))"
    and len_law: "sl_len S d t = length (view d t)"
    and last_law: "sl_last S d t = Inr l \<Longrightarrow>
          l = (if view d t = [] then None else Some (last (view d t)))"
    and generate_id_law: "sl_generate_id S d = Inr (i, d') \<Longrightarrow>
          unat i = nxt d \<and> nxt d < nxt d' \<and> view d' = view d \<and> (\<not> faulty \<longrightarrow> nxt d' = Suc (nxt d))"
    and commit_law: "sl_commit S d = Inr d' \<Longrightarrow> view d' = view d \<and> nxt d' = nxt d"
    and flush_law: "sl_flush S d = Inr d' \<Longrightarrow> view d' = view d \<and> nxt d' = nxt d"
    and no_fault:
      "sl_open_tree S d t = Inl e \<Longrightarrow> faulty" "sl_contains_key S d t k = Inl e \<Longrightarrow> faulty"
      "sl_get S d t k = Inl e \<Longrightarrow> faulty" "sl_insert S d t k v = Inl e \<Longrightarrow> faulty"
      "sl_remove S d t k = Inl e \<Longrightarrow> faulty" "sl_last S d t = Inl e \<Longrightarrow> faulty"
      "sl_commit S d = Inl e \<Longrightarrow> faulty" "sl_flush S d = Inl e \<Longrightarrow> faulty"
    and no_fault_id: "sl_generate_id S d = Inl e \<Longrightarrow> faulty \<or> 2 ^ 64 \<le> nxt d"
begin

lemma wp_open_tree [wp_rules]:
  assumes "\<And>e. faulty \<Longrightarrow> Q (Err (E e)) d"
    and "\<And>d'. view d' = view d \<Longrightarrow> nxt d' = nxt d \<Longrightarrow> Q (Ok ()) d'"
  shows "wp (db_open_tree E S t) Q d"
  using assms open_tree_law no_fault by (auto simp: wp_def db_open_tree_def split: sum.splits)

lemma wp_contains [wp_rules]:
  assumes "\<And>e. faulty \<Longrightarrow> Q (Err (E e)) d"
    and "Q (Ok (k \<in> set (keys (view d t)))) d"
  shows "wp (db_contains E S t k) Q d"
  using assms by (cases "sl_contains_key S d t k") (auto simp: wp_def db_contains_def dest: contains_key_law no_fault)

lemma wp_get [wp_rules]:
  assumes "\<And>e. faulty \<Longrightarrow> Q (Err (E e)) d"
    and "Q (Ok (map_of (view d t) k)) d"
  shows "wp (db_get E S t k) Q d"
  using assms by (cases "sl_get S d t k") (auto simp: wp_def db_get_def dest: get_law no_fault)

lemma wp_insert [wp_rules]:
  assumes "\<And>e. faulty \<Longrightarrow> Q (Err (E e)) d"
    and "\<And>d'. view d' = (view d)(t := ot_insert k v (view d t)) \<Longrightarrow> nxt d' = nxt d \<Longrightarrow> Q (Ok ()) d'"
  shows "wp (db_insert E S t k v) Q d"
  using assms by (cases "sl_insert S d t k v") (auto simp: wp_def db_insert_def dest: insert_law no_fault)

lemma wp_remove [wp_rules]:
  assumes "\<And>e. faulty \<Longrightarrow> Q (Err (E e)) d"
    and "\<And>d'. view d' = (view d)(t := ot_remove k (view d t)) \<Longrightarrow> nxt d' = nxt d \<Longrightarrow>
           Q (Ok (map_of (view d t) k)) d'"
  shows "wp (db_remove E S t k) Q d"
  using assms by (cases "sl_remove S d t k") (auto simp: wp_def db_remove_def dest: remove_law no_fault)

lemma wp_iter [wp_rules]:
  assumes "\<And>es. entries_ok faulty es (view d t) \<Longrightarrow> Q (Ok es) d"
  shows "wp (db_iter S t) Q d"
  using assms iter_law by (simp add: wp_def db_iter_def)

lemma wp_range [wp_rules]:
  assumes "\<And>es. entries_ok faulty es (filter (in_range lo incl hi) (view d t)) \<Longrightarrow> Q (Ok es) d"
  shows "wp (db_range S t lo incl hi) Q d"
  using assms range_law by (simp add: wp_def db_range_def)

lemma wp_len [wp_rules]:
  assumes "Q (Ok (length (view d t))) d"
  shows "wp (db_len S t) Q d"
  using assms len_law by (simp add: wp_def db_len_def)

lemma wp_last [wp_rules]:
  assumes "\<And>e. faulty \<Longrightarrow> Q (Err (E e)) d"
    and "Q (Ok (if view d t = [] then None else Some (last (view d t)))) d"
  shows "wp (db_last E S t) Q d"
  using assms by (cases "sl_last S d t") (auto simp: wp_def db_last_def dest: last_law no_fault)

lemma wp_generate_id [wp_rules]:
  assumes "\<And>e. faulty \<or> 2 ^ 64 \<le> nxt d \<Longrightarrow> Q (Err (E e)) d"
    and "\<And>d'. nxt d < 2 ^ 64 \<Longrightarrow> nxt d < nxt d' \<Longrightarrow> view d' = view d \<Longrightarrow>
           (\<not> faulty \<longrightarrow> nxt d' = Suc (nxt d)) \<Longrightarrow> Q (Ok (word_of_nat (nxt d))) d'"
  shows "wp (db_generate_id E S) Q d"
proof (cases "sl_generate_id S d")
  case (Inl e)
  with assms(1) no_fault_id show ?thesis by (simp add: wp_def db_generate_id_def)
next
  case (Inr p)
  obtain i d' where p: "p = (i, d')" by force
  with Inr generate_id_law [of d i d'] have law: "unat i = nxt d" "nxt d < nxt d'" "view d' = view d"
    "\<not> faulty \<longrightarrow> nxt d' = Suc (nxt d)" by simp_all
  moreover have "unat i < 2 ^ 64" using unsigned_less [of i] by simp
  moreover have "i = word_of_nat (nxt d)" using law(1) [symmetric] by simp
  ultimately show ?thesis using Inr p assms(2) [of d'] by (simp add: wp_def db_generate_id_def)
qed

lemma wp_flush [wp_rules]:
  assumes "\<And>e. faulty \<Longrightarrow> Q (Err (E e)) d"
    and "\<And>d'. view d' = view d \<Longrightarrow> nxt d' = nxt d \<Longrightarrow> Q (Ok ()) d'"
  shows "wp (db_flush E S) Q d"
  using assms flush_law no_fault by (auto simp: wp_def db_flush_def split: sum.splits)

lemma wp_transaction [wp_rules]:
  assumes "wp body (\<lambda>r d'. case r of
       Ok a \<Rightarrow> (\<forall>e. faulty \<longrightarrow> Q (Ok (Inl (TxStorage e))) d) \<and>
               (\<forall>d''. view d'' = view d' \<longrightarrow> nxt d'' = nxt d' \<longrightarrow> Q (Ok (Inr a)) d'')
     | Err e \<Rightarrow> Q (Ok (Inl e)) d
     | Panic \<Rightarrow> Q Panic d
     | Diverge \<Rightarrow> Q Diverge d) d"
  shows "wp (transaction S body) Q d"
proof -
  obtain r d' where body: "body d = (r, d')" by force
  show ?thesis
  proof (cases r)
    case (Ok a)
    show ?thesis
    proof (cases "sl_commit S d'")
      case (Inl e)
      with Ok body assms no_fault(7) [OF Inl] show ?thesis by (simp add: wp_def transaction_def)
    next
      case (Inr d'')
      with Ok body assms commit_law [OF Inr] show ?thesis by (simp add: wp_def transaction_def)
    qed
  qed (use body assms in \<open>simp_all add: wp_def transaction_def\<close>)
qed

end

section \<open>Iterations\<close>

lemma entries_ok_healthy: "entries_ok False es xs \<longleftrightarrow> es = map Inr xs"
  by (auto simp: entries_ok_def list_all2_conv_all_nth intro!: nth_equalityI)

lemma entries_ok_Cons:
  "entries_ok f es (kv # xs) \<longleftrightarrow>
     (\<exists>r es'. es = r # es' \<and> (r = Inr kv \<or> (f \<and> isl r)) \<and> entries_ok f es' xs)"
  by (auto simp: entries_ok_def list_all2_Cons2)

lemma entries_ok_Nil [simp]: "entries_ok f es [] \<longleftrightarrow> es = []" "entries_ok f [] xs \<longleftrightarrow> xs = []"
  by (auto simp: entries_ok_def)

lemma entries_ok_set: "entries_ok f es xs \<Longrightarrow> Inr kv \<in> set es \<Longrightarrow> kv \<in> set xs"
  by (induction es arbitrary: xs) (auto simp: entries_ok_def list_all2_Cons1)

lemma entries_ok_length: "entries_ok f es xs \<Longrightarrow> length es = length xs"
  by (simp add: entries_ok_def list_all2_lengthD)

lemma entries_ok_take: "entries_ok f es xs \<Longrightarrow> entries_ok f (take n es) (take n xs)"
  by (simp add: entries_ok_def list_all2_takeI)

end
