(* ===== verification/Core_Types.thy ===== *)
theory Core_Types
  imports Prelude "HOL-Library.Finite_Map"
begin

text \<open>
  The data types of \<^verbatim>\<open>pelicanq-core\<close>: \<^verbatim>\<open>error.rs\<close> (\<^verbatim>\<open>PelicanError\<close> and its \<^verbatim>\<open>Display\<close>),
  \<^verbatim>\<open>message.rs\<close> (\<^verbatim>\<open>DeliveryTag\<close>, \<^verbatim>\<open>Message\<close> and its builders), \<^verbatim>\<open>retention.rs\<close>
  (\<^verbatim>\<open>RetentionPolicy\<close>, \<^verbatim>\<open>StorageWatermarks\<close>) and, of \<^verbatim>\<open>queue.rs\<close>, \<^verbatim>\<open>PublishOutcome\<close> and the
  in-memory \<^verbatim>\<open>Queue\<close>, which is an instance of the contract \<^verbatim>\<open>fifo\<close>.

  The serializer \<^verbatim>\<open>bincode\<close> is third-party code: a record of the four calls the program makes,
  with the locale \<^verbatim>\<open>bincode_codec\<close> for what the program relies on.  A \<^verbatim>\<open>HashMap\<close> is a finite
  map; random UUIDs and clock readings are arguments.
\<close>

section \<open>Messages, errors and policies\<close>

type_synonym uuid = "128 word"

datatype delivery_tag = DeliveryTag (tag_u64: u64)

record message =
  msg_id :: uuid
  payload :: bytes
  headers :: "(string, string) fmap"
  timestamp :: i64
  delivery_attempts :: u32
  priority :: u8
  deliver_at :: "i64 option"
  dedup_key :: "string option"

datatype pelican_error =
    QueueNotFound string
  | QueueAlreadyExists string
  | Storage string
  | Serialization string
  | InvalidDeliveryTag delivery_tag
  | StorageLimitExceeded u8 u8
  | MessageDeadLettered string string

fun show_nat :: "nat \<Rightarrow> string" where
  "show_nat n = (if n < 10 then [char_of (48 + n)] else show_nat (n div 10) @ [char_of (48 + n mod 10)])"

declare show_nat.simps [simp del]

definition show_delivery_tag :: "delivery_tag \<Rightarrow> string" where
  "show_delivery_tag t = show_nat (unat (tag_u64 t))"

fun pelican_error_to_string :: "pelican_error \<Rightarrow> string" where
  "pelican_error_to_string (QueueNotFound queue) = ''queue not found: '' @ queue"
| "pelican_error_to_string (QueueAlreadyExists queue) = ''queue already exists: '' @ queue"
| "pelican_error_to_string (Storage msg) = ''storage error: '' @ msg"
| "pelican_error_to_string (Serialization msg) = ''serialization error: '' @ msg"
| "pelican_error_to_string (InvalidDeliveryTag tag) = ''invalid delivery tag: '' @ show_delivery_tag tag"
| "pelican_error_to_string (StorageLimitExceeded used_pct limit_pct) =
     ''storage watermark exceeded: disk usage at '' @ show_nat (unat used_pct) @
     ''%, limit is '' @ show_nat (unat limit_pct) @ ''%''"
| "pelican_error_to_string (MessageDeadLettered queue dlq) =
     ''message dead-lettered: queue='' @ queue @ '', dlq='' @ dlq"

definition Message_new :: "uuid \<Rightarrow> i64 \<Rightarrow> bytes \<Rightarrow> (string, string) fmap \<Rightarrow> message" where
  "Message_new new_v4 now_ms pl hs =
     \<lparr>msg_id = new_v4, payload = pl, headers = hs, timestamp = now_ms, delivery_attempts = 0,
      priority = 0, deliver_at = None, dedup_key = None\<rparr>"

definition with_priority :: "message \<Rightarrow> u8 \<Rightarrow> message" where
  "with_priority m p = m\<lparr>priority := min p 9\<rparr>"

definition with_deliver_at :: "message \<Rightarrow> i64 \<Rightarrow> message" where
  "with_deliver_at m at = m\<lparr>deliver_at := Some at\<rparr>"

definition with_dedup_key :: "message \<Rightarrow> string \<Rightarrow> message" where
  "with_dedup_key m k = m\<lparr>dedup_key := Some k\<rparr>"

record retention_policy =
  max_age_secs :: "u64 option"
  max_messages :: "u64 option"
  max_delivery_attempts :: "u32 option"
  dedup_window_secs :: "u64 option"

definition RetentionPolicy_default :: retention_policy where
  "RetentionPolicy_default =
     \<lparr>max_age_secs = None, max_messages = None, max_delivery_attempts = None, dedup_window_secs = None\<rparr>"

definition RetentionPolicy_new ::
    "u64 option \<Rightarrow> u64 option \<Rightarrow> u32 option \<Rightarrow> u64 option \<Rightarrow> retention_policy" where
  "RetentionPolicy_new age msgs attempts dedup =
     \<lparr>max_age_secs = age, max_messages = msgs, max_delivery_attempts = attempts,
      dedup_window_secs = dedup\<rparr>"

record storage_watermarks =
  warn_pct :: u8
  throttle_pct :: u8
  reject_pct :: u8

definition StorageWatermarks_default :: storage_watermarks where
  "StorageWatermarks_default = \<lparr>warn_pct = 75, throttle_pct = 90, reject_pct = 95\<rparr>"

datatype publish_outcome = Stored uuid | Deduplicated

section \<open>The in-memory queue\<close>

record mem_queue =
  mq_name :: string
  mq_messages :: "message list"

definition Queue_new :: "string \<Rightarrow> mem_queue" where
  "Queue_new n = \<lparr>mq_name = n, mq_messages = []\<rparr>"

definition Queue_name :: "mem_queue \<Rightarrow> string" where
  "Queue_name q = mq_name q"

definition Queue_publish :: "mem_queue \<Rightarrow> message \<Rightarrow> mem_queue" where
  "Queue_publish q m = q\<lparr>mq_messages := mq_messages q @ [m]\<rparr>"

definition Queue_consume :: "mem_queue \<Rightarrow> message option \<times> mem_queue" where
  "Queue_consume q = (case mq_messages q of
       [] \<Rightarrow> (None, q)
     | m # ms \<Rightarrow> (Some m, q\<lparr>mq_messages := ms\<rparr>))"

definition Queue_depth :: "mem_queue \<Rightarrow> nat" where
  "Queue_depth q = length (mq_messages q)"

fun Queue_drain :: "nat \<Rightarrow> mem_queue \<Rightarrow> message list \<times> mem_queue" where
  "Queue_drain 0 q = ([], q)"
| "Queue_drain (Suc n) q = (case Queue_consume q of
       (None, q') \<Rightarrow> ([], q')
     | (Some m, q') \<Rightarrow> (case Queue_drain n q' of (ms, q'') \<Rightarrow> (m # ms, q'')))"

section \<open>The serializer\<close>

record bincode =
  ser_message :: "message \<Rightarrow> string + bytes"
  de_message :: "bytes \<Rightarrow> string + message"
  ser_policy :: "retention_policy \<Rightarrow> string + bytes"
  de_policy :: "bytes \<Rightarrow> string + retention_policy"

text \<open>
  \<^verbatim>\<open>bincode::serialize\<close> with its default configuration has no size limit, is inverted by
  \<^verbatim>\<open>deserialize\<close>, and writes integers with a fixed width, so that the encoded length of a message
  does not depend on its attempt counter.
\<close>

locale bincode_codec =
  fixes B :: bincode
  assumes message_roundtrip: "ser_message B m = Inr b \<Longrightarrow> de_message B b = Inr m"
    and policy_roundtrip: "ser_policy B p = Inr b \<Longrightarrow> de_policy B b = Inr p"
    and ser_message_total: "\<exists>b. ser_message B m = Inr b"
    and ser_policy_total: "\<exists>b. ser_policy B p = Inr b"
    and fixed_width_attempts:
      "ser_message B m = Inr b \<Longrightarrow> ser_message B (m\<lparr>delivery_attempts := n\<rparr>) = Inr b' \<Longrightarrow>
         length b' = length b"
begin

lemma ser_message_inj: "ser_message B m = Inr b \<Longrightarrow> ser_message B m' = Inr b \<Longrightarrow> m = m'"
  by (metis message_roundtrip sum.inject(2))

end

text \<open>First in, first out: what a queue over a list of waiting elements promises.\<close>

locale fifo =
  fixes push :: "'q \<Rightarrow> 'a \<Rightarrow> 'q"
    and pop :: "'q \<Rightarrow> 'a option \<times> 'q"
    and contents :: "'q \<Rightarrow> 'a list"
  assumes push_law: "contents (push q x) = contents q @ [x]"
    and pop_empty: "contents q = [] \<Longrightarrow> pop q = (None, q)"
    and pop_law: "contents q = x # xs \<Longrightarrow> \<exists>q'. pop q = (Some x, q') \<and> contents q' = xs"
begin

lemma foldl_push: "contents (foldl push q xs) = contents q @ xs"
  by (induction xs arbitrary: q) (simp_all add: push_law)

lemma pop_after_push: "\<exists>y q'. pop (push q x) = (Some y, q') \<and> y # contents q' = contents q @ [x]"
proof (cases "contents (push q x)")
  case Nil
  then show ?thesis by (simp add: push_law)
next
  case (Cons y ys)
  with pop_law [OF Cons] show ?thesis by (metis push_law)
qed

end

interpretation mq: fifo Queue_publish Queue_consume mq_messages
  by unfold_locales (auto simp: Queue_publish_def Queue_consume_def)

lemma Queue_drain_contents:
  "\<exists>q'. Queue_drain n q = (take n (mq_messages q), q') \<and> mq_messages q' = drop n (mq_messages q)"
proof (induction n arbitrary: q)
  case (Suc n)
  show ?case
  proof (cases "mq_messages q")
    case Nil
    then show ?thesis by (simp add: Queue_consume_def)
  next
    case (Cons m ms)
    from mq.pop_law [OF Cons] obtain q1
      where "Queue_consume q = (Some m, q1)" "mq_messages q1 = ms" by blast
    with Suc [of q1] Cons show ?thesis by auto
  qed
qed simp

lemma priority_with_priority: "priority (with_priority m p) \<le> 9"
  by (simp add: with_priority_def)

text \<open>
  The in-memory queue is first in, first out: publishing any messages to a queue and consuming
  that many times returns the messages that were waiting before, then the published ones, in
  order, and leaves the queue empty.
\<close>

theorem Queue_fifo:
  "\<exists>q'. Queue_drain (Queue_depth q + length ms) (foldl Queue_publish q ms) = (mq_messages q @ ms, q')
     \<and> mq_messages q' = []"
  using Queue_drain_contents [of "Queue_depth q + length ms" "foldl Queue_publish q ms"]
  by (simp add: mq.foldl_push Queue_depth_def)

end
