(* ===== verification/Queue_Manager.thy ===== *)
theory Queue_Manager
  imports Sled Core_Types
begin

text \<open>
  The \<^verbatim>\<open>QueueManager\<close> of \<^verbatim>\<open>pelicanq-core/src/queue.rs\<close>, one definition per method, parameterised
  by the database \<open>S\<close> and the serializer \<open>B\<close>.  A method on \<^verbatim>\<open>&mut self\<close> is a program over
  \<^verbatim>\<open>manager\<close>.  A call of \<^verbatim>\<open>Message::now_ms()\<close> is an argument, one per call site.  The retry
  loop of \<^verbatim>\<open>consume\<close> has a bound of two rounds and the outcome \<^verbatim>\<open>Diverge\<close> beyond it;
  \<^verbatim>\<open>Queue_Invariant\<close> shows that one round is enough on every database that keeps its contract.
  This theory holds definitions only.
\<close>

record 'db manager =
  mgr_db :: 'db
  current_bytes :: u64
  max_bytes :: "u64 option"

definition on_db :: "('db, 'e, 'a) prog \<Rightarrow> ('db manager, 'e, 'a) prog" where
  "on_db c m = (case c (mgr_db m) of (r, d) \<Rightarrow> (r, m\<lparr>mgr_db := d\<rparr>))"

type_synonym ('db, 'a) mprog = "('db manager, pelican_error, 'a) prog"

abbreviation q_open_tree :: "'db sled \<Rightarrow> bytes \<Rightarrow> ('db, unit) mprog" where
  "q_open_tree S t \<equiv> on_db (db_open_tree Storage S t)"

abbreviation q_contains :: "'db sled \<Rightarrow> bytes \<Rightarrow> bytes \<Rightarrow> ('db, bool) mprog" where
  "q_contains S t k \<equiv> on_db (db_contains Storage S t k)"

abbreviation q_get :: "'db sled \<Rightarrow> bytes \<Rightarrow> bytes \<Rightarrow> ('db, bytes option) mprog" where
  "q_get S t k \<equiv> on_db (db_get Storage S t k)"

abbreviation q_insert :: "'db sled \<Rightarrow> bytes \<Rightarrow> bytes \<Rightarrow> bytes \<Rightarrow> ('db, unit) mprog" where
  "q_insert S t k v \<equiv> on_db (db_insert Storage S t k v)"

abbreviation q_remove :: "'db sled \<Rightarrow> bytes \<Rightarrow> bytes \<Rightarrow> ('db, bytes option) mprog" where
  "q_remove S t k \<equiv> on_db (db_remove Storage S t k)"

abbreviation q_iter :: "'db sled \<Rightarrow> bytes \<Rightarrow> ('db, (string + bytes \<times> bytes) list) mprog" where
  "q_iter S t \<equiv> on_db (db_iter S t)"

abbreviation q_len :: "'db sled \<Rightarrow> bytes \<Rightarrow> ('db, nat) mprog" where
  "q_len S t \<equiv> on_db (db_len S t)"

abbreviation q_generate_id :: "'db sled \<Rightarrow> ('db, u64) mprog" where
  "q_generate_id S \<equiv> on_db (db_generate_id Storage S)"

abbreviation q_transaction :: "'db sled \<Rightarrow> ('db, tx_error, 'a) prog \<Rightarrow> ('db, tx_error + 'a) mprog" where
  "q_transaction S body \<equiv> on_db (transaction S body)"

section \<open>Trees, keys and machine arithmetic\<close>

definition META_QUEUES_TREE :: bytes where
  "META_QUEUES_TREE = ''__meta__queues''"

definition META_RETENTION_TREE :: bytes where
  "META_RETENTION_TREE = ''__meta__retention''"

definition inflight_tree_name :: "string \<Rightarrow> bytes" where
  "inflight_tree_name n = ''inflight:'' @ n"

definition dlq_tree_name :: "string \<Rightarrow> bytes" where
  "dlq_tree_name n = ''dlq:'' @ n"

definition scheduled_tree_name :: "string \<Rightarrow> bytes" where
  "scheduled_tree_name n = ''scheduled:'' @ n"

definition dedup_tree_name :: "string \<Rightarrow> bytes" where
  "dedup_tree_name n = ''dedup:'' @ n"

definition sat_sub :: "'a::len word \<Rightarrow> 'a word \<Rightarrow> 'a word" where
  "sat_sub a b = (if b \<le> a then a - b else 0)"

definition i64_less :: "i64 \<Rightarrow> i64 \<Rightarrow> bool" where
  "i64_less a b \<longleftrightarrow> sint a < sint b"

definition encode_scheduled_key :: "i64 \<Rightarrow> u64 \<Rightarrow> bytes" where
  "encode_scheduled_key deliver_at_ms i = to_be_bytes deliver_at_ms @ to_be_bytes i"

definition encode_key :: "u8 \<Rightarrow> u64 \<Rightarrow> bytes" where
  "encode_key p i = char_of (unat (sat_sub 9 (min p 9))) # to_be_bytes i"

definition oks :: "('x + 'y) list \<Rightarrow> 'y list" where
  "oks es = List.map_filter (\<lambda>r. case r of Inl _ \<Rightarrow> None | Inr kv \<Rightarrow> Some kv) es"

section \<open>Listing, byte accounting, opening and crash recovery\<close>

definition list_queues :: "'db sled \<Rightarrow> ('db, string list) mprog" where
  "list_queues S = bnd (q_iter S META_QUEUES_TREE) (\<lambda>es.
     ret (List.map_filter from_utf8 (keys (oks es))))"

fun sum_entries :: "u64 \<Rightarrow> (string + bytes \<times> bytes) list \<Rightarrow> ('db, u64) mprog" where
  "sum_entries tot [] = ret tot"
| "sum_entries tot (Inl e # es) = throw (Storage e)"
| "sum_entries tot (Inr (_, value) # es) = sum_entries (tot + of_nat (length value)) es"

definition add_tree :: "'db sled \<Rightarrow> bytes \<Rightarrow> u64 \<Rightarrow> ('db, u64) mprog" where
  "add_tree S t tot = bnd (q_open_tree S t) (\<lambda>_. bnd (q_iter S t) (\<lambda>es. sum_entries tot es))"

fun recalculate_queues :: "'db sled \<Rightarrow> string list \<Rightarrow> u64 \<Rightarrow> ('db, u64) mprog" where
  "recalculate_queues S [] tot = ret tot"
| "recalculate_queues S (name # names) tot =
     bnd (add_tree S name tot) (\<lambda>tot.
     bnd (add_tree S (inflight_tree_name name) tot) (\<lambda>tot.
     bnd (add_tree S (dlq_tree_name name) tot) (\<lambda>tot.
     bnd (add_tree S (scheduled_tree_name name) tot) (\<lambda>tot.
     bnd (add_tree S (dedup_tree_name name) tot) (\<lambda>tot.
     recalculate_queues S names tot)))))"

definition recalculate_bytes :: "'db sled \<Rightarrow> ('db, u64) mprog" where
  "recalculate_bytes S = bnd (list_queues S) (\<lambda>names. recalculate_queues S names 0)"

definition recover_insert :: "'db sled \<Rightarrow> bincode \<Rightarrow> string \<Rightarrow> bytes \<Rightarrow> ('db, unit) mprog" where
  "recover_insert S B name value =
     (case de_message B value of
        Inl e \<Rightarrow> throw (Serialization e)
      | Inr msg \<Rightarrow>
          bnd (q_generate_id S) (\<lambda>new_id.
          q_insert S name (encode_key (priority msg) new_id) value))"

definition recover_queue :: "'db sled \<Rightarrow> bincode \<Rightarrow> string \<Rightarrow> ('db, unit) mprog" where
  "recover_queue S B name =
     bnd (q_open_tree S (inflight_tree_name name)) (\<lambda>_.
     bnd (q_open_tree S name) (\<lambda>_.
     bnd (q_iter S (inflight_tree_name name)) (\<lambda>es.
     let entries = oks es in
     if entries = [] then ret ()
     else
       bnd (for_each (\<lambda>(_, value). recover_insert S B name value) entries) (\<lambda>_.
       for_each (\<lambda>(key_bytes, _).
         bnd (q_remove S (inflight_tree_name name) key_bytes) (\<lambda>_. ret ())) entries))))"

definition recover_inflight :: "'db sled \<Rightarrow> bincode \<Rightarrow> ('db, unit) mprog" where
  "recover_inflight S B = bnd (list_queues S) (\<lambda>names. for_each (recover_queue S B) names)"

text \<open>\<open>opened\<close> is the result of \<^verbatim>\<open>sled::open(data_dir)\<close>; the database state survives a failure.\<close>

definition open_manager ::
    "'db sled \<Rightarrow> bincode \<Rightarrow> string + 'db \<Rightarrow> u64 option \<Rightarrow> (pelican_error, unit) outcome \<times> 'db manager option"
  where
  "open_manager S B opened mx =
     (case opened of
        Inl e \<Rightarrow> (Err (Storage e), None)
      | Inr d \<Rightarrow>
          (case
             bnd (q_open_tree S META_QUEUES_TREE) (\<lambda>_.
             bnd (q_open_tree S META_RETENTION_TREE) (\<lambda>_.
             bnd (recalculate_bytes S) (\<lambda>tot.
             bnd (modify (\<lambda>m. m\<lparr>current_bytes := tot\<rparr>)) (\<lambda>_.
             recover_inflight S B)))) \<lparr>mgr_db = d, current_bytes = 0, max_bytes = mx\<rparr>
           of (r, m) \<Rightarrow> (r, Some m)))"

section \<open>Declaring queues\<close>

definition declare_queue_with_retention ::
    "'db sled \<Rightarrow> bincode \<Rightarrow> string \<Rightarrow> retention_policy \<Rightarrow> ('db, unit) mprog" where
  "declare_queue_with_retention S B name policy =
     bnd (q_contains S META_QUEUES_TREE name) (\<lambda>exists.
     if exists then throw (QueueAlreadyExists name)
     else
       bnd (q_insert S META_QUEUES_TREE name []) (\<lambda>_.
       bnd (q_open_tree S name) (\<lambda>_.
       bnd (q_open_tree S (inflight_tree_name name)) (\<lambda>_.
       bnd (q_open_tree S (dlq_tree_name name)) (\<lambda>_.
       bnd (q_open_tree S (scheduled_tree_name name)) (\<lambda>_.
       bnd (q_open_tree S (dedup_tree_name name)) (\<lambda>_.
       case ser_policy B policy of
         Inl e \<Rightarrow> throw (Serialization e)
       | Inr policy_bytes \<Rightarrow> q_insert S META_RETENTION_TREE name policy_bytes)))))))"

definition declare_queue :: "'db sled \<Rightarrow> bincode \<Rightarrow> string \<Rightarrow> ('db, unit) mprog" where
  "declare_queue S B name = declare_queue_with_retention S B name RetentionPolicy_default"

definition check_declared :: "'db sled \<Rightarrow> string \<Rightarrow> ('db, unit) mprog" where
  "check_declared S queue =
     bnd (q_contains S META_QUEUES_TREE queue) (\<lambda>exists.
     if \<not> exists then throw (QueueNotFound queue) else ret ())"

definition policy_of :: "bincode \<Rightarrow> bytes option \<Rightarrow> retention_policy" where
  "policy_of B r =
     (case r of
        None \<Rightarrow> RetentionPolicy_default
      | Some b \<Rightarrow> (case de_policy B b of Inl _ \<Rightarrow> RetentionPolicy_default | Inr p \<Rightarrow> p))"

definition read_policy :: "'db sled \<Rightarrow> bincode \<Rightarrow> string \<Rightarrow> ('db, retention_policy) mprog" where
  "read_policy S B queue = bnd (q_get S META_RETENTION_TREE queue) (\<lambda>r. ret (policy_of B r))"

section \<open>Publishing\<close>

definition dedup_check ::
    "'db sled \<Rightarrow> string \<Rightarrow> retention_policy \<Rightarrow> message \<Rightarrow> i64 \<Rightarrow> ('db, bool) mprog" where
  "dedup_check S queue policy message now_ms =
     (case dedup_window_secs policy of
        None \<Rightarrow> ret False
      | Some window_secs \<Rightarrow>
          if window_secs > 0 then
            (case dedup_key message of
               None \<Rightarrow> ret False
             | Some k \<Rightarrow>
                 bnd (q_open_tree S (dedup_tree_name queue)) (\<lambda>_.
                 bnd (q_get S (dedup_tree_name queue) k) (\<lambda>r.
                 case r of
                   None \<Rightarrow> ret False
                 | Some recorded \<Rightarrow>
                     if length recorded < 8 then panic
                     else
                       (let recorded_ms = from_be_bytes (take 8 recorded);
                            window_ms = window_secs * 1000
                        in ret (i64_less (now_ms - window_ms) recorded_ms)))))
          else ret False)"

definition record_dedup_key ::
    "'db sled \<Rightarrow> string \<Rightarrow> message \<Rightarrow> retention_policy \<Rightarrow> i64 \<Rightarrow> ('db, unit) mprog" where
  "record_dedup_key S queue message policy now_ms =
     (if dedup_window_secs policy \<noteq> None then
        (case dedup_key message of
           None \<Rightarrow> ret ()
         | Some k \<Rightarrow>
             bnd (q_open_tree S (dedup_tree_name queue)) (\<lambda>_.
             q_insert S (dedup_tree_name queue) k (to_be_bytes now_ms)))
      else ret ())"

definition storage_limit :: "u64 option \<Rightarrow> u64 \<Rightarrow> u64 \<Rightarrow> pelican_error option" where
  "storage_limit limit current msg_len =
     (case limit of
        None \<Rightarrow> None
      | Some mx \<Rightarrow>
          if current + msg_len > mx then
            (let used_pct = (if mx > 0 then ucast (current * 100 div mx) else 100)
             in Some (StorageLimitExceeded used_pct 100))
          else None)"

text \<open>The clock is read up to three times: in the dedup check, for \<^verbatim>\<open>deliver_at\<close>, and in
  \<^verbatim>\<open>record_dedup_key\<close>; \<open>clk i\<close> is the i-th reading.\<close>

definition publish ::
    "'db sled \<Rightarrow> bincode \<Rightarrow> (nat \<Rightarrow> i64) \<Rightarrow> string \<Rightarrow> message \<Rightarrow> ('db, publish_outcome) mprog" where
  "publish S B clk queue message =
     bnd (check_declared S queue) (\<lambda>_.
     bnd (read_policy S B queue) (\<lambda>policy.
     bnd (dedup_check S queue policy message (clk 0)) (\<lambda>dup.
     if dup then ret Deduplicated
     else
       case ser_message B message of
         Inl e \<Rightarrow> throw (Serialization e)
       | Inr value \<Rightarrow>
           let msg_len = of_nat (length value) in
           bnd (gets (\<lambda>m. storage_limit (max_bytes m) (current_bytes m) msg_len)) (\<lambda>exceeded.
           case exceeded of
             Some e \<Rightarrow> throw e
           | None \<Rightarrow>
               bnd (q_generate_id S) (\<lambda>i.
               case (case deliver_at message of
                       None \<Rightarrow> None
                     | Some at \<Rightarrow> if i64_less (clk 1) at then Some at else None) of
                 Some at \<Rightarrow>
                   bnd (q_open_tree S (scheduled_tree_name queue)) (\<lambda>_.
                   bnd (q_insert S (scheduled_tree_name queue) (encode_scheduled_key at i) value) (\<lambda>_.
                   bnd (modify (\<lambda>m. m\<lparr>current_bytes := current_bytes m + msg_len\<rparr>)) (\<lambda>_.
                   bnd (record_dedup_key S queue message policy (clk 2)) (\<lambda>_.
                   ret (Stored (msg_id message))))))
               | None \<Rightarrow>
                   bnd (q_open_tree S queue) (\<lambda>_.
                   bnd (q_insert S queue (encode_key (priority message) i) value) (\<lambda>_.
                   bnd (modify (\<lambda>m. m\<lparr>current_bytes := current_bytes m + msg_len\<rparr>)) (\<lambda>_.
                   bnd (record_dedup_key S queue message policy (clk 2)) (\<lambda>_.
                   ret (Stored (msg_id message)))))))))))"

section \<open>Consuming, acknowledging and rejecting\<close>

fun first_key :: "(string + bytes \<times> bytes) list \<Rightarrow> bytes option" where
  "first_key (Inr (k, _) # _) = Some k"
| "first_key _ = None"

definition consume_tx :: "'db sled \<Rightarrow> string \<Rightarrow> bytes \<Rightarrow> bytes \<Rightarrow> ('db, tx_error, bytes) prog" where
  "consume_tx S queue key id_bytes =
     bnd (db_remove TxStorage S queue key) (\<lambda>r.
     case r of
       Some value \<Rightarrow>
         bnd (db_insert TxStorage S (inflight_tree_name queue) id_bytes value) (\<lambda>_. ret value)
     | None \<Rightarrow> throw TxAbort)"

fun consume_loop ::
    "'db sled \<Rightarrow> bincode \<Rightarrow> string \<Rightarrow> nat \<Rightarrow> ('db, (delivery_tag \<times> message) option) mprog" where
  "consume_loop S B queue 0 = diverge"
| "consume_loop S B queue (Suc n) =
     bnd (q_iter S queue) (\<lambda>es.
     case first_key es of
       None \<Rightarrow> ret None
     | Some key \<Rightarrow>
         if length key < 9 then panic
         else
           let id_bytes = take 8 (drop 1 key) in
           bnd (q_transaction S (consume_tx S queue key id_bytes)) (\<lambda>result.
           case result of
             Inr value \<Rightarrow>
               (case de_message B value of
                  Inl e \<Rightarrow> throw (Serialization e)
                | Inr msg \<Rightarrow> ret (Some (DeliveryTag (from_be_bytes id_bytes), msg)))
           | Inl TxAbort \<Rightarrow> consume_loop S B queue n
           | Inl (TxStorage e) \<Rightarrow> throw (Storage e)))"

definition consume_rounds :: nat where
  "consume_rounds = 2"

definition consume ::
    "'db sled \<Rightarrow> bincode \<Rightarrow> string \<Rightarrow> ('db, (delivery_tag \<times> message) option) mprog" where
  "consume S B queue =
     bnd (check_declared S queue) (\<lambda>_.
     bnd (q_open_tree S queue) (\<lambda>_.
     bnd (q_open_tree S (inflight_tree_name queue)) (\<lambda>_.
     consume_loop S B queue consume_rounds)))"

definition ack :: "'db sled \<Rightarrow> string \<Rightarrow> delivery_tag \<Rightarrow> ('db, unit) mprog" where
  "ack S queue tag =
     bnd (check_declared S queue) (\<lambda>_.
     bnd (q_open_tree S (inflight_tree_name queue)) (\<lambda>_.
     bnd (q_remove S (inflight_tree_name queue) (to_be_bytes (tag_u64 tag))) (\<lambda>r.
     case r of
       Some value \<Rightarrow>
         modify (\<lambda>m. m\<lparr>current_bytes := sat_sub (current_bytes m) (of_nat (length value))\<rparr>)
     | None \<Rightarrow> throw (InvalidDeliveryTag tag))))"

definition nack_tx ::
    "'db sled \<Rightarrow> bincode \<Rightarrow> string \<Rightarrow> u32 option \<Rightarrow> bytes \<Rightarrow> u64 \<Rightarrow> ('db, tx_error, unit) prog" where
  "nack_tx S B queue max_attempts old_key new_id =
     bnd (db_remove TxStorage S (inflight_tree_name queue) old_key) (\<lambda>r.
     case r of
       None \<Rightarrow> throw TxAbort
     | Some value \<Rightarrow>
         (case de_message B value of
            Inl _ \<Rightarrow> throw TxAbort
          | Inr msg0 \<Rightarrow>
              let msg = msg0\<lparr>delivery_attempts := delivery_attempts msg0 + 1\<rparr> in
              (case ser_message B msg of
                 Inl _ \<Rightarrow> throw TxAbort
               | Inr new_value \<Rightarrow>
                   let new_key = encode_key (priority msg) new_id in
                   if (case max_attempts of
                         None \<Rightarrow> False
                       | Some mx \<Rightarrow> mx > 0 \<and> delivery_attempts msg \<ge> mx)
                   then db_insert TxStorage S (dlq_tree_name queue) new_key new_value
                   else db_insert TxStorage S queue new_key new_value)))"

definition nack :: "'db sled \<Rightarrow> bincode \<Rightarrow> string \<Rightarrow> delivery_tag \<Rightarrow> ('db, unit) mprog" where
  "nack S B queue tag =
     bnd (check_declared S queue) (\<lambda>_.
     bnd (read_policy S B queue) (\<lambda>policy.
     bnd (q_open_tree S queue) (\<lambda>_.
     bnd (q_open_tree S (inflight_tree_name queue)) (\<lambda>_.
     bnd (q_open_tree S (dlq_tree_name queue)) (\<lambda>_.
     bnd (q_generate_id S) (\<lambda>new_id.
     bnd (q_transaction S
            (nack_tx S B queue (max_delivery_attempts policy) (to_be_bytes (tag_u64 tag)) new_id)) (\<lambda>result.
     case result of
       Inr _ \<Rightarrow> ret ()
     | Inl TxAbort \<Rightarrow> throw (InvalidDeliveryTag tag)
     | Inl (TxStorage e) \<Rightarrow> throw (Storage e))))))))"

section \<open>Depths\<close>

definition dead_letter_count :: "'db sled \<Rightarrow> string \<Rightarrow> ('db, nat) mprog" where
  "dead_letter_count S queue =
     bnd (check_declared S queue) (\<lambda>_.
     bnd (q_open_tree S (dlq_tree_name queue)) (\<lambda>_. q_len S (dlq_tree_name queue)))"

definition scheduled_depth :: "'db sled \<Rightarrow> string \<Rightarrow> ('db, nat) mprog" where
  "scheduled_depth S queue =
     bnd (check_declared S queue) (\<lambda>_.
     bnd (q_open_tree S (scheduled_tree_name queue)) (\<lambda>_. q_len S (scheduled_tree_name queue)))"

definition depth :: "'db sled \<Rightarrow> string \<Rightarrow> ('db, nat) mprog" where
  "depth S queue =
     bnd (check_declared S queue) (\<lambda>_.
     bnd (q_open_tree S queue) (\<lambda>_. q_len S queue))"

section \<open>Promoting scheduled messages\<close>

fun collect_due ::
    "i64 \<Rightarrow> (string + bytes \<times> bytes) list \<Rightarrow> ('db, (bytes \<times> bytes) list) mprog" where
  "collect_due now_ms [] = ret []"
| "collect_due now_ms (Inl e # es) = throw (Storage e)"
| "collect_due now_ms (Inr (key, value) # es) =
     (if length key < 8 then panic
      else if i64_less now_ms (from_be_bytes (take 8 key)) then ret []
      else bnd (collect_due now_ms es) (\<lambda>rest. ret ((key, value) # rest)))"

definition promote_tx :: "'db sled \<Rightarrow> string \<Rightarrow> bytes \<Rightarrow> bytes \<Rightarrow> bytes \<Rightarrow> ('db, tx_error, unit) prog" where
  "promote_tx S queue scheduled_key main_key value =
     bnd (db_remove TxStorage S (scheduled_tree_name queue) scheduled_key) (\<lambda>_.
     db_insert TxStorage S queue main_key value)"

fun promote_loop ::
    "'db sled \<Rightarrow> bincode \<Rightarrow> string \<Rightarrow> nat \<Rightarrow> (bytes \<times> bytes) list \<Rightarrow> ('db, nat) mprog" where
  "promote_loop S B queue promoted [] = ret promoted"
| "promote_loop S B queue promoted ((scheduled_key, value) # rest) =
     (case de_message B value of
        Inl e \<Rightarrow> throw (Serialization e)
      | Inr msg \<Rightarrow>
          bnd (q_generate_id S) (\<lambda>new_id.
          bnd (q_transaction S
                 (promote_tx S queue scheduled_key (encode_key (priority msg) new_id) value)) (\<lambda>result.
          case result of
            Inr _ \<Rightarrow> promote_loop S B queue (Suc promoted) rest
          | Inl TxAbort \<Rightarrow> promote_loop S B queue promoted rest
          | Inl (TxStorage e) \<Rightarrow> throw (Storage e))))"

definition promote_scheduled :: "'db sled \<Rightarrow> bincode \<Rightarrow> i64 \<Rightarrow> string \<Rightarrow> ('db, nat) mprog" where
  "promote_scheduled S B now_ms queue =
     bnd (check_declared S queue) (\<lambda>_.
     bnd (q_open_tree S (scheduled_tree_name queue)) (\<lambda>_.
     bnd (q_open_tree S queue) (\<lambda>_.
     bnd (q_iter S (scheduled_tree_name queue)) (\<lambda>es.
     bnd (collect_due now_ms es) (\<lambda>to_promote.
     promote_loop S B queue 0 to_promote)))))"

section \<open>Retention\<close>

fun expired_keys ::
    "bincode \<Rightarrow> i64 \<Rightarrow> i64 \<Rightarrow> (string + bytes \<times> bytes) list \<Rightarrow> ('db, bytes list) mprog" where
  "expired_keys B now_ms max_age_ms [] = ret []"
| "expired_keys B now_ms max_age_ms (Inl e # es) = throw (Storage e)"
| "expired_keys B now_ms max_age_ms (Inr (key, value) # es) =
     (case de_message B value of
        Inl e \<Rightarrow> throw (Serialization e)
      | Inr msg \<Rightarrow>
          bnd (expired_keys B now_ms max_age_ms es) (\<lambda>rest.
          ret (if \<not> i64_less (now_ms - timestamp msg) max_age_ms then key # rest else rest)))"

fun excess_keys :: "nat \<Rightarrow> (string + bytes \<times> bytes) list \<Rightarrow> ('db, bytes list) mprog" where
  "excess_keys excess [] = ret []"
| "excess_keys 0 es = ret []"
| "excess_keys (Suc excess) (Inl e # es) = throw (Storage e)"
| "excess_keys (Suc excess) (Inr (key, _) # es) =
     bnd (excess_keys excess es) (\<lambda>rest. ret (key # rest))"

definition remove_keys :: "'db sled \<Rightarrow> string \<Rightarrow> bytes list \<Rightarrow> ('db, unit) mprog" where
  "remove_keys S queue ks = for_each (\<lambda>key. bnd (q_remove S queue key) (\<lambda>_. ret ())) ks"

definition retain_age ::
    "'db sled \<Rightarrow> bincode \<Rightarrow> i64 \<Rightarrow> string \<Rightarrow> u64 option \<Rightarrow> ('db, nat) mprog" where
  "retain_age S B now_ms queue age =
     (case age of
        None \<Rightarrow> ret 0
      | Some secs \<Rightarrow>
          bnd (q_iter S queue) (\<lambda>es.
          bnd (expired_keys B now_ms (secs * 1000) es) (\<lambda>to_remove.
          bnd (remove_keys S queue to_remove) (\<lambda>_.
          ret (length to_remove)))))"

definition retain_count :: "'db sled \<Rightarrow> string \<Rightarrow> u64 option \<Rightarrow> ('db, nat) mprog" where
  "retain_count S queue msgs =
     (case msgs of
        None \<Rightarrow> ret 0
      | Some max_msgs \<Rightarrow>
          bnd (q_len S queue) (\<lambda>current.
          if current > unat max_msgs then
            bnd (q_iter S queue) (\<lambda>es.
            bnd (excess_keys (current - unat max_msgs) es) (\<lambda>to_remove.
            bnd (remove_keys S queue to_remove) (\<lambda>_.
            ret (length to_remove))))
          else ret 0))"

definition apply_retention :: "'db sled \<Rightarrow> bincode \<Rightarrow> i64 \<Rightarrow> string \<Rightarrow> ('db, nat) mprog" where
  "apply_retention S B now_ms queue =
     bnd (check_declared S queue) (\<lambda>_.
     bnd (read_policy S B queue) (\<lambda>policy.
     if max_age_secs policy = None \<and> max_messages policy = None then ret 0
     else
       bnd (q_open_tree S queue) (\<lambda>_.
       bnd (retain_age S B now_ms queue (max_age_secs policy)) (\<lambda>aged.
       bnd (retain_count S queue (max_messages policy)) (\<lambda>over.
       if aged + over > 0 then
         bnd (recalculate_bytes S) (\<lambda>tot.
         bnd (modify (\<lambda>m. m\<lparr>current_bytes := tot\<rparr>)) (\<lambda>_.
         ret (aged + over)))
       else ret (aged + over))))))"

end
