(* ===== verification/Queue_Invariant.thy ===== *)
theory Queue_Invariant
  imports Queue_Manager
begin

text \<open>
  The representation invariant of the queue store and its preservation by every operation of
  \<^verbatim>\<open>QueueManager\<close>, on every outcome: success, error return and I/O failure at any point.

  \<^verbatim>\<open>wf_store\<close> says that every stored value is the encoding of a message; that keys are the encodings the code writes (a
  priority byte and an identifier in the main and dead-letter trees, the delivery tag in the
  in-flight tree, the delivery time and an identifier in the scheduled tree); that identifiers
  were given out by the database; that no identifier of the main tree is in use as a delivery
  tag; and that the trees of undeclared queues are empty.
\<close>

section \<open>The invariant\<close>

definition plain_name :: "string \<Rightarrow> bool" where
  "plain_name q \<longleftrightarrow>
     \<not> prefix ''inflight:'' q \<and> \<not> prefix ''dlq:'' q \<and> \<not> prefix ''scheduled:'' q \<and>
     \<not> prefix ''dedup:'' q \<and> q \<noteq> META_QUEUES_TREE \<and> q \<noteq> META_RETENTION_TREE"

type_synonym contents = "bytes \<Rightarrow> otree"

definition declared :: "contents \<Rightarrow> string set" where
  "declared V = set (keys (V META_QUEUES_TREE))"

definition key_id :: "bytes \<Rightarrow> u64" where
  "key_id k = from_be_bytes (drop 1 k)"

definition main_entry :: "bincode \<Rightarrow> nat \<Rightarrow> bytes \<times> bytes \<Rightarrow> bool" where
  "main_entry B n kv =
     (case de_message B (snd kv) of
        Inl _ \<Rightarrow> False
      | Inr m \<Rightarrow> ser_message B m = Inr (snd kv) \<and>
                 fst kv = encode_key (priority m) (key_id (fst kv)) \<and> unat (key_id (fst kv)) < n)"

definition inflight_entry :: "bincode \<Rightarrow> nat \<Rightarrow> bytes \<times> bytes \<Rightarrow> bool" where
  "inflight_entry B n kv =
     (case de_message B (snd kv) of
        Inl _ \<Rightarrow> False
      | Inr m \<Rightarrow> ser_message B m = Inr (snd kv) \<and>
                 fst kv = to_be_bytes (from_be_bytes (fst kv) :: u64) \<and>
                 unat (from_be_bytes (fst kv) :: u64) < n)"

definition scheduled_entry :: "bincode \<Rightarrow> nat \<Rightarrow> bytes \<times> bytes \<Rightarrow> bool" where
  "scheduled_entry B n kv =
     (case de_message B (snd kv) of
        Inl _ \<Rightarrow> False
      | Inr m \<Rightarrow>
          (case deliver_at m of
             None \<Rightarrow> False
           | Some at \<Rightarrow> ser_message B m = Inr (snd kv) \<and> 0 \<le> sint at \<and>
               fst kv = encode_scheduled_key at (from_be_bytes (drop 8 (fst kv))) \<and>
               unat (from_be_bytes (drop 8 (fst kv)) :: u64) < n))"

definition dedup_entry :: "bytes \<times> bytes \<Rightarrow> bool" where
  "dedup_entry kv = (length (snd kv) = 8)"

definition wf_lists :: "bincode \<Rightarrow> nat \<Rightarrow> otree \<Rightarrow> otree \<Rightarrow> otree \<Rightarrow> otree \<Rightarrow> otree \<Rightarrow> bool" where
  "wf_lists B n main infl dlq sched dedup \<longleftrightarrow>
     (\<forall>kv \<in> set main. main_entry B n kv) \<and>
     (\<forall>kv \<in> set infl. inflight_entry B n kv) \<and>
     (\<forall>kv \<in> set dlq. main_entry B n kv) \<and>
     (\<forall>kv \<in> set sched. scheduled_entry B n kv) \<and>
     (\<forall>kv \<in> set dedup. dedup_entry kv) \<and>
     inj_on key_id (set (keys main)) \<and>
     key_id ` set (keys main) \<inter> from_be_bytes ` set (keys infl) = {}"

definition wf_queue :: "bincode \<Rightarrow> contents \<Rightarrow> nat \<Rightarrow> string \<Rightarrow> bool" where
  "wf_queue B V n q =
     wf_lists B n (V q) (V (inflight_tree_name q)) (V (dlq_tree_name q))
       (V (scheduled_tree_name q)) (V (dedup_tree_name q))"

definition trees :: "string \<Rightarrow> bytes set" where
  "trees q = {q, inflight_tree_name q, dlq_tree_name q, scheduled_tree_name q, dedup_tree_name q}"

definition wf_store :: "bincode \<Rightarrow> contents \<Rightarrow> nat \<Rightarrow> bool" where
  "wf_store B V n \<longleftrightarrow>
     (\<forall>q \<in> declared V. plain_name q \<and> utf8_ok q \<and> wf_queue B V n q) \<and>
     (\<forall>q. plain_name q \<longrightarrow> q \<notin> declared V \<longrightarrow> (\<forall>t \<in> trees q. V t = []))"

definition wf_manager :: "bincode \<Rightarrow> ('db \<Rightarrow> contents) \<Rightarrow> ('db \<Rightarrow> nat) \<Rightarrow> 'db manager \<Rightarrow> bool" where
  "wf_manager B view nxt m = wf_store B (view (mgr_db m)) (nxt (mgr_db m))"

section \<open>Names and keys\<close>

lemma tree_name_simps [simp]:
  "inflight_tree_name a = inflight_tree_name b \<longleftrightarrow> a = b"
  "dlq_tree_name a = dlq_tree_name b \<longleftrightarrow> a = b"
  "scheduled_tree_name a = scheduled_tree_name b \<longleftrightarrow> a = b"
  "dedup_tree_name a = dedup_tree_name b \<longleftrightarrow> a = b"
  "inflight_tree_name a \<noteq> dlq_tree_name b" "dlq_tree_name b \<noteq> inflight_tree_name a"
  "inflight_tree_name a \<noteq> scheduled_tree_name b" "scheduled_tree_name b \<noteq> inflight_tree_name a"
  "inflight_tree_name a \<noteq> dedup_tree_name b" "dedup_tree_name b \<noteq> inflight_tree_name a"
  "dlq_tree_name a \<noteq> scheduled_tree_name b" "scheduled_tree_name b \<noteq> dlq_tree_name a"
  "dlq_tree_name a \<noteq> dedup_tree_name b" "dedup_tree_name b \<noteq> dlq_tree_name a"
  "scheduled_tree_name a \<noteq> dedup_tree_name b" "dedup_tree_name b \<noteq> scheduled_tree_name a"
  by (simp_all add: inflight_tree_name_def dlq_tree_name_def scheduled_tree_name_def dedup_tree_name_def)

lemma meta_name_simps [simp]:
  "META_QUEUES_TREE \<noteq> META_RETENTION_TREE" "META_RETENTION_TREE \<noteq> META_QUEUES_TREE"
  "inflight_tree_name a \<noteq> META_QUEUES_TREE" "META_QUEUES_TREE \<noteq> inflight_tree_name a"
  "dlq_tree_name a \<noteq> META_QUEUES_TREE" "META_QUEUES_TREE \<noteq> dlq_tree_name a"
  "scheduled_tree_name a \<noteq> META_QUEUES_TREE" "META_QUEUES_TREE \<noteq> scheduled_tree_name a"
  "dedup_tree_name a \<noteq> META_QUEUES_TREE" "META_QUEUES_TREE \<noteq> dedup_tree_name a"
  "inflight_tree_name a \<noteq> META_RETENTION_TREE" "META_RETENTION_TREE \<noteq> inflight_tree_name a"
  "dlq_tree_name a \<noteq> META_RETENTION_TREE" "META_RETENTION_TREE \<noteq> dlq_tree_name a"
  "scheduled_tree_name a \<noteq> META_RETENTION_TREE" "META_RETENTION_TREE \<noteq> scheduled_tree_name a"
  "dedup_tree_name a \<noteq> META_RETENTION_TREE" "META_RETENTION_TREE \<noteq> dedup_tree_name a"
  by (simp_all add: inflight_tree_name_def dlq_tree_name_def scheduled_tree_name_def
      dedup_tree_name_def META_QUEUES_TREE_def META_RETENTION_TREE_def)

lemma tree_name_not_plain [simp]:
  "\<not> plain_name (inflight_tree_name q)" "\<not> plain_name (dlq_tree_name q)"
  "\<not> plain_name (scheduled_tree_name q)" "\<not> plain_name (dedup_tree_name q)"
  by (simp_all add: plain_name_def inflight_tree_name_def dlq_tree_name_def scheduled_tree_name_def
      dedup_tree_name_def)

lemma plain_name_simps [simp]:
  assumes "plain_name q"
  shows "q \<noteq> META_QUEUES_TREE" "META_QUEUES_TREE \<noteq> q"
    "q \<noteq> META_RETENTION_TREE" "META_RETENTION_TREE \<noteq> q"
    "q \<noteq> inflight_tree_name a" "inflight_tree_name a \<noteq> q"
    "q \<noteq> dlq_tree_name a" "dlq_tree_name a \<noteq> q"
    "q \<noteq> scheduled_tree_name a" "scheduled_tree_name a \<noteq> q"
    "q \<noteq> dedup_tree_name a" "dedup_tree_name a \<noteq> q"
  using assms
  by (auto simp: plain_name_def inflight_tree_name_def dlq_tree_name_def scheduled_tree_name_def
      dedup_tree_name_def)

lemma trees_disjoint:
  "plain_name q \<Longrightarrow> plain_name q' \<Longrightarrow> q \<noteq> q' \<Longrightarrow> t \<in> trees q \<Longrightarrow> t \<notin> trees q'"
  by (auto simp: trees_def)

lemma trees_meta [simp]:
  "plain_name q \<Longrightarrow> META_QUEUES_TREE \<notin> trees q" "plain_name q \<Longrightarrow> META_RETENTION_TREE \<notin> trees q"
  by (auto simp: trees_def)

lemma length_encode_key [simp]: "length (encode_key p i) = 9"
  by (simp add: encode_key_def)

lemma length_encode_scheduled_key [simp]: "length (encode_scheduled_key a i) = 16"
  by (simp add: encode_scheduled_key_def)

lemma key_id_encode_key [simp]: "key_id (encode_key p i) = i"
  by (simp add: key_id_def encode_key_def)

lemma tl_encode_key [simp]: "take 8 (drop (Suc 0) (encode_key p i)) = to_be_bytes i"
  by (simp add: encode_key_def)

lemma scheduled_key_parts [simp]:
  "take 8 (encode_scheduled_key a i) = to_be_bytes a"
  "drop 8 (encode_scheduled_key a i) = to_be_bytes i"
  by (simp_all add: encode_scheduled_key_def)

lemma main_entryE:
  assumes "main_entry B n (k, v)"
  obtains i m where "de_message B v = Inr m" "ser_message B m = Inr v" "k = encode_key (priority m) i" "unat i < n"
  using assms by (auto simp: main_entry_def split: sum.splits)

lemma inflight_entryE:
  assumes "inflight_entry B n (k, v)"
  obtains i m where "de_message B v = Inr m" "ser_message B m = Inr v" "k = to_be_bytes (i :: u64)" "unat i < n"
  using assms by (auto simp: inflight_entry_def split: sum.splits)

lemma scheduled_entryE:
  assumes "scheduled_entry B n (k, v)"
  obtains i m a where "de_message B v = Inr m" "ser_message B m = Inr v" "deliver_at m = Some a" "0 \<le> sint a"
    "k = encode_scheduled_key a i" "unat i < n"
  using assms by (auto simp: scheduled_entry_def split: sum.splits option.splits)

lemma main_entryI: "de_message B v = Inr m \<Longrightarrow> ser_message B m = Inr v \<Longrightarrow> unat i < n \<Longrightarrow> main_entry B n (encode_key (priority m) i, v)"
  by (simp add: main_entry_def)

lemma inflight_entryI: "de_message B v = Inr m \<Longrightarrow> ser_message B m = Inr v \<Longrightarrow> unat i < n \<Longrightarrow> inflight_entry B n (to_be_bytes (i :: u64), v)"
  by (simp add: inflight_entry_def)

lemma scheduled_entryI:
  "de_message B v = Inr m \<Longrightarrow> ser_message B m = Inr v \<Longrightarrow> deliver_at m = Some a \<Longrightarrow> 0 \<le> sint a \<Longrightarrow> unat i < n \<Longrightarrow>
     scheduled_entry B n (encode_scheduled_key a i, v)"
  by (simp add: scheduled_entry_def)

lemma entry_mono:
  "main_entry B n kv \<Longrightarrow> n \<le> n' \<Longrightarrow> main_entry B n' kv"
  "inflight_entry B n kv \<Longrightarrow> n \<le> n' \<Longrightarrow> inflight_entry B n' kv"
  "scheduled_entry B n kv \<Longrightarrow> n \<le> n' \<Longrightarrow> scheduled_entry B n' kv"
  by (auto simp: main_entry_def inflight_entry_def scheduled_entry_def split: sum.splits option.splits)

section \<open>One queue: list-level preservation\<close>

lemma wf_lists_mono: "wf_lists B n main infl dlq sched dedup \<Longrightarrow> n \<le> n' \<Longrightarrow> wf_lists B n' main infl dlq sched dedup"
  unfolding wf_lists_def by (meson entry_mono)

lemma wf_lists_Nil [simp]: "wf_lists B n [] [] [] [] []"
  by (simp add: wf_lists_def)

lemma fresh_main_key:
  assumes "\<forall>kv \<in> set xs. main_entry B n kv" "n \<le> unat i"
  shows "encode_key p i \<notin> set (keys xs)"
proof
  assume "encode_key p i \<in> set (keys xs)"
  then obtain v where "(encode_key p i, v) \<in> set xs" by auto
  with assms have "main_entry B n (encode_key p i, v)" by blast
  then obtain j and m :: message where "encode_key p i = encode_key (priority m) j" "unat j < n"
    by (blast elim: main_entryE)
  then show False using assms(2) by (metis key_id_encode_key not_le)
qed

lemma fresh_scheduled_key:
  assumes "\<forall>kv \<in> set xs. scheduled_entry B n kv" "n \<le> unat i"
  shows "encode_scheduled_key a i \<notin> set (keys xs)"
proof
  assume "encode_scheduled_key a i \<in> set (keys xs)"
  then obtain v where "(encode_scheduled_key a i, v) \<in> set xs" by auto
  with assms have "scheduled_entry B n (encode_scheduled_key a i, v)" by blast
  then obtain j b where "encode_scheduled_key a i = encode_scheduled_key b j" "unat j < n"
    by (blast elim: scheduled_entryE)
  then show False using assms(2) by (metis scheduled_key_parts(2) to_be_bytes_64(3) not_le)
qed

lemma in_ot_insert: "p \<in> set (ot_insert k v xs) \<Longrightarrow> p = (k, v) \<or> p \<in> set xs"
  using set_ot_insert_subset [of k v xs] by auto

lemma main_ids_less:
  assumes "\<forall>kv \<in> set xs. main_entry B n kv" "j \<in> key_id ` set (keys xs)"
  shows "unat j < n"
proof -
  from assms(2) obtain k v where "(k, v) \<in> set xs" "j = key_id k" by auto
  with assms(1) show ?thesis by (fastforce elim: main_entryE)
qed

lemma inflight_ids_less:
  assumes "\<forall>kv \<in> set xs. inflight_entry B n kv" "j \<in> from_be_bytes ` set (keys xs)"
  shows "unat (j :: u64) < n"
proof -
  from assms(2) obtain k v where "(k, v) \<in> set xs" "j = from_be_bytes k" by auto
  with assms(1) show ?thesis by (fastforce elim: inflight_entryE)
qed

lemma wf_lists_main_insert:
  assumes wf: "wf_lists B n main infl dlq sched dedup" and i: "unat i = n" "n < n'"
    and m: "de_message B v = Inr m" "ser_message B m = Inr v"
  shows "wf_lists B n' (ot_insert (encode_key (priority m) i) v main) infl dlq sched dedup"
proof -
  have wf': "wf_lists B n' main infl dlq sched dedup"
    using wf i by (auto intro: wf_lists_mono)
  have notin: "i \<notin> key_id ` set (keys main)" "i \<notin> from_be_bytes ` set (keys infl)"
    using main_ids_less [of main B n i] inflight_ids_less [of infl B n i] wf i(1)
    by (metis wf_lists_def order_less_irrefl)+
  have entries: "\<forall>kv \<in> set (ot_insert (encode_key (priority m) i) v main). main_entry B n' kv"
    using wf' i m by (auto simp: wf_lists_def intro: main_entryI dest!: in_ot_insert)
  have inj: "inj_on key_id (set (keys (ot_insert (encode_key (priority m) i) v main)))"
    using wf' notin unfolding wf_lists_def by (auto simp del: set_map)
  show ?thesis
    using wf' notin entries inj unfolding wf_lists_def by (simp del: set_map)
qed

lemma wf_lists_consume:
  assumes wf: "wf_lists B n main infl dlq sched dedup" and k: "map_of main k = Some v"
  shows "wf_lists B n (ot_remove k main) (ot_insert (take 8 (drop 1 k)) v infl) dlq sched dedup"
proof -
  from k have kv: "(k, v) \<in> set main" by (rule map_of_SomeD)
  with wf have "main_entry B n (k, v)" by (auto simp: wf_lists_def)
  then obtain i m where e: "de_message B v = Inr m" "k = encode_key (priority m) i" "unat i < n" "ser_message B m = Inr v"
    by (rule main_entryE)
  let ?A = "set (keys main)"
  have inA: "k \<in> ?A" using kv by force
  have inj: "inj_on key_id ?A" using wf by (simp add: wf_lists_def)
  have "key_id ` (?A - {k}) = key_id ` ?A - {i}"
    using inj_on_image_set_diff [OF inj, of ?A "{k}"] inA e(2) by simp
  moreover have "key_id ` ?A \<inter> from_be_bytes ` set (keys infl) = {}"
    using wf unfolding wf_lists_def by blast
  ultimately have disj: "key_id ` (?A - {k}) \<inter> insert i (from_be_bytes ` set (keys infl)) = {}"
    by blast
  have infl: "\<forall>kv \<in> set (ot_insert (take 8 (drop 1 k)) v infl). inflight_entry B n kv"
    using wf e by (auto simp: wf_lists_def intro: inflight_entryI dest!: in_ot_insert)
  have main: "\<forall>kv \<in> set (ot_remove k main). main_entry B n kv"
    using wf by (auto simp: wf_lists_def set_ot_remove)
  have "inj_on key_id (?A - {k})" using inj by (rule inj_on_subset) blast
  then show ?thesis
    using wf e(2) infl main disj unfolding wf_lists_def by (simp del: set_map)
qed

lemma wf_lists_remove:
  assumes "wf_lists B n main infl dlq sched dedup"
  shows "wf_lists B n (ot_remove k main) infl dlq sched dedup"
    and "wf_lists B n main (ot_remove k infl) dlq sched dedup"
    and "wf_lists B n main infl dlq (ot_remove k sched) dedup"
proof -
  have "inj_on key_id (set (keys main) - {k})"
    using assms unfolding wf_lists_def by (meson Diff_subset inj_on_subset)
  moreover have "key_id ` (set (keys main) - {k}) \<inter> from_be_bytes ` set (keys infl) = {}"
    "key_id ` set (keys main) \<inter> from_be_bytes ` (set (keys infl) - {k}) = {}"
    using assms unfolding wf_lists_def by blast+
  ultimately show "wf_lists B n (ot_remove k main) infl dlq sched dedup"
    and "wf_lists B n main (ot_remove k infl) dlq sched dedup"
    and "wf_lists B n main infl dlq (ot_remove k sched) dedup"
    using assms unfolding wf_lists_def by (simp_all add: set_ot_remove del: set_map)
qed

lemma wf_lists_dlq_insert:
  assumes "wf_lists B n main infl dlq sched dedup" "unat i < n" "de_message B v = Inr m" "ser_message B m = Inr v"
  shows "wf_lists B n main infl (ot_insert (encode_key (priority m) i) v dlq) sched dedup"
  using assms by (auto simp: wf_lists_def intro: main_entryI dest!: in_ot_insert)

lemma wf_lists_scheduled_insert:
  assumes "wf_lists B n main infl dlq sched dedup" "unat i < n" "de_message B v = Inr m" "ser_message B m = Inr v"
    "deliver_at m = Some a" "0 \<le> sint a"
  shows "wf_lists B n main infl dlq (ot_insert (encode_scheduled_key a i) v sched) dedup"
  using assms by (auto simp: wf_lists_def intro: scheduled_entryI dest!: in_ot_insert)

lemma wf_lists_dedup_insert:
  assumes "wf_lists B n main infl dlq sched dedup" "length v = 8"
  shows "wf_lists B n main infl dlq sched (ot_insert k v dedup)"
  using assms by (auto simp: wf_lists_def dedup_entry_def dest!: in_ot_insert)

section \<open>The whole store\<close>

lemma wf_queue_frame:
  "(\<And>t. t \<in> trees q \<Longrightarrow> V' t = V t) \<Longrightarrow> wf_queue B V' n q = wf_queue B V n q"
  by (simp add: wf_queue_def trees_def)

lemma wf_declaredD: "wf_store B V n \<Longrightarrow> q \<in> declared V \<Longrightarrow> plain_name q \<and> utf8_ok q \<and> wf_queue B V n q"
  by (simp add: wf_store_def)

lemma wf_update:
  assumes wf: "wf_store B V n" and q: "q \<in> declared V" and n: "n \<le> n'"
    and frame: "\<And>t. t \<notin> trees q \<Longrightarrow> t \<noteq> META_RETENTION_TREE \<Longrightarrow> V' t = V t"
    and wfq: "wf_queue B V' n' q"
  shows "wf_store B V' n'"
proof -
  have pq: "plain_name q" using wf q by (simp add: wf_store_def)
  have decl: "declared V' = declared V"
    using frame [of META_QUEUES_TREE] pq by (simp add: declared_def)
  have other: "V' t = V t" if "plain_name p" "p \<noteq> q" "t \<in> trees p" for p t
    using frame trees_disjoint [OF that(1) pq that(2,3)] that by (metis trees_meta(2))
  show ?thesis
    unfolding wf_store_def
  proof (intro conjI ballI allI impI)
    fix p assume "p \<in> declared V'"
    then have p: "plain_name p" "utf8_ok p" "wf_queue B V n p"
      using wf decl by (simp_all add: wf_store_def)
    show "plain_name p" "utf8_ok p" using p by simp_all
    show "wf_queue B V' n' p"
    proof (cases "p = q")
      case False
      have "wf_queue B V' n p" using p(3) wf_queue_frame [of p V' V] other [OF p(1) False] by simp
      then show ?thesis using n by (auto simp: wf_queue_def intro: wf_lists_mono)
    qed (simp add: wfq)
  next
    fix p t assume "plain_name p" "p \<notin> declared V'" "t \<in> trees p"
    then show "V' t = []" using wf decl q other by (metis wf_store_def)
  qed
qed

lemma wf_mono: "wf_store B V n \<Longrightarrow> n \<le> n' \<Longrightarrow> wf_store B V n'"
  by (auto simp: wf_store_def wf_queue_def intro: wf_lists_mono)

end
