(* ===== verification/Queue_Spec.thy ===== *)
theory Queue_Spec
  imports Queue_Invariant
begin

text \<open>
  What each operation of \<^verbatim>\<open>QueueManager\<close> promises, stated over the abstract state of the
  store (\<^verbatim>\<open>qstate\<close>: the contents of the trees, the next identifier and the byte budget), and the
  proof that the programs of \<^verbatim>\<open>Queue_Manager\<close> implement it on every database that keeps the
  contract of \<^verbatim>\<open>sled_store\<close>.

  A specification relates the state before, the outcome and the state after.  It covers every
  outcome: each error constructor has the exact condition under which it is returned and the
  state it leaves; an outcome that is not listed does not occur.  \<open>f\<close> says whether the database
  may fail.
\<close>

section \<open>Abstract states\<close>

record qstate =
  cont :: contents
  next_id :: nat
  used :: u64
  budget :: "u64 option"

definition abs_state :: "('db \<Rightarrow> contents) \<Rightarrow> ('db \<Rightarrow> nat) \<Rightarrow> 'db manager \<Rightarrow> qstate" where
  "abs_state view nxt m =
     \<lparr>cont = view (mgr_db m), next_id = nxt (mgr_db m), used = current_bytes m, budget = max_bytes m\<rparr>"

text \<open>Taking one identifier: \<open>n\<close> is given out and \<open>n'\<close> is the next one.\<close>

definition took_id :: "bool \<Rightarrow> nat \<Rightarrow> nat \<Rightarrow> bool" where
  "took_id f n n' \<longleftrightarrow> n < 2 ^ 64 \<and> n < n' \<and> (\<not> f \<longrightarrow> n' = Suc n)"

definition policy_in :: "bincode \<Rightarrow> contents \<Rightarrow> string \<Rightarrow> retention_policy" where
  "policy_in B V q = policy_of B (map_of (V META_RETENTION_TREE) q)"

section \<open>Specifications\<close>

definition ack_spec ::
    "bool \<Rightarrow> string \<Rightarrow> delivery_tag \<Rightarrow> qstate \<Rightarrow> (pelican_error, unit) outcome \<Rightarrow> qstate \<Rightarrow> bool" where
  "ack_spec f q tag s r s' =
     (let t = inflight_tree_name q; k = to_be_bytes (tag_u64 tag) in
      case r of
        Ok _ \<Rightarrow> q \<in> declared (cont s) \<and>
          (\<exists>v. map_of (cont s t) k = Some v \<and>
             s' = s\<lparr>cont := (cont s)(t := ot_remove k (cont s t)),
                    used := sat_sub (used s) (of_nat (length v))\<rparr>)
      | Err (InvalidDeliveryTag x) \<Rightarrow>
          x = tag \<and> q \<in> declared (cont s) \<and> map_of (cont s t) k = None \<and> s' = s
      | Err (QueueNotFound x) \<Rightarrow> x = q \<and> q \<notin> declared (cont s) \<and> s' = s
      | Err (Storage _) \<Rightarrow> f \<and> s' = s
      | _ \<Rightarrow> False)"

text \<open>The duplicate check, the delayed delivery and the insertion of a publish.\<close>

definition dedup_recorded :: "contents \<Rightarrow> string \<Rightarrow> retention_policy \<Rightarrow> message \<Rightarrow> (u64 \<times> bytes) option" where
  "dedup_recorded V q policy msg =
     (case (dedup_window_secs policy, dedup_key msg) of
        (Some w, Some k) \<Rightarrow>
          if w > 0 then map_option (Pair w) (map_of (V (dedup_tree_name q)) k) else None
      | _ \<Rightarrow> None)"

definition dedup_hit :: "contents \<Rightarrow> string \<Rightarrow> retention_policy \<Rightarrow> message \<Rightarrow> i64 \<Rightarrow> bool" where
  "dedup_hit V q policy msg now =
     (case dedup_recorded V q policy msg of
        None \<Rightarrow> False
      | Some (w, b) \<Rightarrow> i64_less (now - w * 1000) (from_be_bytes (take 8 b)))"

definition dedup_store :: "contents \<Rightarrow> string \<Rightarrow> retention_policy \<Rightarrow> message \<Rightarrow> i64 \<Rightarrow> contents" where
  "dedup_store V q policy msg now =
     (case (dedup_window_secs policy, dedup_key msg) of
        (Some _, Some k) \<Rightarrow>
          V(dedup_tree_name q := ot_insert k (to_be_bytes now) (V (dedup_tree_name q)))
      | _ \<Rightarrow> V)"

definition due_later :: "message \<Rightarrow> i64 \<Rightarrow> i64 option" where
  "due_later msg now = (case deliver_at msg of
       None \<Rightarrow> None | Some at \<Rightarrow> if i64_less now at then Some at else None)"

definition enqueue :: "contents \<Rightarrow> string \<Rightarrow> message \<Rightarrow> i64 \<Rightarrow> u64 \<Rightarrow> bytes \<Rightarrow> contents" where
  "enqueue V q msg now i b =
     (case due_later msg now of
        Some at \<Rightarrow>
          V(scheduled_tree_name q := ot_insert (encode_scheduled_key at i) b (V (scheduled_tree_name q)))
      | None \<Rightarrow> V(q := ot_insert (encode_key (priority msg) i) b (V q)))"

definition publish_spec ::
    "bool \<Rightarrow> bincode \<Rightarrow> (nat \<Rightarrow> i64) \<Rightarrow> string \<Rightarrow> message \<Rightarrow>
       qstate \<Rightarrow> (pelican_error, publish_outcome) outcome \<Rightarrow> qstate \<Rightarrow> bool" where
  "publish_spec f B clk q msg s r s' =
     (let P = policy_in B (cont s) q;
          hit = dedup_hit (cont s) q P msg (clk 0);
          b = projr (ser_message B msg);
          len = of_nat (length b);
          V1 = enqueue (cont s) q msg (clk 1) (of_nat (next_id s)) b
      in case r of
        Ok Deduplicated \<Rightarrow> q \<in> declared (cont s) \<and> hit \<and> s' = s
      | Ok (Stored i) \<Rightarrow> q \<in> declared (cont s) \<and> \<not> hit \<and> i = msg_id msg \<and>
          storage_limit (budget s) (used s) len = None \<and>
          (\<exists>n'. took_id f (next_id s) n' \<and>
             s' = s\<lparr>cont := dedup_store V1 q P msg (clk 2), next_id := n', used := used s + len\<rparr>)
      | Err (StorageLimitExceeded p lim') \<Rightarrow> q \<in> declared (cont s) \<and> \<not> hit \<and>
          storage_limit (budget s) (used s) len = Some (StorageLimitExceeded p lim') \<and> s' = s
      | Err (QueueNotFound x) \<Rightarrow> x = q \<and> q \<notin> declared (cont s) \<and> s' = s
      | Err (Storage _) \<Rightarrow>
          (f \<or> 2 ^ 64 \<le> next_id s) \<and> s' = s \<or>
          f \<and> (\<exists>n'. took_id f (next_id s) n' \<and> s' = s\<lparr>next_id := n'\<rparr>) \<or>
          f \<and> q \<in> declared (cont s) \<and> \<not> hit \<and> storage_limit (budget s) (used s) len = None \<and>
            (\<exists>n'. took_id f (next_id s) n' \<and> s' = s\<lparr>cont := V1, next_id := n', used := used s + len\<rparr>)
      | Panic \<Rightarrow> q \<in> declared (cont s) \<and> s' = s \<and>
          (\<exists>w b. dedup_recorded (cont s) q P msg = Some (w, b) \<and> length b < 8)
      | _ \<Rightarrow> False)"

definition took_head :: "contents \<Rightarrow> string \<Rightarrow> bytes \<Rightarrow> bytes \<Rightarrow> contents" where
  "took_head V q k v =
     V(q := ot_remove k (V q),
       inflight_tree_name q := ot_insert (take 8 (drop 1 k)) v (V (inflight_tree_name q)))"

definition consume_spec ::
    "bool \<Rightarrow> bincode \<Rightarrow> string \<Rightarrow>
       qstate \<Rightarrow> (pelican_error, (delivery_tag \<times> message) option) outcome \<Rightarrow> qstate \<Rightarrow> bool" where
  "consume_spec f B q s r s' =
     (case r of
        Ok None \<Rightarrow> q \<in> declared (cont s) \<and> (f \<or> cont s q = []) \<and> s' = s
      | Ok (Some (tag, msg)) \<Rightarrow> q \<in> declared (cont s) \<and>
          (\<exists>k v rest. cont s q = (k, v) # rest \<and> de_message B v = Inr msg \<and>
             tag = DeliveryTag (from_be_bytes (take 8 (drop 1 k))) \<and>
             s' = s\<lparr>cont := took_head (cont s) q k v\<rparr>)
      | Err (QueueNotFound x) \<Rightarrow> x = q \<and> q \<notin> declared (cont s) \<and> s' = s
      | Err (Serialization e) \<Rightarrow> q \<in> declared (cont s) \<and>
          (\<exists>k v rest. cont s q = (k, v) # rest \<and> de_message B v = Inl e \<and>
             s' = s\<lparr>cont := took_head (cont s) q k v\<rparr>)
      | Err (Storage _) \<Rightarrow> f \<and> s' = s
      | Panic \<Rightarrow> q \<in> declared (cont s) \<and> s' = s \<and>
          (\<exists>k v rest. cont s q = (k, v) # rest \<and> length k < 9)
      | _ \<Rightarrow> False)"

text \<open>A rejected message goes back with one more attempt, or to the dead-letter tree.\<close>

definition bump :: "message \<Rightarrow> message" where
  "bump msg = msg\<lparr>delivery_attempts := delivery_attempts msg + 1\<rparr>"

definition exhausted :: "retention_policy \<Rightarrow> message \<Rightarrow> bool" where
  "exhausted P msg =
     (case max_delivery_attempts P of None \<Rightarrow> False | Some mx \<Rightarrow> mx > 0 \<and> delivery_attempts msg \<ge> mx)"

definition reject_tree :: "retention_policy \<Rightarrow> string \<Rightarrow> message \<Rightarrow> bytes" where
  "reject_tree P q msg = (if exhausted P msg then dlq_tree_name q else q)"

definition put_back :: "contents \<Rightarrow> string \<Rightarrow> bytes \<Rightarrow> bytes \<Rightarrow> bytes \<Rightarrow> bytes \<Rightarrow> contents" where
  "put_back V q t old k v =
     V(inflight_tree_name q := ot_remove old (V (inflight_tree_name q)), t := ot_insert k v (V t))"

definition nack_spec ::
    "bool \<Rightarrow> bincode \<Rightarrow> string \<Rightarrow> delivery_tag \<Rightarrow>
       qstate \<Rightarrow> (pelican_error, unit) outcome \<Rightarrow> qstate \<Rightarrow> bool" where
  "nack_spec f B q tag s r s' =
     (let old = to_be_bytes (tag_u64 tag);
          found = map_of (cont s (inflight_tree_name q)) old
      in case r of
        Ok _ \<Rightarrow> q \<in> declared (cont s) \<and>
          (\<exists>v msg b n'. took_id f (next_id s) n' \<and> found = Some v \<and> de_message B v = Inr msg \<and> ser_message B (bump msg) = Inr b \<and>
             s' = s\<lparr>cont := put_back (cont s) q (reject_tree (policy_in B (cont s) q) q (bump msg))
                       old (encode_key (priority msg) (of_nat (next_id s))) b,
                    next_id := n'\<rparr>)
      | Err (InvalidDeliveryTag x) \<Rightarrow> x = tag \<and> q \<in> declared (cont s) \<and>
          (\<exists>n'. took_id f (next_id s) n' \<and> s' = s\<lparr>next_id := n'\<rparr>) \<and>
          (case found of None \<Rightarrow> True | Some v \<Rightarrow> isl (de_message B v))
      | Err (QueueNotFound x) \<Rightarrow> x = q \<and> q \<notin> declared (cont s) \<and> s' = s
      | Err (Storage _) \<Rightarrow>
          (f \<or> 2 ^ 64 \<le> next_id s) \<and> s' = s \<or>
          f \<and> (\<exists>n'. took_id f (next_id s) n' \<and> s' = s\<lparr>next_id := n'\<rparr>)
      | _ \<Rightarrow> False)"

definition declare_spec ::
    "bool \<Rightarrow> bincode \<Rightarrow> string \<Rightarrow> retention_policy \<Rightarrow>
       qstate \<Rightarrow> (pelican_error, unit) outcome \<Rightarrow> qstate \<Rightarrow> bool" where
  "declare_spec f B q P s r s' =
     (let V1 = (cont s)(META_QUEUES_TREE := ot_insert q [] (cont s META_QUEUES_TREE)) in
      case r of
        Ok _ \<Rightarrow> q \<notin> declared (cont s) \<and>
          s' = s\<lparr>cont := V1(META_RETENTION_TREE :=
                   ot_insert q (projr (ser_policy B P)) (cont s META_RETENTION_TREE))\<rparr>
      | Err (QueueAlreadyExists x) \<Rightarrow> x = q \<and> q \<in> declared (cont s) \<and> s' = s
      | Err (Storage _) \<Rightarrow> f \<and> (s' = s \<or> q \<notin> declared (cont s) \<and> s' = s\<lparr>cont := V1\<rparr>)
      | _ \<Rightarrow> False)"

definition count_spec ::
    "bool \<Rightarrow> string \<Rightarrow> bytes \<Rightarrow> qstate \<Rightarrow> (pelican_error, nat) outcome \<Rightarrow> qstate \<Rightarrow> bool" where
  "count_spec f q t s r s' =
     (s' = s \<and>
      (case r of
         Ok n \<Rightarrow> q \<in> declared (cont s) \<and> n = length (cont s t)
       | Err (QueueNotFound x) \<Rightarrow> x = q \<and> q \<notin> declared (cont s)
       | Err (Storage _) \<Rightarrow> f
       | _ \<Rightarrow> False))"

section \<open>The programs implement the specifications\<close>

lemma wp_on_db [wp_simps]:
  "wp (on_db c) Q m = wp c (\<lambda>r d. Q r (m\<lparr>mgr_db := d\<rparr>)) (mgr_db m)"
  by (simp add: wp_def on_db_def split: prod.splits)

lemma tree_name_self [simp]:
  "inflight_tree_name q \<noteq> q" "q \<noteq> inflight_tree_name q" "dlq_tree_name q \<noteq> q" "q \<noteq> dlq_tree_name q"
  "scheduled_tree_name q \<noteq> q" "q \<noteq> scheduled_tree_name q" "dedup_tree_name q \<noteq> q" "q \<noteq> dedup_tree_name q"
  by (simp_all add: inflight_tree_name_def dlq_tree_name_def scheduled_tree_name_def dedup_tree_name_def)

lemma first_key_isl [simp]: "isl r \<Longrightarrow> first_key (r # es) = None"
  by (cases r) simp_all

lemma reject_tree_neq [simp]: "reject_tree P q msg \<noteq> inflight_tree_name q" "inflight_tree_name q \<noteq> reject_tree P q msg"
  by (simp_all add: reject_tree_def)

lemma nack_tx_alt:
  "nack_tx S B q (max_delivery_attempts P) old i =
     bnd (db_remove TxStorage S (inflight_tree_name q) old) (\<lambda>r.
     case r of
       None \<Rightarrow> throw TxAbort
     | Some v \<Rightarrow>
         (case de_message B v of
            Inl _ \<Rightarrow> throw TxAbort
          | Inr msg \<Rightarrow>
              (case ser_message B (bump msg) of
                 Inl _ \<Rightarrow> throw TxAbort
               | Inr b \<Rightarrow> db_insert TxStorage S (reject_tree P q (bump msg))
                            (encode_key (priority msg) i) b)))"
  unfolding nack_tx_def Let_def bump_def [symmetric]
  by (auto simp: bump_def reject_tree_def exhausted_def intro!: arg_cong [where f = "bnd _"] split: option.splits sum.splits)

lemma abs_state_simps [simp]:
  "cont (abs_state view nxt m) = view (mgr_db m)" "next_id (abs_state view nxt m) = nxt (mgr_db m)"
  "used (abs_state view nxt m) = current_bytes m" "budget (abs_state view nxt m) = max_bytes m"
  by (simp_all add: abs_state_def)

lemma abs_state_eq:
  "abs_state view nxt m = s \<longleftrightarrow>
     view (mgr_db m) = cont s \<and> nxt (mgr_db m) = next_id s \<and> current_bytes m = used s \<and> max_bytes m = budget s"
  by (auto simp: abs_state_def)

locale engine = sled_store + bincode_codec
begin

abbreviation abs :: "'a manager \<Rightarrow> qstate" where
  "abs m \<equiv> abs_state view nxt m"

lemma abs_db_eq: "view d = view (mgr_db m) \<Longrightarrow> nxt d = nxt (mgr_db m) \<Longrightarrow> abs (m\<lparr>mgr_db := d\<rparr>) = abs m"
  by (simp add: abs_state_def)

lemma wp_check_declared [wp_rules]:
  assumes "\<And>e. faulty \<Longrightarrow> Q (Err (Storage e)) m"
    and "queue \<notin> declared (view (mgr_db m)) \<Longrightarrow> Q (Err (QueueNotFound queue)) m"
    and "queue \<in> declared (view (mgr_db m)) \<Longrightarrow> Q (Ok ()) m"
  shows "wp (check_declared S queue) Q m"
  unfolding check_declared_def using assms
  by (auto simp: wp_simps declared_def intro!: wp_rules)

lemma wp_read_policy [wp_rules]:
  assumes "\<And>e. faulty \<Longrightarrow> Q (Err (Storage e)) m"
    and "Q (Ok (policy_in B (view (mgr_db m)) queue)) m"
  shows "wp (read_policy S B queue) Q m"
  unfolding read_policy_def using assms by (auto simp: wp_simps policy_in_def intro!: wp_rules)

lemma ack_refines: "wp (ack S q tag) (\<lambda>r m'. ack_spec faulty q tag (abs m) r (abs m')) m"
  unfolding ack_def
  by (auto simp: wp_simps ack_spec_def abs_state_def ot_remove_absent map_of_eq_None_iff
      intro!: wp_rules split: option.splits)

lemma dedup_check_wp [wp_rules]:
  assumes "\<And>e m'. faulty \<Longrightarrow> abs m' = abs m \<Longrightarrow> Q (Err (Storage e)) m'"
    and "\<And>m' w b. abs m' = abs m \<Longrightarrow> dedup_recorded (cont (abs m)) q P msg = Some (w, b) \<Longrightarrow> length b < 8 \<Longrightarrow>
       Q Panic m'"
    and "\<And>m'. abs m' = abs m \<Longrightarrow> Q (Ok (dedup_hit (cont (abs m)) q P msg now)) m'"
  shows "wp (dedup_check S q P msg now) Q m"
  unfolding dedup_check_def using assms
  by (auto simp: wp_simps abs_state_def dedup_recorded_def dedup_hit_def Let_def intro!: wp_rules
      split: option.splits)

lemma record_dedup_wp [wp_rules]:
  assumes "\<And>e m'. faulty \<Longrightarrow> abs m' = abs m \<Longrightarrow> Q (Err (Storage e)) m'"
    and "\<And>m'. abs m' = (abs m)\<lparr>cont := dedup_store (cont (abs m)) q P msg now\<rparr> \<Longrightarrow> Q (Ok ()) m'"
  shows "wp (record_dedup_key S q msg P now) Q m"
  unfolding record_dedup_key_def using assms
  by (auto simp: wp_simps abs_state_def dedup_store_def intro!: wp_rules split: option.splits)

lemma publish_refines:
  "wp (publish S B clk q msg) (\<lambda>r m'. publish_spec faulty B clk q msg (abs m) r (abs m')) m"
proof -
  obtain b where ser: "ser_message B msg = Inr b" using ser_message_total by blast
  show ?thesis
    unfolding publish_def due_later_def [symmetric]
    by (auto simp: wp_simps publish_spec_def abs_state_def ser Let_def enqueue_def took_id_def
      storage_limit_def
      intro!: wp_rules split: option.splits)
qed

lemma consume_refines:
  "wp (consume S B q) (\<lambda>r m'. consume_spec faulty B q (abs m) r (abs m')) m"
proof -
  have loop: "wp (consume_loop S B q (Suc n)) (\<lambda>r m'. consume_spec faulty B q (abs m) r (abs m')) m"
    if "q \<in> declared (view (mgr_db m))" for n m
    using that
    by (cases "view (mgr_db m) q")
      (auto simp: wp_simps consume_spec_def abs_state_def Let_def consume_tx_def entries_ok_Cons took_head_def
        intro!: wp_rules split: option.splits sum.splits)
  show ?thesis
    unfolding consume_def consume_rounds_def numeral_2_eq_2
    by (auto simp: wp_simps consume_spec_def [where r = "Err e" for e] abs_db_eq
      simp del: consume_loop.simps intro!: wp_rules loop [THEN wp_mono])
qed

lemma nack_refines:
  "wp (nack S B q tag) (\<lambda>r m'. nack_spec faulty B q tag (abs m) r (abs m')) m"
proof -
  have ser: "\<exists>b. ser_message B x = Inr b" for x using ser_message_total by blast
  have ser': "ser_message B x \<noteq> Inl e" for x e using ser [of x] by auto
  show ?thesis
  unfolding nack_def nack_tx_alt
  by (auto simp: wp_simps nack_spec_def abs_state_def put_back_def took_id_def ser' Let_def
      intro!: wp_rules split: option.splits sum.splits)
qed

lemma declare_refines:
  "wp (declare_queue_with_retention S B q P) (\<lambda>r m'. declare_spec faulty B q P (abs m) r (abs m')) m"
proof -
  obtain b where ser: "ser_policy B P = Inr b" using ser_policy_total by blast
  show ?thesis
  unfolding declare_queue_with_retention_def
  by (auto simp: wp_simps declare_spec_def abs_state_def Let_def declared_def ser 
      intro!: wp_rules split: option.splits sum.splits)
qed

lemma count_refines:
  "wp (depth S q) (\<lambda>r m'. count_spec faulty q q (abs m) r (abs m')) m"
  "wp (dead_letter_count S q) (\<lambda>r m'. count_spec faulty q (dlq_tree_name q) (abs m) r (abs m')) m"
  "wp (scheduled_depth S q) (\<lambda>r m'. count_spec faulty q (scheduled_tree_name q) (abs m) r (abs m')) m"
  unfolding depth_def dead_letter_count_def scheduled_depth_def
  by (auto simp: wp_simps count_spec_def abs_state_def intro!: wp_rules)

end

end
