(* ===== verification/Queue_Sweeps.thy ===== *)
theory Queue_Sweeps
  imports Queue_Spec
begin

text \<open>
  The operations of \<^verbatim>\<open>QueueManager\<close> that sweep over a whole tree: promotion of scheduled messages,
  retention, the recount of the stored bytes and the recovery of in-flight messages.  As in
  \<^verbatim>\<open>Queue_Spec\<close>, each has a specification over abstract states, and its program is shown to
  implement it.

  \<^verbatim>\<open>requeues\<close> is the effect of moving a list of entries to the main tree, one fresh identifier
  each; \<^verbatim>\<open>requeue_fails\<close> is the same sweep interrupted by an error.
\<close>

section \<open>Specifications\<close>

definition is_due :: "i64 \<Rightarrow> bytes \<times> bytes \<Rightarrow> bool" where
  "is_due now kv = (\<not> i64_less now (from_be_bytes (take 8 (fst kv))))"

definition requeue_one :: "bincode \<Rightarrow> bytes option \<Rightarrow> string \<Rightarrow> bytes \<times> bytes \<Rightarrow> nat \<Rightarrow> contents \<Rightarrow> contents" where
  "requeue_one B src q kv i V =
     (let V1 = (case src of None \<Rightarrow> V | Some t \<Rightarrow> V(t := ot_remove (fst kv) (V t)))
      in V1(q := ot_insert (encode_key (priority (projr (de_message B (snd kv)))) (of_nat i)) (snd kv) (V1 q)))"

inductive requeues ::
    "bool \<Rightarrow> bincode \<Rightarrow> bytes option \<Rightarrow> string \<Rightarrow> otree \<Rightarrow> qstate \<Rightarrow> qstate \<Rightarrow> bool"
  for f B src q where
  requeues_Nil: "requeues f B src q [] s s"
| requeues_Cons: "took_id f (next_id s) n' \<Longrightarrow> \<not> isl (de_message B (snd kv)) \<Longrightarrow>
    requeues f B src q xs (s\<lparr>cont := requeue_one B src q kv (next_id s) (cont s), next_id := n'\<rparr>) s' \<Longrightarrow>
    requeues f B src q (kv # xs) s s'"

inductive requeue_fails ::
    "bool \<Rightarrow> bincode \<Rightarrow> bytes option \<Rightarrow> string \<Rightarrow> otree \<Rightarrow> qstate \<Rightarrow> pelican_error \<Rightarrow> qstate \<Rightarrow> bool"
  for f B src q where
  fails_storage: "f \<Longrightarrow> s' = s \<Longrightarrow> requeue_fails f B src q xs s (Storage e) s'"
| fails_commit: "f \<Longrightarrow> took_id f (next_id s) n' \<Longrightarrow>
    requeue_fails f B src q (kv # xs) s (Storage e) (s\<lparr>next_id := n'\<rparr>)"
| fails_id: "2 ^ 64 \<le> next_id s \<Longrightarrow> s' = s \<Longrightarrow> requeue_fails f B src q (kv # xs) s (Storage e) s'"
| fails_decode: "de_message B (snd kv) = Inl e \<Longrightarrow> requeue_fails f B src q (kv # xs) s (Serialization e) s"
| fails_later: "took_id f (next_id s) n' \<Longrightarrow> \<not> isl (de_message B (snd kv)) \<Longrightarrow>
    requeue_fails f B src q xs (s\<lparr>cont := requeue_one B src q kv (next_id s) (cont s), next_id := n'\<rparr>) e s' \<Longrightarrow>
    requeue_fails f B src q (kv # xs) s e s'"

definition promote_spec ::
    "bool \<Rightarrow> bincode \<Rightarrow> i64 \<Rightarrow> string \<Rightarrow> qstate \<Rightarrow> (pelican_error, nat) outcome \<Rightarrow> qstate \<Rightarrow> bool" where
  "promote_spec f B now q s r s' =
     (let due = takeWhile (is_due now) (cont s (scheduled_tree_name q)) in
      case r of
        Ok n \<Rightarrow> q \<in> declared (cont s) \<and> n = length due \<and> requeues f B (Some (scheduled_tree_name q)) q due s s'
      | Err (QueueNotFound x) \<Rightarrow> x = q \<and> q \<notin> declared (cont s) \<and> s' = s
      | Err e \<Rightarrow> q \<in> declared (cont s) \<and> requeue_fails f B (Some (scheduled_tree_name q)) q due s e s' \<or>
          f \<and> (\<exists>x. e = Storage x) \<and> s' = s
      | Panic \<Rightarrow> q \<in> declared (cont s) \<and> s' = s \<and>
          (\<exists>kv \<in> set (cont s (scheduled_tree_name q)). length (fst kv) < 8)
      | Diverge \<Rightarrow> False)"

definition without :: "bytes list \<Rightarrow> otree \<Rightarrow> otree" where
  "without ks xs = filter (\<lambda>p. fst p \<notin> set ks) xs"

definition queue_names :: "contents \<Rightarrow> string list" where
  "queue_names V = filter utf8_ok (keys (V META_QUEUES_TREE))"

definition queue_bytes :: "contents \<Rightarrow> string \<Rightarrow> nat" where
  "queue_bytes V q =
     val_bytes (V q) + val_bytes (V (inflight_tree_name q)) + val_bytes (V (dlq_tree_name q)) +
     val_bytes (V (scheduled_tree_name q)) + val_bytes (V (dedup_tree_name q))"

definition stored_bytes :: "contents \<Rightarrow> nat" where
  "stored_bytes V = sum_list (map (queue_bytes V) (queue_names V))"

definition recalculate_spec :: "bool \<Rightarrow> qstate \<Rightarrow> (pelican_error, u64) outcome \<Rightarrow> qstate \<Rightarrow> bool" where
  "recalculate_spec f s r s' =
     (s' = s \<and>
      (case r of
         Ok t \<Rightarrow> \<not> f \<longrightarrow> t = of_nat (stored_bytes (cont s))
       | Err (Storage _) \<Rightarrow> f
       | _ \<Rightarrow> False))"

definition recovered ::
    "bool \<Rightarrow> bincode \<Rightarrow> string \<Rightarrow> otree \<Rightarrow> bytes list \<Rightarrow> qstate \<Rightarrow> qstate \<Rightarrow> bool" where
  "recovered f B q es ks s s' \<longleftrightarrow>
     (\<exists>s1. requeues f B None q es s s1 \<and>
        s' = s1\<lparr>cont := (cont s1)(inflight_tree_name q := without ks (cont s1 (inflight_tree_name q)))\<rparr>)"

definition recover_queue_spec ::
    "bool \<Rightarrow> bincode \<Rightarrow> string \<Rightarrow> qstate \<Rightarrow> (pelican_error, unit) outcome \<Rightarrow> qstate \<Rightarrow> bool" where
  "recover_queue_spec f B q s r s' =
     (\<exists>es. subseq es (cont s (inflight_tree_name q)) \<and>
        (case r of
           Ok _ \<Rightarrow> (\<not> f \<longrightarrow> es = cont s (inflight_tree_name q)) \<and> recovered f B q es (keys es) s s'
         | Err e \<Rightarrow> requeue_fails f B None q es s e s' \<or>
             f \<and> (\<exists>x. e = Storage x) \<and> (\<exists>ks. set ks \<subseteq> set (keys es) \<and> recovered f B q es ks s s')
         | _ \<Rightarrow> False))"

definition is_expired :: "bincode \<Rightarrow> i64 \<Rightarrow> i64 \<Rightarrow> bytes \<times> bytes \<Rightarrow> bool" where
  "is_expired B now max_age_ms kv =
     (case de_message B (snd kv) of
        Inl _ \<Rightarrow> False
      | Inr msg \<Rightarrow> \<not> i64_less (now - timestamp msg) max_age_ms)"

definition retained_age :: "bincode \<Rightarrow> i64 \<Rightarrow> u64 option \<Rightarrow> otree \<Rightarrow> otree" where
  "retained_age B now age xs =
     (case age of None \<Rightarrow> xs | Some secs \<Rightarrow> filter (\<lambda>kv. \<not> is_expired B now (secs * 1000) kv) xs)"

definition retained_count :: "u64 option \<Rightarrow> otree \<Rightarrow> otree" where
  "retained_count mx xs = (case mx of None \<Rightarrow> xs | Some n \<Rightarrow> drop (length xs - unat n) xs)"

definition retained :: "bincode \<Rightarrow> i64 \<Rightarrow> retention_policy \<Rightarrow> otree \<Rightarrow> otree" where
  "retained B now P xs = retained_count (max_messages P) (retained_age B now (max_age_secs P) xs)"

definition keep_spec ::
    "bool \<Rightarrow> bool \<Rightarrow> string \<Rightarrow> otree \<Rightarrow> qstate \<Rightarrow> (pelican_error, nat) outcome \<Rightarrow> qstate \<Rightarrow> bool" where
  "keep_spec f u q ys s r s' =
     (case r of
        Ok n \<Rightarrow> n = length (cont s q) - length ys \<and> s' = s\<lparr>cont := (cont s)(q := ys)\<rparr>
      | Err (Storage _) \<Rightarrow> f \<and> subseq (cont s' q) (cont s q) \<and> s' = s\<lparr>cont := (cont s)(q := cont s' q)\<rparr>
      | Err (Serialization _) \<Rightarrow> u \<and> s' = s
      | _ \<Rightarrow> False)"

definition undecodable :: "bincode \<Rightarrow> otree \<Rightarrow> bool" where
  "undecodable B xs \<longleftrightarrow> (\<exists>kv \<in> set xs. isl (de_message B (snd kv)))"

definition retention_spec ::
    "bool \<Rightarrow> bincode \<Rightarrow> i64 \<Rightarrow> string \<Rightarrow> qstate \<Rightarrow> (pelican_error, nat) outcome \<Rightarrow> qstate \<Rightarrow> bool" where
  "retention_spec f B now q s r s' =
     (let xs = cont s q; ys = retained B now (policy_in B (cont s) q) xs in
      case r of
        Ok n \<Rightarrow> q \<in> declared (cont s) \<and> n = length xs - length ys \<and>
          (\<exists>u. s' = s\<lparr>cont := (cont s)(q := ys), used := u\<rparr> \<and> (n = 0 \<longrightarrow> u = used s) \<and>
             (n > 0 \<longrightarrow> \<not> f \<longrightarrow> u = of_nat (stored_bytes ((cont s)(q := ys)))))
      | Err (QueueNotFound x) \<Rightarrow> x = q \<and> q \<notin> declared (cont s) \<and> s' = s
      | Err (Storage _) \<Rightarrow> f \<and> (s' = s \<or> q \<in> declared (cont s) \<and> subseq (cont s' q) xs \<and>
          s' = s\<lparr>cont := (cont s)(q := cont s' q)\<rparr>)
      | Err (Serialization _) \<Rightarrow> q \<in> declared (cont s) \<and> s' = s \<and> undecodable B xs
      | _ \<Rightarrow> False)"

section \<open>Sweeps over one iteration\<close>

lemma collect_due_wp:
  fixes m :: "'db manager"
  assumes "entries_ok f es xs"
  shows "wp (collect_due now es) (\<lambda>r m'. m' = m \<and> (case r of
      Ok ys \<Rightarrow> ys = takeWhile (is_due now) xs
    | Err e \<Rightarrow> f \<and> (\<exists>x. e = Storage x)
    | Panic \<Rightarrow> (\<exists>kv \<in> set xs. length (fst kv) < 8)
    | Diverge \<Rightarrow> False)) m"
  using assms
proof (induction es arbitrary: xs)
  case (Cons r es)
  from Cons.prems obtain kv ys where xs: "xs = kv # ys" "entries_ok f es ys" "r = Inr kv \<or> f \<and> isl r"
    by (auto simp: entries_ok_def list_all2_Cons1)
  show ?case
  proof (cases r)
    case (Inl e)
    with xs show ?thesis by (auto simp: wp_simps)
  next
    case (Inr p)
    obtain k v where "p = (k, v)" by force
    with Inr xs have eq: "r = Inr (k, v)" "xs = (k, v) # ys" by auto
    have due: "wp (bnd (collect_due now es) (\<lambda>rest. ret ((k, v) # rest))) (\<lambda>r m'. m' = m \<and> (case r of
        Ok zs \<Rightarrow> zs = (k, v) # takeWhile (is_due now) ys
      | Err e \<Rightarrow> f \<and> (\<exists>x. e = Storage x)
      | Panic \<Rightarrow> (\<exists>kv \<in> set ys. length (fst kv) < 8)
      | Diverge \<Rightarrow> False)) m"
      unfolding wp_bnd
      by (rule wp_mono [OF Cons.IH [OF xs(2)]]) (auto simp: wp_simps split: outcome.splits)
    show ?thesis
    proof (cases "length k < 8 \<or> \<not> is_due now (k, v)")
      case True
      then show ?thesis by (auto simp: eq wp_simps is_due_def)
    next
      case False
      then have step: "(collect_due now (r # es) :: ('db, _) mprog) =
          bnd (collect_due now es) (\<lambda>rest. ret ((k, v) # rest))"
        by (simp add: eq is_due_def)
      show ?thesis
        unfolding step
        by (rule wp_mono [OF due]) (use False in \<open>auto simp: eq split: outcome.splits\<close>)
    qed
  qed
qed (simp add: wp_simps)

lemma requeue_fails_error: "requeue_fails f B src q xs s e s' \<Longrightarrow> \<exists>x. e = Storage x \<or> e = Serialization x"
  by (induction rule: requeue_fails.induct) auto

lemma fails_now:
  "(f \<or> 2 ^ 64 \<le> next_id s) \<and> s' = s \<or>
     f \<and> (\<exists>n'. took_id f (next_id s) n' \<and> s' = s\<lparr>next_id := n'\<rparr>) \<Longrightarrow>
   requeue_fails f B src q (kv # xs) s (Storage e) s'"
  by (elim disjE conjE exE; hypsubst)
    (erule fails_storage [OF _ refl], erule fails_id [OF _ refl], erule (1) fails_commit)

lemma without_Nil [simp]: "without [] xs = xs"
  by (simp add: without_def)

lemma without_snoc: "without (ks @ [k]) xs = ot_remove k (without ks xs)"
  by (auto simp: without_def ot_remove_def intro: filter_cong)

lemma without_all [simp]: "without (keys xs) xs = []"
  by (auto simp: without_def filter_empty_conv)

lemma oks_simps [simp]: "oks [] = []" "oks (Inl e # es) = oks es" "oks (Inr x # es) = x # oks es"
  by (simp_all add: oks_def List.map_filter_def)

lemma oks_map_Inr [simp]: "oks (map Inr xs) = xs"
  by (induction xs) simp_all

lemma entries_ok_oks: "entries_ok f es xs \<Longrightarrow> subseq (oks es) xs"
proof (induction es arbitrary: xs)
  case (Cons r es)
  from Cons.prems obtain kv ys where xs: "xs = kv # ys" "entries_ok f es ys" "r = Inr kv \<or> f \<and> isl r"
    by (auto simp: entries_ok_def list_all2_Cons1)
  then show ?case using Cons.IH [OF xs(2)] by (cases r) auto
qed simp

lemma subseq_subset: "subseq xs ys \<Longrightarrow> set xs \<subseteq> set ys"
  by (auto dest: list_emb_set)

lemma subseq_mset: "subseq xs ys \<Longrightarrow> mset xs \<subseteq># mset ys"
  by (induction rule: list_emb.induct) (auto intro: subset_mset.order_trans)

lemma entries_ok_oks_healthy: "entries_ok f es xs \<Longrightarrow> \<not> f \<Longrightarrow> oks es = xs"
  by (simp add: entries_ok_healthy)

lemma map_filter_from_utf8: "List.map_filter from_utf8 xs = filter utf8_ok xs"
  by (induction xs) (simp_all add: List.map_filter_def from_utf8_def)

lemma sum_entries_wp:
  assumes "entries_ok f es xs"
  shows "wp (sum_entries tot es) (\<lambda>r m'. m' = m \<and> (case r of
      Ok t \<Rightarrow> t = tot + of_nat (val_bytes xs) | Err (Storage _) \<Rightarrow> f | _ \<Rightarrow> False)) m"
  using assms
proof (induction es arbitrary: xs tot)
  case (Cons r es)
  from Cons.prems obtain kv ys where xs: "xs = kv # ys" "entries_ok f es ys" "r = Inr kv \<or> f \<and> isl r"
    by (auto simp: entries_ok_def list_all2_Cons1)
  show ?case
  proof (cases r)
    case (Inl e)
    with xs show ?thesis by (auto simp: wp_simps)
  next
    case (Inr p)
    with xs have eq: "r = Inr (fst kv, snd kv)" by auto
    show ?thesis
      unfolding eq sum_entries.simps
      by (rule wp_mono [OF Cons.IH [OF xs(2)]]) (auto simp: xs ac_simps split: outcome.splits)
  qed
qed (simp add: wp_simps)

lemma recover_queue_spec_storage: "f \<Longrightarrow> recover_queue_spec f B q s (Err (Storage e)) s"
  by (auto simp: recover_queue_spec_def intro!: exI [of _ "[]"] fails_storage)

lemma subseq_retained:
  "subseq (retained_age B now age xs) xs" "subseq (retained_count mx xs) xs" "subseq (retained B now P xs) xs"
proof -
  show a: "subseq (retained_age B now age xs) xs" for age xs
    by (auto simp: retained_age_def split: option.splits)
  show c: "subseq (retained_count mx xs) xs" for mx xs
    by (auto simp: retained_count_def split: option.splits)
  show "subseq (retained B now P xs) xs"
    unfolding retained_def using subseq_order.trans [OF c a] .
qed

lemma without_filter: "distinct (keys xs) \<Longrightarrow> without (keys (filter P xs)) xs = filter (\<lambda>p. \<not> P p) xs"
  by (auto simp: without_def distinct_map inj_on_def intro!: filter_cong)

lemma without_take: "distinct (keys xs) \<Longrightarrow> without (keys (take n xs)) xs = drop n xs"
proof -
  assume d: "distinct (keys xs)"
  have "without (keys (take n xs)) xs = without (keys (take n xs)) (take n xs @ drop n xs)" by simp
  also have "\<dots> = without (keys (take n xs)) (drop n xs)"
    unfolding without_def filter_append by (auto simp: filter_empty_conv)
  also have "\<dots> = drop n xs"
  proof -
    have "set (keys (take n xs)) \<inter> set (keys (drop n xs)) = {}"
      using d by (metis append_take_drop_id distinct_append map_append)
    then show ?thesis unfolding without_def by (auto simp: filter_id_conv)
  qed
  finally show ?thesis .
qed

lemma expired_keys_wp:
  assumes "entries_ok f es xs"
  shows "wp (expired_keys B now age es) (\<lambda>r m'. m' = m \<and> (case r of
      Ok ks \<Rightarrow> ks = keys (filter (is_expired B now age) xs)
    | Err (Storage _) \<Rightarrow> f
    | Err (Serialization _) \<Rightarrow> undecodable B xs
    | _ \<Rightarrow> False)) m"
  using assms
proof (induction es arbitrary: xs)
  case (Cons r es)
  from Cons.prems obtain kv ys where xs: "xs = kv # ys" "entries_ok f es ys" "r = Inr kv \<or> f \<and> isl r"
    by (auto simp: entries_ok_def list_all2_Cons1)
  show ?case
  proof (cases r)
    case (Inl e)
    with xs show ?thesis by (auto simp: wp_simps)
  next
    case (Inr p)
    with xs have eq: "r = Inr (fst kv, snd kv)" by auto
    show ?thesis
    proof (cases "de_message B (snd kv)")
      case (Inl e)
      show ?thesis
        unfolding eq expired_keys.simps Inl sum.case by (auto simp: xs wp_simps Inl undecodable_def)
    next
      case (Inr msg)
      show ?thesis
        unfolding eq expired_keys.simps Inr sum.case wp_bnd
        by (rule wp_mono [OF Cons.IH [OF xs(2)]])
          (use xs Inr in \<open>auto simp: wp_simps is_expired_def undecodable_def split: outcome.splits pelican_error.splits\<close>)
    qed
  qed
qed (simp add: wp_simps)

lemma excess_keys_wp:
  assumes "entries_ok f es xs"
  shows "wp (excess_keys n es) (\<lambda>r m'. m' = m \<and> (case r of
      Ok ks \<Rightarrow> ks = keys (take n xs) | Err (Storage _) \<Rightarrow> f | _ \<Rightarrow> False)) m"
  using assms
proof (induction es arbitrary: xs n)
  case (Cons r es)
  from Cons.prems obtain kv ys where xs: "xs = kv # ys" "entries_ok f es ys" "r = Inr kv \<or> f \<and> isl r"
    by (auto simp: entries_ok_def list_all2_Cons1)
  show ?case
  proof (cases n)
    case (Suc k)
    show ?thesis
    proof (cases r)
      case (Inl e)
      with xs Suc show ?thesis by (auto simp: wp_simps)
    next
      case (Inr p)
      with xs have eq: "r = Inr (fst kv, snd kv)" by auto
      show ?thesis
        unfolding eq Suc excess_keys.simps wp_bnd
        by (rule wp_mono [OF Cons.IH [OF xs(2)]])
          (use xs in \<open>auto simp: wp_simps split: outcome.splits pelican_error.splits\<close>)
    qed
  qed (simp add: wp_simps)
qed (simp add: wp_simps)

lemma keep_same: "keep_spec f u q (cont s q) s (Ok 0) s"
  by (simp add: keep_spec_def)

section \<open>The programs implement the specifications\<close>

context engine
begin

lemma promote_loop_wp:
  "wp (promote_loop S B q n due)
     (\<lambda>r m'. case r of Ok k \<Rightarrow> k = n + length due \<and> requeues faulty B (Some (scheduled_tree_name q)) q due (abs m) (abs m')
       | Err e \<Rightarrow> requeue_fails faulty B (Some (scheduled_tree_name q)) q due (abs m) e (abs m')
       | _ \<Rightarrow> False) m"
proof (induction due arbitrary: n m)
  case Nil
  show ?case by (auto simp: wp_simps intro: requeues_Nil)
next
  case (Cons kv due)
  obtain k v where kv: "kv = (k, v)" by force
  let ?post = "\<lambda>r m'. case r of
      Ok j \<Rightarrow> j = n + length (kv # due) \<and> requeues faulty B (Some (scheduled_tree_name q)) q (kv # due) (abs m) (abs m')
    | Err e \<Rightarrow> requeue_fails faulty B (Some (scheduled_tree_name q)) q (kv # due) (abs m) e (abs m')
    | _ \<Rightarrow> False"
  have step: "wp (promote_loop S B q (Suc n) due) ?post m1"
    if m1: "abs m1 = (abs m)\<lparr>cont := requeue_one B (Some (scheduled_tree_name q)) q kv (next_id (abs m)) (cont (abs m)), next_id := next_id (abs m1)\<rparr>"
      "took_id faulty (next_id (abs m)) (next_id (abs m1))" "de_message B v = Inr msg" for m1 msg
    by (rule wp_mono [OF Cons.IH])
      (use m1 kv in \<open>auto intro: requeues_Cons fails_later split: outcome.splits\<close>)
  show ?case
  proof (cases "de_message B v")
    case (Inl e)
    then show ?thesis by (auto simp: kv wp_simps intro: fails_decode)
  next
    case (Inr msg)
    then show ?thesis
      unfolding kv 
      by (auto simp: wp_simps promote_tx_def intro!: wp_rules)
        (rule fails_now step [unfolded kv, OF _ _ Inr];
          auto simp: took_id_def abs_state_eq requeue_one_def Let_def)+
  qed
qed

lemma promote_refines:
  "wp (promote_scheduled S B now q) (\<lambda>r m'. promote_spec faulty B now q (abs m) r (abs m')) m"
proof -
  have body: "wp (bnd (collect_due now es) (promote_loop S B q 0))
      (\<lambda>r m'. promote_spec faulty B now q (abs m1) r (abs m')) m1"
    if "entries_ok faulty es (view (mgr_db m1) (scheduled_tree_name q))" "q \<in> declared (view (mgr_db m1))" for es m1
    unfolding wp_bnd
    by (rule wp_mono [OF collect_due_wp [OF that(1)]])
      (use that(2) in \<open>auto simp: promote_spec_def Let_def intro!: promote_loop_wp [THEN wp_mono] intro: fails_storage
        dest: requeue_fails_error split: outcome.splits pelican_error.splits\<close>)
  have eq: "abs (m\<lparr>mgr_db := d\<rparr>) = abs m" if "view d = view (mgr_db m)" "nxt d = nxt (mgr_db m)" for d
    using that by (simp add: abs_state_def)
  show ?thesis
    unfolding promote_scheduled_def
    apply (auto simp: wp_simps intro!: wp_rules)
    apply (auto simp: promote_spec_def fails_storage eq) [4]
    subgoal for d d' es using body [of es "m\<lparr>mgr_db := d'\<rparr>"] by (simp add: wp_bnd eq)
    done
qed

lemma list_queues_wp:
  "wp (list_queues S) (\<lambda>r m'. m' = m \<and> (case r of
      Ok names \<Rightarrow> set names \<subseteq> declared (view (mgr_db m)) \<and> (\<not> faulty \<longrightarrow> names = queue_names (view (mgr_db m)))
    | _ \<Rightarrow> False)) m"
proof -
  have "set (keys (oks es)) \<subseteq> set (keys xs)" if "entries_ok faulty es xs" for es and xs :: otree
    using subseq_subset [OF entries_ok_oks [OF that]] by auto
  then show ?thesis
    unfolding list_queues_def
    by (auto simp: wp_simps map_filter_from_utf8 declared_def queue_names_def entries_ok_oks_healthy
        simp del: set_map intro!: wp_rules) blast
qed

lemma add_tree_wp [wp_rules]:
  assumes "\<And>e m'. faulty \<Longrightarrow> abs m' = abs m \<Longrightarrow> Q (Err (Storage e)) m'"
    and "\<And>m'. abs m' = abs m \<Longrightarrow> Q (Ok (tot + of_nat (val_bytes (view (mgr_db m) t)))) m'"
  shows "wp (add_tree S t tot) Q m"
proof -
  have *: "wp (sum_entries tot es) Q m1"
    if "entries_ok faulty es (view (mgr_db m1) t)" "abs m1 = abs m" for m1 es
    by (rule wp_mono [OF sum_entries_wp [OF that(1)]])
      (use that(2) assms in \<open>auto simp: abs_state_eq split: outcome.splits pelican_error.splits\<close>)
  show ?thesis
    unfolding add_tree_def using assms(1)
    by (auto simp: wp_simps abs_db_eq intro!: wp_rules *)
qed

lemma recalculate_queues_wp:
  "wp (recalculate_queues S names tot) (\<lambda>r m'. abs m' = abs m \<and> (case r of
      Ok n \<Rightarrow> n = tot + of_nat (sum_list (map (queue_bytes (view (mgr_db m))) names))
    | Err (Storage _) \<Rightarrow> faulty | _ \<Rightarrow> False)) m"
proof (induction names arbitrary: m tot)
  case (Cons q names)
  show ?case
    by (auto simp: wp_simps abs_state_eq queue_bytes_def [of _ q] intro!: wp_rules Cons.IH [THEN wp_mono] split: outcome.splits)
qed (simp add: wp_simps)

lemma recalculate_refines: "wp (recalculate_bytes S) (\<lambda>r m'. recalculate_spec faulty (abs m) r (abs m')) m"
  unfolding recalculate_bytes_def wp_bnd
  by (rule wp_mono [OF list_queues_wp])
   (auto simp: recalculate_spec_def stored_bytes_def intro!: recalculate_queues_wp [THEN wp_mono] split: outcome.splits)

lemma remove_loop_wp:
  "wp (for_each (\<lambda>x. bnd (q_remove S t (g x)) (\<lambda>_. ret ())) xs)
     (\<lambda>r m'. case r of
        Ok _ \<Rightarrow> abs m' = (abs m)\<lparr>cont := (view (mgr_db m))(t := without (map g xs) (view (mgr_db m) t))\<rparr>
      | Err e \<Rightarrow> faulty \<and> (\<exists>x. e = Storage x) \<and> (\<exists>ks. set ks \<subseteq> set (map g xs) \<and>
           abs m' = (abs m)\<lparr>cont := (view (mgr_db m))(t := without ks (view (mgr_db m) t))\<rparr>)
      | _ \<Rightarrow> False) m"
proof -
  let ?V = "view (mgr_db m)"
  let ?I = "\<lambda>ys m'. \<exists>zs. xs = zs @ ys \<and> abs m' = (abs m)\<lparr>cont := ?V(t := without (map g zs) (?V t))\<rparr>"
  show ?thesis
  proof (rule wp_for_each [where I = ?I])
    show "?I xs m" by (auto simp: abs_state_eq)
  next
    fix x ys m1 assume I: "?I (x # ys) m1"
    then obtain zs where zs: "xs = zs @ x # ys"
      "abs m1 = (abs m)\<lparr>cont := ?V(t := without (map g zs) (?V t))\<rparr>" by blast
    have nxt_I: "?I ys (m1\<lparr>mgr_db := d\<rparr>)"
      if "view d = (view (mgr_db m1))(t := ot_remove (g x) (view (mgr_db m1) t))" "nxt d = nxt (mgr_db m1)" for d
      using zs that by (intro exI [of _ "zs @ [x]"]) (auto simp: abs_state_eq without_snoc)
    show "wp (bnd (q_remove S t (g x)) (\<lambda>_. ret ()))
       (on_ok (\<lambda>_. ?I ys) (\<lambda>r m'. case r of
        Ok _ \<Rightarrow> abs m' = (abs m)\<lparr>cont := ?V(t := without (map g xs) (?V t))\<rparr>
      | Err e \<Rightarrow> faulty \<and> (\<exists>x. e = Storage x) \<and> (\<exists>ks. set ks \<subseteq> set (map g xs) \<and>
           abs m' = (abs m)\<lparr>cont := ?V(t := without ks (?V t))\<rparr>)
      | _ \<Rightarrow> False)) m1"
      using zs nxt_I by (auto simp: wp_simps simp del: set_map intro!: wp_rules exI [of _ "map g zs"])
  qed auto
qed


lemma recover_inserts_wp:
  "wp (for_each (\<lambda>(_, v). recover_insert S B q v) es)
     (\<lambda>r m'. case r of
        Ok _ \<Rightarrow> requeues faulty B None q es (abs m) (abs m')
      | Err e \<Rightarrow> requeue_fails faulty B None q es (abs m) e (abs m')
      | _ \<Rightarrow> False) m"
proof (induction es arbitrary: m)
  case (Cons kv es)
  obtain k v where kv: "kv = (k, v)" by force
  let ?post = "\<lambda>r m'. case r of
      Ok _ \<Rightarrow> requeues faulty B None q (kv # es) (abs m) (abs m')
    | Err e \<Rightarrow> requeue_fails faulty B None q (kv # es) (abs m) e (abs m')
    | _ \<Rightarrow> False"
  have step: "wp (for_each (\<lambda>(_, v). recover_insert S B q v) es) ?post m1"
    if m1: "abs m1 = (abs m)\<lparr>cont := requeue_one B None q kv (next_id (abs m)) (cont (abs m)), next_id := next_id (abs m1)\<rparr>"
      "took_id faulty (next_id (abs m)) (next_id (abs m1))" "de_message B v = Inr msg" for m1 msg
    by (rule wp_mono [OF Cons.IH])
      (use m1 kv in \<open>auto intro: requeues_Cons fails_later split: outcome.splits\<close>)
  show ?case
  proof (cases "de_message B v")
    case (Inl e)
    then show ?thesis by (auto simp: kv wp_simps recover_insert_def intro: fails_decode)
  next
    case (Inr msg)
    then show ?thesis
      unfolding kv
      by (auto simp: wp_simps recover_insert_def [of S B q v] intro!: wp_rules)
        (rule fails_now step [unfolded kv, OF _ _ Inr];
          auto simp: took_id_def abs_state_eq requeue_one_def Let_def)+
  qed
qed (simp add: wp_simps requeues_Nil)

lemma recover_queue_refines:
  "wp (recover_queue S B q) (\<lambda>r m'. recover_queue_spec faulty B q (abs m) r (abs m')) m"
proof -
  let ?i = "inflight_tree_name q"
  have body: "wp (bnd (for_each (\<lambda>(_, v). recover_insert S B q v) es) (\<lambda>_.
       for_each (\<lambda>(k, _). bnd (q_remove S ?i k) (\<lambda>_. ret ())) es))
      (\<lambda>r m'. recover_queue_spec faulty B q (abs m1) r (abs m')) m1"
    if es: "subseq es (view (mgr_db m1) ?i)" "\<not> faulty \<longrightarrow> es = view (mgr_db m1) ?i" for es m1
  proof -
    have removal: "wp (for_each (\<lambda>(k, _). bnd (q_remove S ?i k) (\<lambda>_. ret ())) es)
        (\<lambda>r m'. recover_queue_spec faulty B q (abs m1) r (abs m')) m2"
      if req: "requeues faulty B None q es (abs m1) (abs m2)" for m2
    proof -
      have rec: "recovered faulty B q es ks (abs m1) s'"
        if "s' = (abs m2)\<lparr>cont := (view (mgr_db m2))(?i := without ks (view (mgr_db m2) ?i))\<rparr>" for s' ks
        using req that by (auto simp: recovered_def)
      show ?thesis
        unfolding case_prod_beta
        by (rule wp_mono [OF remove_loop_wp])
          (use es rec in \<open>auto simp: recover_queue_spec_def simp del: set_map intro!: exI [of _ es] split: outcome.splits\<close>)
    qed
    show ?thesis
      unfolding wp_bnd
    proof (rule wp_mono [OF recover_inserts_wp], goal_cases)
      case (1 r m2)
      then show ?case
        using removal es
        by (cases r) (auto simp: recover_queue_spec_def [where r = "Err e" for e])
    qed
  qed
  have empty: "recover_queue_spec faulty B q (abs m) (Ok ()) (abs m)"
    if "\<not> faulty \<longrightarrow> view (mgr_db m) ?i = []"
    using that by (auto simp: recover_queue_spec_def recovered_def abs_state_eq
      intro!: exI [of _ "[]"] exI [of _ "abs m"] requeues_Nil)
  show ?thesis
    unfolding recover_queue_def Let_def
    apply (auto simp: wp_simps abs_db_eq recover_queue_spec_storage intro!: wp_rules)
    subgoal for d d' es using empty entries_ok_oks_healthy [of faulty es "view (mgr_db m) ?i"]
      by (cases faulty) auto
    subgoal for d d' es using body [of "oks es" "m\<lparr>mgr_db := d'\<rparr>"] entries_ok_oks_healthy [of faulty es "view (mgr_db m) ?i"]
      by (cases faulty) (auto simp: wp_bnd abs_db_eq entries_ok_oks)
    done
qed

lemma distinct_view: "distinct (keys (view d t))"
  using view_sorted by (rule ot_sorted_distinct)

lemma remove_keys_wp:
  assumes "without ks (view (mgr_db m) q) = ys" "n = length (view (mgr_db m) q) - length ys"
  shows "wp (bnd (remove_keys S q ks) (\<lambda>_. ret n)) (\<lambda>r m'. keep_spec faulty u q ys (abs m) r (abs m')) m"
  unfolding remove_keys_def wp_bnd
  by (rule wp_mono [OF remove_loop_wp [where g = "\<lambda>k. k", unfolded map_ident]])
    (use assms in \<open>auto simp: wp_simps keep_spec_def without_def abs_state_eq split: outcome.splits pelican_error.splits\<close>)

lemma retain_age_wp:
  "wp (retain_age S B now q age)
     (\<lambda>r m'. keep_spec faulty (undecodable B (view (mgr_db m) q)) q (retained_age B now age (view (mgr_db m) q)) (abs m) r (abs m')) m"
proof (cases age)
  case None
  then show ?thesis using keep_same [of faulty _ q "abs m"] by (simp add: retain_age_def retained_age_def wp_simps)
next
  case (Some secs)
  let ?xs = "view (mgr_db m) q" and ?P = "is_expired B now (secs * 1000)"
  have rm: "wp (bnd (remove_keys S q (keys (filter ?P ?xs))) (\<lambda>_. ret (length (filter ?P ?xs))))
     (\<lambda>r m'. keep_spec faulty (undecodable B (view (mgr_db m) q)) q (filter (\<lambda>p. \<not> ?P p) ?xs) (abs m) r (abs m')) m"
    using sum_length_filter_compl [of ?P ?xs]
    by (intro remove_keys_wp without_filter distinct_view) simp
  have "wp (bnd (expired_keys B now (secs * 1000) es) (\<lambda>ks. bnd (remove_keys S q ks) (\<lambda>_. ret (length ks))))
     (\<lambda>r m'. keep_spec faulty (undecodable B (view (mgr_db m) q)) q (filter (\<lambda>p. \<not> ?P p) ?xs) (abs m) r (abs m')) m"
    if "entries_ok faulty es ?xs" for es
    unfolding wp_bnd [of "expired_keys B now (secs * 1000) es"]
    by (rule wp_mono [OF expired_keys_wp [OF that]])
      (use rm in \<open>auto simp: keep_spec_def [where r = "Err e" for e] abs_state_eq intro: exI [of _ ?xs]
         split: outcome.splits pelican_error.splits\<close>)
  then show ?thesis
    by (auto simp: Some retain_age_def retained_age_def wp_on_db wp_bnd [of "q_iter S q"] intro!: wp_rules)
qed

lemma retain_count_wp:
  "wp (retain_count S q mx)
     (\<lambda>r m'. keep_spec faulty False q (retained_count mx (view (mgr_db m) q)) (abs m) r (abs m')) m"
proof (cases mx)
  case None
  then show ?thesis using keep_same [of faulty _ q "abs m"] by (simp add: retain_count_def retained_count_def wp_simps)
next
  case (Some n)
  let ?xs = "view (mgr_db m) q" and ?j = "length (view (mgr_db m) q) - unat n"
  have rm: "wp (bnd (remove_keys S q (keys (take ?j ?xs))) (\<lambda>_. ret (length (take ?j ?xs))))
     (\<lambda>r m'. keep_spec faulty False q (drop ?j ?xs) (abs m) r (abs m')) m"
    by (intro remove_keys_wp without_take distinct_view) simp
  have "wp (bnd (excess_keys ?j es) (\<lambda>ks. bnd (remove_keys S q ks) (\<lambda>_. ret (length ks))))
     (\<lambda>r m'. keep_spec faulty False q (drop ?j ?xs) (abs m) r (abs m')) m"
    if "entries_ok faulty es ?xs" for es
    unfolding wp_bnd [of "excess_keys ?j es"]
    by (rule wp_mono [OF excess_keys_wp [OF that]])
      (use rm in \<open>auto simp: keep_spec_def [where r = "Err e" for e] abs_state_eq intro: exI [of _ ?xs]
         split: outcome.splits pelican_error.splits\<close>)
  then show ?thesis
    using keep_same [of faulty _ q "abs m"]
    by (auto simp: Some retain_count_def retained_count_def wp_on_db wp_ret
        wp_bnd [of "q_iter S q"] wp_bnd [of "q_len S q"] intro!: wp_rules)
qed

abbreviation retention_tail :: "nat \<Rightarrow> ('a, nat) mprog" where
  "retention_tail n \<equiv>
     if n > 0 then bnd (recalculate_bytes S) (\<lambda>tot.
       bnd (modify (\<lambda>m. m\<lparr>current_bytes := tot\<rparr>)) (\<lambda>_. ret n)) else ret n"

lemma retention_tail_wp:
  assumes "q \<in> declared (cont s)" "retained B now (policy_in B (cont s) q) (cont s q) = ys"
    and "subseq ys (cont s q)" "abs m1 = s\<lparr>cont := (cont s)(q := ys)\<rparr>" "n = length (cont s q) - length ys"
  shows "wp (retention_tail n) (\<lambda>r m'. retention_spec faulty B now q s r (abs m')) m1"
proof (cases "n = 0")
  case True
  then show ?thesis
    using assms by (auto simp: wp_simps retention_spec_def Let_def abs_state_eq)
next
  case False
  show ?thesis
    using False assms
    by (auto simp: wp_simps retention_spec_def recalculate_spec_def abs_state_eq Let_def fun_upd_def [symmetric]
        intro!: wp_mono [OF recalculate_refines] split: outcome.splits pelican_error.splits)
qed

lemma retention_refines:
  "wp (apply_retention S B now q) (\<lambda>r m'. retention_spec faulty B now q (abs m) r (abs m')) m"
proof -
  let ?s = "abs m"
  let ?P = "policy_in B (cont ?s) q"
  let ?Q = "\<lambda>r m'. retention_spec faulty B now q ?s r (abs m')"
  define xs where "xs = cont ?s q"
  define ys where "ys = retained_age B now (max_age_secs ?P) xs"
  define zs where "zs = retained_count (max_messages ?P) ys"
  have zs: "retained B now ?P (cont ?s q) = zs" by (simp add: xs_def ys_def zs_def retained_def)
  have "subseq ys xs" "subseq zs ys" unfolding ys_def zs_def by (rule subseq_retained)+
  with subseq_order.trans [of zs ys xs] have subs: "subseq ys xs" "subseq zs ys" "subseq zs xs" by simp_all
  note lens = subs [THEN list_emb_length]
  have count: "wp (bnd (retain_count S q (max_messages ?P)) (\<lambda>over. retention_tail (n + over))) ?Q m1"
    if "q \<in> declared (cont ?s)" "n = length xs - length ys" "abs m1 = ?s\<lparr>cont := (cont ?s)(q := ys)\<rparr>" for n m1
  proof -
    have m1: "view (mgr_db m1) q = ys" using that(3) by (simp add: abs_state_eq)
    show ?thesis
      unfolding wp_bnd [of "retain_count S q (max_messages ?P)"]
    proof (rule wp_mono [OF retain_count_wp], goal_cases)
      case (1 r m2)
      show ?case
      proof (cases r)
        case (Ok k)
        with 1 m1 that show ?thesis
          unfolding Ok on_ok_simps
          by (intro retention_tail_wp [OF that(1) zs]) (use subs lens in \<open>auto simp: keep_spec_def zs_def xs_def\<close>)
      qed (use 1 that subs in \<open>auto simp: keep_spec_def retention_spec_def abs_state_eq xs_def Let_def intro: subseq_order.trans split: pelican_error.splits\<close>)
    qed
  qed
  have age: "wp (bnd (retain_age S B now q (max_age_secs ?P)) (\<lambda>n.
      bnd (retain_count S q (max_messages ?P)) (\<lambda>over. retention_tail (n + over)))) ?Q m1"
    if "q \<in> declared (cont ?s)" "abs m1 = ?s" for m1
    unfolding wp_bnd [of "retain_age S B now q (max_age_secs ?P)"]
  proof (rule wp_mono [OF retain_age_wp], goal_cases)
    case (1 r m2)
    have eq: "view (mgr_db m1) = view (mgr_db m)" using that(2) by (simp add: abs_state_eq)
    show ?case
    proof (cases r)
      case (Ok k)
      show ?thesis
        unfolding Ok on_ok_simps
        by (rule count [OF that(1)]) (use 1 Ok that eq in \<open>auto simp: keep_spec_def ys_def xs_def\<close>)
    qed (use 1 that subs eq in \<open>auto simp: keep_spec_def retention_spec_def xs_def split: pelican_error.splits\<close>)
  qed
  have fault: "faulty \<Longrightarrow> ?Q (Err (Storage e)) m1" if "abs m1 = ?s" for e m1
    using that by (simp add: retention_spec_def Let_def)
  have rest: "wp (if max_age_secs ?P = None \<and> max_messages ?P = None then ret 0
      else bnd (q_open_tree S q) (\<lambda>_. bnd (retain_age S B now q (max_age_secs ?P)) (\<lambda>n.
        bnd (retain_count S q (max_messages ?P)) (\<lambda>over. retention_tail (n + over))))) ?Q m"
    if q: "q \<in> declared (cont ?s)"
  proof (cases "max_age_secs ?P = None \<and> max_messages ?P = None")
    case True
    with q show ?thesis
      by (auto simp: wp_ret retention_spec_def Let_def retained_def retained_age_def retained_count_def abs_state_eq)
  next
    case False
    show ?thesis
      unfolding if_not_P [OF False] wp_bnd [of "q_open_tree S q"] wp_on_db
      by (rule wp_open_tree; unfold on_ok_simps; (rule fault age [OF q])?) (simp_all add: abs_state_eq)
  qed
  show ?thesis
    unfolding apply_retention_def wp_bnd [of "check_declared S q"] wp_bnd [of "read_policy S B q"]
  proof (rule wp_check_declared)
    show "on_ok (\<lambda>_. wp (read_policy S B q) (on_ok (\<lambda>policy. wp (if max_age_secs policy = None \<and> max_messages policy = None then ret 0
      else bnd (q_open_tree S q) (\<lambda>_. bnd (retain_age S B now q (max_age_secs policy)) (\<lambda>n.
        bnd (retain_count S q (max_messages policy)) (\<lambda>over. retention_tail (n + over))))) ?Q) ?Q)) ?Q (Ok ()) m"
      if "q \<in> declared (view (mgr_db m))"
      unfolding on_ok_simps
      by (rule wp_read_policy; unfold on_ok_simps; (rule fault rest [unfolded abs_state_simps])?) (use that in simp_all)
  qed (simp_all add: fault retention_spec_def)
qed

end

end
