(* ===== verification/Queue_Preservation.thy ===== *)
theory Queue_Preservation
  imports Queue_Sweeps
begin

text \<open>
  The representation invariant of \<^verbatim>\<open>Queue_Invariant\<close> is kept by every operation of
  \<^verbatim>\<open>QueueManager\<close>, on every outcome: success, error return and I/O failure at any point of a
  sweep.  Each lemma is proved once, at the level of the specifications.
\<close>


definition wf_state :: "bincode \<Rightarrow> qstate \<Rightarrow> bool" where
  "wf_state B s = wf_store B (cont s) (next_id s)"

definition canon :: "bincode \<Rightarrow> bytes \<Rightarrow> bool" where
  "canon B v \<longleftrightarrow> (\<exists>m. de_message B v = Inr m \<and> ser_message B m = Inr v)"

lemma wf_state_queue:
  assumes "wf_state B s" "q \<in> declared (cont s)"
  shows "plain_name q" "wf_lists B (next_id s) (cont s q) (cont s (inflight_tree_name q))
     (cont s (dlq_tree_name q)) (cont s (scheduled_tree_name q)) (cont s (dedup_tree_name q))"
  using assms by (auto simp: wf_state_def wf_store_def wf_queue_def)

lemma wf_state_update:
  assumes "wf_state B s" "q \<in> declared (cont s)" "next_id s \<le> next_id s'"
    and "\<And>t. t \<notin> trees q \<Longrightarrow> t \<noteq> META_RETENTION_TREE \<Longrightarrow> cont s' t = cont s t"
    and "wf_lists B (next_id s') (cont s' q) (cont s' (inflight_tree_name q))
     (cont s' (dlq_tree_name q)) (cont s' (scheduled_tree_name q)) (cont s' (dedup_tree_name q))"
  shows "wf_state B s'"
  using assms wf_update [of B "cont s" "next_id s" q "next_id s'" "cont s'"]
  by (simp add: wf_state_def wf_queue_def)

lemma wf_state_same: "wf_state B s \<Longrightarrow> cont s' = cont s \<Longrightarrow> next_id s \<le> next_id s' \<Longrightarrow> wf_state B s'"
  by (auto simp: wf_state_def intro: wf_mono)

lemma ack_wf: "ack_spec f q tag s r s' \<Longrightarrow> wf_state B s \<Longrightarrow> wf_state B s'"
  unfolding ack_spec_def Let_def
  by (auto split: outcome.splits pelican_error.splits intro!: wf_state_update [of B s q]
      simp: trees_def wf_state_queue wf_lists_remove)

lemma took_idD: "took_id f n n' \<Longrightarrow> n < n'" "took_id f n n' \<Longrightarrow> n < 2 ^ 64" "took_id f n n' \<Longrightarrow> unat (word_of_nat n :: u64) = n"
  by (auto simp: took_id_def)

lemma wf_enqueue:
  assumes wf: "wf_state B s" and q: "q \<in> declared (cont s)" and id: "took_id f (next_id s) (next_id s')"
    and de: "de_message B b = Inr msg" "ser_message B msg = Inr b" and clk: "0 \<le> sint now"
    and s': "cont s' = enqueue (cont s) q msg now (of_nat (next_id s)) b"
  shows "wf_state B s'"
proof (rule wf_state_update [OF wf q])
  note l = wf_state_queue [OF wf q]
  note l' = wf_lists_mono [OF l(2), of "next_id s'"]
  have lt: "next_id s < next_id s'" using took_idD [OF id] by simp
  show "next_id s \<le> next_id s'" using lt by simp
  show "wf_lists B (next_id s') (cont s' q) (cont s' (inflight_tree_name q))
     (cont s' (dlq_tree_name q)) (cont s' (scheduled_tree_name q)) (cont s' (dedup_tree_name q))"
  proof (cases "due_later msg now")
    case None
    then show ?thesis
      using wf_lists_main_insert [OF l(2) took_idD(3) [OF id] took_idD(1) [OF id] de] l(1)
      by (simp add: s' enqueue_def)
  next
    case (Some at)
    then have "deliver_at msg = Some at" "0 \<le> sint at"
      using clk by (auto simp: due_later_def i64_less_def split: option.splits if_splits)
    then show ?thesis
      using wf_lists_scheduled_insert [OF l' _ de(1) de(2), of "of_nat (next_id s)" at] Some lt took_idD(3) [OF id] l(1)
      by (simp add: s' enqueue_def)
  qed
qed (auto simp: s' enqueue_def trees_def split: option.splits)

lemma wf_dedup_store:
  assumes wf: "wf_state B s" and q: "q \<in> declared (cont s)"
  shows "wf_state B (s\<lparr>cont := dedup_store (cont s) q P msg now\<rparr>)"
  by (rule wf_state_update [OF wf q])
    (use wf_state_queue [OF wf q] in \<open>auto simp: dedup_store_def trees_def wf_lists_dedup_insert split: option.splits\<close>)


lemma publish_wf:
  assumes B: "bincode_codec B" and sp: "publish_spec f B clk q msg s r s'" and wf: "wf_state B s"
    and clk: "0 \<le> sint (clk 1)"
  shows "wf_state B s'"
proof -
  obtain b where ser: "ser_message B msg = Inr b" using bincode_codec.ser_message_total [OF B] by blast
  then have de: "de_message B b = Inr msg" using bincode_codec.message_roundtrip [OF B] by blast
  let ?V1 = "enqueue (cont s) q msg (clk 1) (of_nat (next_id s)) b"
  have enq: "wf_state B (s\<lparr>cont := ?V1, next_id := n', used := u\<rparr>)"
    if "q \<in> declared (cont s)" "took_id f (next_id s) n'" for n' u
    by (rule wf_enqueue [OF wf that(1) _ de ser clk]) (use that(2) in simp_all)
  have decl: "declared ?V1 = declared (cont s)" if "q \<in> declared (cont s)"
    using wf_state_queue(1) [OF wf that] by (simp add: declared_def enqueue_def split: option.splits)
  have stored: "wf_state B (s\<lparr>cont := dedup_store ?V1 q P msg now, next_id := n', used := u\<rparr>)"
    if "q \<in> declared (cont s)" "took_id f (next_id s) n'" for n' u P now
    by (rule wf_state_same [OF wf_dedup_store [OF enq [OF that], of q]]) (use decl that(1) in simp_all)
  have ids: "wf_state B (s\<lparr>next_id := n'\<rparr>)" if "took_id f (next_id s) n'" for n'
    by (rule wf_state_same [OF wf]) (use took_idD(1) [OF that] in simp_all)
  show ?thesis
    using sp wf stored enq ids ser
    unfolding publish_spec_def Let_def
    by (auto split: outcome.splits pelican_error.splits publish_outcome.splits)
qed

lemma consume_wf:
  assumes sp: "consume_spec f B q s r s'" and wf: "wf_state B s"
  shows "wf_state B s'"
proof -
  have "wf_state B (s\<lparr>cont := took_head (cont s) q k v\<rparr>)"
    if q: "q \<in> declared (cont s)" and "cont s q = (k, v) # rest" for k v rest
    by (rule wf_state_update [OF wf q])
      (use wf_lists_consume [OF wf_state_queue(2) [OF wf q], of k v] wf_state_queue(1) [OF wf q] that(2)
        in \<open>auto simp: took_head_def trees_def\<close>)
  then show ?thesis
    using sp wf unfolding consume_spec_def by (auto split: outcome.splits option.splits pelican_error.splits)
qed

lemma nack_wf:
  assumes B: "bincode_codec B" and sp: "nack_spec f B q tag s r s'" and wf: "wf_state B s"
  shows "wf_state B s'"
proof -
  have put: "wf_state B (s\<lparr>cont := put_back (cont s) q (reject_tree P q (bump msg)) old
      (encode_key (priority msg) (of_nat (next_id s))) b, next_id := n'\<rparr>)"
    if q: "q \<in> declared (cont s)" and id: "took_id f (next_id s) n'" and ser: "ser_message B (bump msg) = Inr b"
    for P msg b n' old
  proof -
    have de: "de_message B b = Inr (bump msg)" using bincode_codec.message_roundtrip [OF B ser] .
    have pr: "priority (bump msg) = priority msg" by (simp add: bump_def)
    note l = wf_state_queue [OF wf q]
    have lt: "next_id s < n'" "unat (of_nat (next_id s) :: u64) = next_id s" using took_idD [OF id] by simp_all
    note rm = wf_lists_remove(2) [OF l(2), of old]
    show ?thesis
      by (rule wf_state_update [OF wf q])
        (use lt l(1) wf_lists_main_insert [OF rm lt(2,1) de ser] 
          wf_lists_dlq_insert [OF wf_lists_mono [OF rm, of n'] _ de ser, of "of_nat (next_id s)"] pr
         in \<open>auto simp: put_back_def trees_def reject_tree_def\<close>)
  qed
  have ids: "wf_state B (s\<lparr>next_id := n'\<rparr>)" if "took_id f (next_id s) n'" for n'
    by (rule wf_state_same [OF wf]) (use took_idD(1) [OF that] in simp_all)
  show ?thesis
    using sp wf put ids unfolding nack_spec_def Let_def
    by (auto split: outcome.splits pelican_error.splits)
qed

lemma declare_wf:
  assumes sp: "declare_spec f B q P s r s'" and wf: "wf_state B s" and q: "plain_name q" "utf8_ok q"
  shows "wf_state B s'"
proof -
  have decl: "wf_state B s1" if nd: "q \<notin> declared (cont s)"
      "cont s1 META_QUEUES_TREE = ot_insert q [] (cont s META_QUEUES_TREE)" "next_id s1 = next_id s"
      "\<And>t. t \<noteq> META_QUEUES_TREE \<Longrightarrow> t \<noteq> META_RETENTION_TREE \<Longrightarrow> cont s1 t = cont s t" for s1
  proof -
    have d: "declared (cont s1) = insert q (declared (cont s))" using nd(2) by (simp add: declared_def)
    have same: "cont s1 t = cont s t" if "plain_name p" "t \<in> trees p" for p t
      using nd(4) that by (metis trees_meta)
    have eq: "wf_queue B (cont s1) n p = wf_queue B (cont s) n p" if "plain_name p" for p n
      by (rule wf_queue_frame) (use same that in blast)
    have new: "wf_queue B (cont s) (next_id s) q"
      using wf q nd(1) by (simp add: wf_state_def wf_store_def wf_queue_def trees_def)
    show ?thesis
      using wf q d eq new same nd(1,3) unfolding wf_state_def wf_store_def by auto
  qed
  then show ?thesis
    using sp wf unfolding declare_spec_def Let_def
    by (auto split: outcome.splits pelican_error.splits)
qed

lemma requeue_one_wf:
  assumes wf: "wf_state B s" and q: "q \<in> declared (cont s)" and src: "src = None \<or> src = Some (scheduled_tree_name q)"
    and id: "took_id f (next_id s) n'" and de: "canon B (snd kv)"
  shows "wf_state B (s\<lparr>cont := requeue_one B src q kv (next_id s) (cont s), next_id := n'\<rparr>)"
proof -
  note l = wf_state_queue [OF wf q]
  obtain msg where msg: "de_message B (snd kv) = Inr msg" "ser_message B msg = Inr (snd kv)"
    using de by (auto simp: canon_def)
  note ins = wf_lists_main_insert [OF _ took_idD(3,1) [OF id] msg]
  show ?thesis
    by (rule wf_state_update [OF wf q])
      (use src took_idD [OF id] l(1) ins [OF l(2)] ins [OF wf_lists_remove(3) [OF l(2)]] msg
        in \<open>auto simp: requeue_one_def Let_def trees_def\<close>)
qed

lemma requeue_one_declared:
  "plain_name q \<Longrightarrow> src = None \<or> src = Some (scheduled_tree_name q) \<Longrightarrow>
     declared (requeue_one B src q kv i V) = declared V"
  by (auto simp: requeue_one_def Let_def declared_def)

lemma requeues_wf:
  assumes "requeues f B src q xs s s'" "wf_state B s" "q \<in> declared (cont s)" "\<forall>kv \<in> set xs. canon B (snd kv)"
    and src: "src = None \<or> src = Some (scheduled_tree_name q)"
  shows "wf_state B s' \<and> declared (cont s') = declared (cont s)"
  using assms(1-4)
proof (induction rule: requeues.induct)
  case (requeues_Cons s n' kv xs s')
  then show ?case
    using requeue_one_wf [OF requeues_Cons.prems(1,2) src requeues_Cons.hyps(1), of kv]
      requeue_one_declared [OF wf_state_queue(1) [OF requeues_Cons.prems(1,2)] src, of B kv "next_id s" "cont s"]
    by simp
qed simp

lemma requeue_fails_wf:
  assumes "requeue_fails f B src q xs s e s'" "wf_state B s" "q \<in> declared (cont s)"
      "\<forall>kv \<in> set xs. canon B (snd kv)"
    and src: "src = None \<or> src = Some (scheduled_tree_name q)"
  shows "wf_state B s' \<and> declared (cont s') = declared (cont s)"
  using assms(1-4)
proof (induction rule: requeue_fails.induct)
  case (fails_commit s n' kv xs e)
  then show ?case using wf_state_same [of B s "s\<lparr>next_id := n'\<rparr>"] took_idD(1) [OF fails_commit.hyps(2)] by simp
next
  case (fails_later s n' kv xs e s')
  then show ?case
    using requeue_one_wf [OF fails_later.prems(1,2) src fails_later.hyps(1), of kv]
      requeue_one_declared [OF wf_state_queue(1) [OF fails_later.prems(1,2)] src, of B kv "next_id s" "cont s"]
    by simp
qed simp_all

lemma wf_canon:
  assumes wf: "wf_state B s" and q: "q \<in> declared (cont s)"
    and kv: "kv \<in> set (cont s q) \<or> kv \<in> set (cont s (inflight_tree_name q)) \<or>
      kv \<in> set (cont s (dlq_tree_name q)) \<or> kv \<in> set (cont s (scheduled_tree_name q))"
  shows "canon B (snd kv)"
proof -
  have "main_entry B (next_id s) kv \<or> inflight_entry B (next_id s) kv \<or> scheduled_entry B (next_id s) kv"
    using wf_state_queue(2) [OF wf q] kv by (auto simp: wf_lists_def)
  then show ?thesis
    by (cases kv) (auto simp: canon_def elim!: main_entryE inflight_entryE scheduled_entryE)
qed

lemma promote_wf:
  assumes sp: "promote_spec f B now q s r s'" and wf: "wf_state B s"
  shows "wf_state B s'"
proof -
  let ?due = "takeWhile (is_due now) (cont s (scheduled_tree_name q))"
  have "\<forall>kv \<in> set ?due. canon B (snd kv)" if "q \<in> declared (cont s)"
    using wf_canon [OF wf that] set_takeWhileD by fast
  then show ?thesis
    using sp wf unfolding promote_spec_def Let_def
    by (auto split: outcome.splits pelican_error.splits dest: requeues_wf requeue_fails_wf)
qed

lemma wf_lists_subset:
  assumes wf: "wf_lists B n main infl dlq sched dedup"
  shows "set main' \<subseteq> set main \<Longrightarrow> wf_lists B n main' infl dlq sched dedup"
    and "set infl' \<subseteq> set infl \<Longrightarrow> wf_lists B n main infl' dlq sched dedup"
proof -
  have inj: "inj_on key_id (set (keys main))"
    and disj: "key_id ` set (keys main) \<inter> from_be_bytes ` set (keys infl) = {}"
    using wf by (simp_all add: wf_lists_def)
  show "wf_lists B n main' infl dlq sched dedup" if sub: "set main' \<subseteq> set main"
  proof -
    have k: "set (keys main') \<subseteq> set (keys main)" using sub by auto
    have "\<forall>kv \<in> set main'. main_entry B n kv" using wf sub by (auto simp: wf_lists_def)
    moreover have "key_id ` set (keys main') \<inter> from_be_bytes ` set (keys infl) = {}"
      using disj image_mono [OF k, of key_id] by blast
    ultimately show ?thesis
      using wf inj_on_subset [OF inj k] unfolding wf_lists_def by simp
  qed
  show "wf_lists B n main infl' dlq sched dedup" if sub: "set infl' \<subseteq> set infl"
  proof -
    have k: "set (keys infl') \<subseteq> set (keys infl)" using sub by auto
    have "\<forall>kv \<in> set infl'. inflight_entry B n kv" using wf sub by (auto simp: wf_lists_def)
    moreover have "key_id ` set (keys main) \<inter> from_be_bytes ` set (keys infl') = {}"
      using disj image_mono [OF k, of from_be_bytes] by blast
    ultimately show ?thesis using wf inj unfolding wf_lists_def by simp
  qed
qed

lemma retained_subset: "set (retained B now P xs) \<subseteq> set xs"
  by (auto simp: retained_def retained_count_def retained_age_def split: option.splits dest: in_set_dropD)

lemma retention_wf:
  assumes sp: "retention_spec f B now q s r s'" and wf: "wf_state B s"
  shows "wf_state B s'"
proof -
  have sub: "wf_state B s1" if q: "q \<in> declared (cont s)" and "set ys \<subseteq> set (cont s q)"
      "cont s1 = (cont s)(q := ys)" "next_id s1 = next_id s" for ys s1
    by (rule wf_state_update [OF wf q])
      (use that wf_state_queue [OF wf q] wf_lists_subset(1) [OF wf_state_queue(2) [OF wf q], of ys]
        in \<open>auto simp: trees_def\<close>)
  show ?thesis
  proof (cases r)
    case (Ok n)
    with sp obtain u where "q \<in> declared (cont s)"
      "s' = s\<lparr>cont := (cont s)(q := retained B now (policy_in B (cont s) q) (cont s q)), used := u\<rparr>"
      by (auto simp: retention_spec_def Let_def)
    then show ?thesis using sub [OF _ retained_subset] by simp
  next
    case (Err e)
    then consider "s' = s" | "q \<in> declared (cont s)" "subseq (cont s' q) (cont s q)" "s' = s\<lparr>cont := (cont s)(q := cont s' q)\<rparr>"
      using sp by (cases e) (auto simp: retention_spec_def Let_def)
    then show ?thesis
    proof cases
      case 2
      show ?thesis using sub [OF 2(1) subseq_subset [OF 2(2)], of s'] arg_cong [OF 2(3), of cont] arg_cong [OF 2(3), of next_id] by simp
    qed (use wf in simp)
  qed (use sp in \<open>simp_all add: retention_spec_def Let_def\<close>)
qed

lemma requeues_next: "requeues f B src q xs s s' \<Longrightarrow> next_id s \<le> next_id s'"
  by (induction rule: requeues.induct) (auto dest: took_idD(1))

lemma recovered_wf:
  assumes "recovered f B q es ks s s'" "wf_state B s" "q \<in> declared (cont s)"
    "subseq es (cont s (inflight_tree_name q))"
  shows "wf_state B s' \<and> declared (cont s') = declared (cont s)"
proof -
  from assms(1) obtain s1 where r: "requeues f B None q es s s1"
    and s': "s' = s1\<lparr>cont := (cont s1)(inflight_tree_name q := without ks (cont s1 (inflight_tree_name q)))\<rparr>"
    by (auto simp: recovered_def)
  have "\<forall>kv \<in> set es. canon B (snd kv)"
    using wf_canon [OF assms(2,3)] subseq_subset [OF assms(4)] by fast
  from requeues_wf [OF r assms(2,3) this] have wf1: "wf_state B s1" and d1: "declared (cont s1) = declared (cont s)" by simp_all
  with assms(3) have q: "q \<in> declared (cont s1)" by simp
  have "wf_state B s'"
    by (rule wf_state_update [OF wf1 q])
      (use wf_state_queue [OF wf1 q] in \<open>auto simp: s' trees_def without_def intro: wf_lists_subset(2)\<close>)
  moreover have "declared (cont s') = declared (cont s)"
    using d1 by (simp add: s' declared_def)
  ultimately show ?thesis by simp
qed

lemma recover_queue_wf:
  assumes sp: "recover_queue_spec f B q s r s'" and wf: "wf_state B s" and q: "q \<in> declared (cont s)"
  shows "wf_state B s' \<and> declared (cont s') = declared (cont s)"
proof -
  have "\<forall>kv \<in> set es. canon B (snd kv)" if "subseq es (cont s (inflight_tree_name q))" for es
    using wf_canon [OF wf q] subseq_subset [OF that] by fast
  then show ?thesis
    using sp recovered_wf [OF _ wf q] requeue_fails_wf [OF _ wf q]
    by (cases r) (auto simp: recover_queue_spec_def)
qed

context engine
begin

lemma recover_inflight_wf:
  assumes "wf_state B (abs m)"
  shows "wp (recover_inflight S B) (\<lambda>_ m'. wf_state B (abs m') \<and> declared (cont (abs m')) = declared (cont (abs m))) m"
proof -
  let ?I = "\<lambda>names m'. set names \<subseteq> declared (cont (abs m)) \<and> wf_state B (abs m') \<and>
    declared (cont (abs m')) = declared (cont (abs m))"
  have "wp (for_each (recover_queue S B) names)
     (\<lambda>_ m'. wf_state B (abs m') \<and> declared (cont (abs m')) = declared (cont (abs m))) m"
    if "set names \<subseteq> declared (cont (abs m))" for names
  proof (rule wp_for_each [where I = ?I])
    fix q names m1 assume I: "?I (q # names) m1"
    show "wp (recover_queue S B q) (on_ok (\<lambda>_. ?I names)
       (\<lambda>_ m'. wf_state B (abs m') \<and> declared (cont (abs m')) = declared (cont (abs m)))) m1"
      by (rule wp_mono [OF recover_queue_refines])
        (use I in \<open>auto simp: on_ok_def simp del: abs_state_simps dest: recover_queue_wf split: outcome.splits\<close>)
  qed (use assms that in auto)
  then show ?thesis
    unfolding recover_inflight_def wp_bnd
    by (intro wp_mono [OF list_queues_wp]) (auto simp: assms split: outcome.splits)
qed

end
end
