(* ===== verification/Queue_Conservation.thy ===== *)
theory Queue_Conservation
  imports Queue_Preservation
begin

text \<open>
  Where the messages of a queue are: \<^verbatim>\<open>stored\<close> is the multiset of the encoded messages of a queue in
  its main, in-flight, dead-letter and scheduled trees.  The lemmas say how each specification
  changes it.  Conservation of messages and the byte accounting rest on them.
\<close>


definition stored :: "contents \<Rightarrow> string \<Rightarrow> bytes multiset" where
  "stored V q = mset (vals (V q)) + mset (vals (V (inflight_tree_name q))) +
     mset (vals (V (dlq_tree_name q))) + mset (vals (V (scheduled_tree_name q)))"

definition sorted_state :: "qstate \<Rightarrow> bool" where
  "sorted_state s \<longleftrightarrow> (\<forall>t. ot_sorted (cont s t))"

text \<open>Only the trees of \<open>q\<close> and the policies differ.\<close>

definition only :: "string \<Rightarrow> qstate \<Rightarrow> qstate \<Rightarrow> bool" where
  "only q s s' \<longleftrightarrow> (\<forall>t. t \<notin> trees q \<longrightarrow> t \<noteq> META_RETENTION_TREE \<longrightarrow> cont s' t = cont s t)"

lemma sorted_stateD [simp]: "sorted_state s \<Longrightarrow> ot_sorted (cont s t)"
  by (simp add: sorted_state_def)

lemma stored_other:
  assumes "only q s s'" "plain_name q" "plain_name p" "p \<noteq> q"
  shows "stored (cont s') p = stored (cont s) p"
proof -
  have "cont s' t = cont s t" if "t \<in> trees p" for t
    using assms that trees_disjoint [of p q t] trees_meta [of p] unfolding only_def by metis
  then show ?thesis by (simp add: stored_def trees_def)
qed

lemma wf_fresh:
  assumes "wf_state B s" "q \<in> declared (cont s)" "took_id f (next_id s) n'"
  shows "encode_key p (of_nat (next_id s)) \<notin> set (keys (cont s q))"
    and "encode_key p (of_nat (next_id s)) \<notin> set (keys (cont s (dlq_tree_name q)))"
    and "encode_scheduled_key a (of_nat (next_id s)) \<notin> set (keys (cont s (scheduled_tree_name q)))"
  using wf_state_queue(2) [OF assms(1,2)] took_idD(3) [OF assms(3)] unfolding wf_lists_def
  by (metis fresh_main_key fresh_scheduled_key order_refl)+

lemma ack_stored:
  assumes "ack_spec f q tag s (Ok u) s'" "wf_state B s" "sorted_state s"
  shows "only q s s'" "\<exists>v. map_of (cont s (inflight_tree_name q)) (to_be_bytes (tag_u64 tag)) = Some v \<and>
     stored (cont s) q = add_mset v (stored (cont s') q)"
proof -
  from assms(1) obtain v where v: "q \<in> declared (cont s)"
      "map_of (cont s (inflight_tree_name q)) (to_be_bytes (tag_u64 tag)) = Some v"
      "cont s' = (cont s)(inflight_tree_name q := ot_remove (to_be_bytes (tag_u64 tag)) (cont s (inflight_tree_name q)))"
    by (auto simp: ack_spec_def Let_def)
  show "only q s s'" using v(3) by (simp add: only_def trees_def)
  show "\<exists>v. map_of (cont s (inflight_tree_name q)) (to_be_bytes (tag_u64 tag)) = Some v \<and>
     stored (cont s) q = add_mset v (stored (cont s') q)"
    using v mset_vals_remove [OF _ v(2)] assms(3) wf_state_queue(1) [OF assms(2) v(1)]
    by (auto simp: stored_def simp del: mset_map)
qed

lemma enqueue_stored:
  assumes "wf_state B s" "q \<in> declared (cont s)" "took_id f (next_id s) n'"
  shows "stored (enqueue (cont s) q msg now (of_nat (next_id s)) b) q = add_mset b (stored (cont s) q)"
  using wf_fresh [OF assms] wf_state_queue(1) [OF assms(1,2)]
  by (auto simp: stored_def enqueue_def mset_vals_insert simp del: set_map mset_map split: option.splits)

lemma dedup_store_stored: "plain_name q \<Longrightarrow> stored (dedup_store V q P msg now) q = stored V q"
  by (auto simp: stored_def dedup_store_def split: option.splits)

lemma took_head_stored:
  assumes wf: "wf_state B s" and st: "sorted_state s" and q: "q \<in> declared (cont s)" and hd: "cont s q = (k, v) # rest"
  shows "stored (took_head (cont s) q k v) q = stored (cont s) q"
proof -
  note l = wf_state_queue [OF wf q]
  have "main_entry B (next_id s) (k, v)" using l(2) hd by (auto simp: wf_lists_def)
  then obtain i and m :: message where k: "k = encode_key (priority m) i" by (rule main_entryE)
  have "to_be_bytes i \<notin> set (keys (cont s (inflight_tree_name q)))"
  proof
    assume "to_be_bytes i \<in> set (keys (cont s (inflight_tree_name q)))"
    then have "i \<in> from_be_bytes ` set (keys (cont s (inflight_tree_name q)))"
      by (metis image_eqI to_be_bytes_64(1))
    moreover have "i \<in> key_id ` set (keys (cont s q))" using hd k by (simp add: rev_image_eqI)
    ultimately show False using l(2) unfolding wf_lists_def by blast
  qed
  moreover have "mset (vals (cont s q)) = add_mset v (mset (vals (ot_remove k (cont s q))))"
    by (rule mset_vals_remove) (use sorted_stateD [OF st, of q] hd in simp_all)
  ultimately show ?thesis
    using l(1) by (simp add: stored_def took_head_def mset_vals_insert k del: set_map mset_map)
qed

lemma put_back_stored:
  assumes wf: "wf_state B s" and st: "sorted_state s" and q: "q \<in> declared (cont s)"
    and id: "took_id f (next_id s) n'" and v: "map_of (cont s (inflight_tree_name q)) old = Some v"
  shows "add_mset v (stored (put_back (cont s) q (reject_tree P q msg) old (encode_key p (of_nat (next_id s))) b) q)
     = add_mset b (stored (cont s) q)"
proof -
  have "mset (vals (cont s (inflight_tree_name q))) = add_mset v (mset (vals (ot_remove old (cont s (inflight_tree_name q)))))"
    by (rule mset_vals_remove [OF _ v]) (use st in simp)
  then show ?thesis
    using wf_fresh [OF wf q id] wf_state_queue(1) [OF wf q]
    by (simp add: stored_def put_back_def reject_tree_def mset_vals_insert del: set_map mset_map)
qed


lemma sorted_requeue_one: "sorted_state s \<Longrightarrow> sorted_state (s\<lparr>cont := requeue_one B src q kv i (cont s), next_id := n'\<rparr>)"
  by (auto simp: sorted_state_def requeue_one_def Let_def split: option.splits)

lemma requeue_one_stored:
  assumes wf: "wf_state B s" and st: "sorted_state s" and q: "q \<in> declared (cont s)" and id: "took_id f (next_id s) n'"
  shows "stored (requeue_one B None q kv (next_id s) (cont s)) q = add_mset (snd kv) (stored (cont s) q)"
    and "map_of (cont s (scheduled_tree_name q)) (fst kv) = Some (snd kv) \<Longrightarrow>
      stored (requeue_one B (Some (scheduled_tree_name q)) q kv (next_id s) (cont s)) q = stored (cont s) q"
proof -
  note l = wf_state_queue [OF wf q]
  note fresh = wf_fresh [OF wf q id]
  show "stored (requeue_one B None q kv (next_id s) (cont s)) q = add_mset (snd kv) (stored (cont s) q)"
    using l(1) fresh by (simp add: stored_def requeue_one_def Let_def mset_vals_insert del: set_map mset_map)
  assume "map_of (cont s (scheduled_tree_name q)) (fst kv) = Some (snd kv)"
  from mset_vals_remove [OF sorted_stateD [OF st] this]
  show "stored (requeue_one B (Some (scheduled_tree_name q)) q kv (next_id s) (cont s)) q = stored (cont s) q"
    using l(1) fresh by (simp add: stored_def requeue_one_def Let_def mset_vals_insert del: set_map mset_map)
qed

lemma requeue_one_only: "src = None \<or> src = Some (scheduled_tree_name q) \<Longrightarrow>
    only q s (s\<lparr>cont := requeue_one B src q kv i (cont s), next_id := n'\<rparr>)"
  by (auto simp: only_def requeue_one_def trees_def Let_def)

lemma only_trans: "only q s s1 \<Longrightarrow> only q s1 s' \<Longrightarrow> only q s s'"
  by (simp add: only_def)

lemma requeues_only:
  "requeues f B src q xs s s' \<Longrightarrow> src = None \<or> src = Some (scheduled_tree_name q) \<Longrightarrow> only q s s'"
proof (induction rule: requeues.induct)
  case (requeues_Cons s n' kv xs s')
  then show ?case using only_trans [OF requeue_one_only] by blast
qed (simp add: only_def)

lemma requeue_fails_only:
  "requeue_fails f B src q xs s e s' \<Longrightarrow> src = None \<or> src = Some (scheduled_tree_name q) \<Longrightarrow> only q s s'"
proof (induction rule: requeue_fails.induct)
  case (fails_later s n' kv xs e s')
  then show ?case using only_trans [OF requeue_one_only] by blast
qed (simp_all add: only_def)

text \<open>The sweeps: how the stored messages and the source tree change.\<close>

lemma requeues_None_stored:
  assumes "requeues f B None q xs s s'" "\<forall>kv \<in> set xs. canon B (snd kv)" "wf_state B s" "sorted_state s" "q \<in> declared (cont s)"
  shows "stored (cont s') q = stored (cont s) q + mset (vals xs) \<and> sorted_state s' \<and>
    cont s' (inflight_tree_name q) = cont s (inflight_tree_name q)"
  using assms
proof (induction rule: requeues.induct)
  case (requeues_Cons s n' kv xs s')
  note prem = requeues_Cons.prems(2-)
  have cn: "canon B (snd kv)" "\<forall>kv \<in> set xs. canon B (snd kv)" using requeues_Cons.prems(1) by simp_all
  let ?s1 = "s\<lparr>cont := requeue_one B None q kv (next_id s) (cont s), next_id := n'\<rparr>"
  have pl: "plain_name q" using wf_state_queue(1) [OF prem(1,3)] .
  have "wf_state B ?s1" "q \<in> declared (cont ?s1)" "sorted_state ?s1"
    using requeue_one_wf [OF prem(1,3) _ requeues_Cons.hyps(1) cn(1)] requeue_one_declared [OF pl] prem(3)
      sorted_requeue_one [OF prem(2)] by simp_all
  from requeues_Cons.IH [OF cn(2) this(1,3,2)] requeue_one_stored(1) [OF prem requeues_Cons.hyps(1)]
  moreover have "cont ?s1 (inflight_tree_name q) = cont s (inflight_tree_name q)"
    using pl by (simp add: requeue_one_def Let_def)
  ultimately show ?case by simp
qed simp

lemma requeues_sched_stored:
  assumes "requeues f B (Some (scheduled_tree_name q)) q xs s s'" "\<forall>kv \<in> set xs. canon B (snd kv)" "wf_state B s" "sorted_state s" "q \<in> declared (cont s)"
    "cont s (scheduled_tree_name q) = xs @ ys"
  shows "stored (cont s') q = stored (cont s) q \<and> sorted_state s' \<and> cont s' (scheduled_tree_name q) = ys"
  using assms
proof (induction rule: requeues.induct)
  case (requeues_Cons s n' kv xs s')
  note prem = requeues_Cons.prems(2-)
  have cn: "canon B (snd kv)" "\<forall>kv \<in> set xs. canon B (snd kv)" using requeues_Cons.prems(1) by simp_all
  let ?t = "scheduled_tree_name q"
  let ?s1 = "s\<lparr>cont := requeue_one B (Some ?t) q kv (next_id s) (cont s), next_id := n'\<rparr>"
  have pl: "plain_name q" using wf_state_queue(1) [OF prem(1,3)] .
  have srt: "ot_sorted ((fst kv, snd kv) # xs @ ys)" using sorted_stateD [OF prem(2), of ?t] prem(4) by simp
  have tail: "cont ?s1 ?t = xs @ ys"
    using pl prem(4) ot_remove_head [OF srt] by (simp add: requeue_one_def Let_def)
  have "wf_state B ?s1" "q \<in> declared (cont ?s1)" "sorted_state ?s1"
    using requeue_one_wf [OF prem(1,3) _ requeues_Cons.hyps(1) cn(1)] requeue_one_declared [OF pl] prem(3)
      sorted_requeue_one [OF prem(2)] by simp_all
  from requeues_Cons.IH [OF cn(2) this(1,3,2) tail] requeue_one_stored(2) [OF prem(1-3) requeues_Cons.hyps(1), of kv]
  show ?case using prem(4) by simp
qed simp

lemma requeue_fails_sched_stored:
  assumes "requeue_fails f B (Some (scheduled_tree_name q)) q xs s e s'" "\<forall>kv \<in> set xs. canon B (snd kv)" "wf_state B s" "sorted_state s"
    "q \<in> declared (cont s)" "cont s (scheduled_tree_name q) = xs @ ys"
  shows "stored (cont s') q = stored (cont s) q"
  using assms
proof (induction rule: requeue_fails.induct)
  case (fails_later s n' kv xs e s')
  note prem = fails_later.prems(2-)
  have cn: "canon B (snd kv)" "\<forall>kv \<in> set xs. canon B (snd kv)" using fails_later.prems(1) by simp_all
  let ?t = "scheduled_tree_name q"
  let ?s1 = "s\<lparr>cont := requeue_one B (Some ?t) q kv (next_id s) (cont s), next_id := n'\<rparr>"
  have pl: "plain_name q" using wf_state_queue(1) [OF prem(1,3)] .
  have srt: "ot_sorted ((fst kv, snd kv) # xs @ ys)" using sorted_stateD [OF prem(2), of ?t] prem(4) by simp
  have tail: "cont ?s1 ?t = xs @ ys"
    using pl prem(4) ot_remove_head [OF srt] by (simp add: requeue_one_def Let_def)
  have "wf_state B ?s1" "q \<in> declared (cont ?s1)" "sorted_state ?s1"
    using requeue_one_wf [OF prem(1,3) _ fails_later.hyps(1) cn(1)] requeue_one_declared [OF pl] prem(3)
      sorted_requeue_one [OF prem(2)] by simp_all
  from fails_later.IH [OF cn(2) this(1,3,2) tail] requeue_one_stored(2) [OF prem(1-3) fails_later.hyps(1), of kv]
  show ?case using prem(4) by simp
qed simp_all

lemma requeue_fails_None_stored:
  assumes "requeue_fails f B None q xs s e s'" "\<forall>kv \<in> set xs. canon B (snd kv)" "wf_state B s" "sorted_state s" "q \<in> declared (cont s)"
  shows "stored (cont s) q \<subseteq># stored (cont s') q"
  using assms
proof (induction rule: requeue_fails.induct)
  case (fails_later s n' kv xs e s')
  note prem = fails_later.prems(2-)
  have cn: "canon B (snd kv)" "\<forall>kv \<in> set xs. canon B (snd kv)" using fails_later.prems(1) by simp_all
  let ?s1 = "s\<lparr>cont := requeue_one B None q kv (next_id s) (cont s), next_id := n'\<rparr>"
  have pl: "plain_name q" using wf_state_queue(1) [OF prem(1,3)] .
  have "wf_state B ?s1" "q \<in> declared (cont ?s1)" "sorted_state ?s1"
    using requeue_one_wf [OF prem(1,3) _ fails_later.hyps(1) cn(1)] requeue_one_declared [OF pl] prem(3)
      sorted_requeue_one [OF prem(2)] by simp_all
  from fails_later.IH [OF cn(2) this(1,3,2)] requeue_one_stored(1) [OF prem fails_later.hyps(1)]
  show ?case by (auto dest: mset_subset_eq_insertD subset_mset.less_imp_le)
qed simp_all

lemma distinct_mset_subset:
  assumes "distinct xs" "set xs \<subseteq> set ys"
  shows "mset xs \<subseteq># mset ys"
proof (rule mset_subset_eqI)
  fix a
  show "count (mset xs) a \<le> count (mset ys) a"
    using assms by (cases "a \<in> set xs") (auto simp: distinct_count_atmost_1 Suc_le_eq)
qed

lemma without_covered:
  assumes "distinct (keys xs)" "subseq es xs" "set ks \<subseteq> set (keys es)"
  shows "mset (vals xs) \<subseteq># mset (vals (without ks xs)) + mset (vals es)"
proof -
  let ?rm = "filter (\<lambda>p. fst p \<in> set ks) xs"
  have es: "set es \<subseteq> set xs" using subseq_subset [OF assms(2)] .
  have d: "distinct xs" using assms(1) by (simp add: distinct_map)
  have "set ?rm \<subseteq> set es"
  proof
    fix p assume p: "p \<in> set ?rm"
    then obtain e where e: "e \<in> set es" "fst e = fst p" using assms(3) by fastforce
    with es p assms(1) have "e = p" by (auto simp: distinct_map inj_on_def)
    with e show "p \<in> set es" by simp
  qed
  then have "mset ?rm \<subseteq># mset es"
    by (intro distinct_mset_subset) (use d in simp_all)
  then have sub: "image_mset snd (mset ?rm) \<subseteq># image_mset snd (mset es)" by (rule image_mset_subseteq_mono)
  have "mset xs = mset (without ks xs) + mset ?rm"
    unfolding without_def mset_filter by (subst add.commute) (rule multiset_partition)
  from arg_cong [OF this, of "image_mset snd"] have part: "mset (vals xs) =
      mset (vals (without ks xs)) + image_mset snd (mset ?rm)" by (simp only: mset_map image_mset_union)
  show ?thesis
    unfolding part by (rule subset_mset.add_left_mono) (use sub in \<open>simp only: mset_map\<close>)
qed

lemma recovered_stored:
  assumes "recovered f B q es ks s s'" "wf_state B s" "sorted_state s" "q \<in> declared (cont s)"
    "subseq es (cont s (inflight_tree_name q))" "set ks \<subseteq> set (keys es)"
  shows "only q s s'" "sorted_state s'" "stored (cont s) q \<subseteq># stored (cont s') q"
    "es = cont s (inflight_tree_name q) \<Longrightarrow> ks = keys es \<Longrightarrow>
       stored (cont s') q = stored (cont s) q \<and> cont s' (inflight_tree_name q) = []"
proof -
  let ?i = "inflight_tree_name q"
  from assms(1) obtain s1 where r: "requeues f B None q es s s1"
    and s': "s' = s1\<lparr>cont := (cont s1)(?i := without ks (cont s1 ?i))\<rparr>"
    by (auto simp: recovered_def)
  note pl = wf_state_queue(1) [OF assms(2,4)]
  have "\<forall>kv \<in> set es. canon B (snd kv)"
    using wf_canon [OF assms(2,4)] subseq_subset [OF assms(5)] by fast
  note st = requeues_None_stored [OF r this assms(2-4)]
  show "only q s s'" using requeues_only [OF r] by (simp add: s' only_def trees_def)
  show "sorted_state s'" using st assms(3) by (auto simp: s' sorted_state_def without_def)
  have d: "distinct (keys (cont s ?i))" using sorted_stateD [OF assms(3)] by (rule ot_sorted_distinct)
  have e: "stored (cont s') q + mset (vals (cont s ?i)) =
      stored (cont s) q + (mset (vals (without ks (cont s ?i))) + mset (vals es))"
    using st [THEN conjunct1, unfolded stored_def st [THEN conjunct2, THEN conjunct2]] st pl
    by (simp add: s' stored_def ac_simps del: mset_map)
  from without_covered [OF d assms(5,6)] obtain X
    where X: "mset (vals (without ks (cont s ?i))) + mset (vals es) = mset (vals (cont s ?i)) + X"
    by (metis subset_mset.le_iff_add)
  have "stored (cont s') q + mset (vals (cont s ?i)) = (stored (cont s) q + X) + mset (vals (cont s ?i))"
    unfolding e X by (simp only: ac_simps)
  then have "stored (cont s') q = stored (cont s) q + X" by (simp only: add_right_cancel)
  then show "stored (cont s) q \<subseteq># stored (cont s') q" by simp
  assume "es = cont s ?i" "ks = keys es"
  with e st show "stored (cont s') q = stored (cont s) q \<and> cont s' ?i = []" by (simp add: s')
qed

end
