(* ===== verification/Queue_Runs.thy ===== *)
theory Queue_Runs
  imports Queue_Conservation
begin

text \<open>
  Runs of the queue manager: any sequence of calls and restarts from an empty database, each with
  any outcome the database allows.  Every reachable state satisfies the invariant, no reachable
  call panics or loops, and messages leave a queue only by \<^verbatim>\<open>ack\<close> and by retention.
\<close>

section \<open>Calls and runs\<close>


datatype call =
    CDeclare string retention_policy
  | CPublish "nat \<Rightarrow> i64" string message
  | CConsume string
  | CAck string delivery_tag
  | CNack string delivery_tag
  | CPromote i64 string
  | CRetain i64 string

definition discard :: "('db, 'a) mprog \<Rightarrow> ('db, unit) mprog" where
  "discard c = bnd c (\<lambda>_. ret ())"

fun call_prog :: "'db sled \<Rightarrow> bincode \<Rightarrow> call \<Rightarrow> ('db, unit) mprog" where
  "call_prog S B (CDeclare q P) = declare_queue_with_retention S B q P"
| "call_prog S B (CPublish clk q msg) = discard (publish S B clk q msg)"
| "call_prog S B (CConsume q) = discard (consume S B q)"
| "call_prog S B (CAck q tag) = ack S q tag"
| "call_prog S B (CNack q tag) = nack S B q tag"
| "call_prog S B (CPromote now q) = discard (promote_scheduled S B now q)"
| "call_prog S B (CRetain now q) = discard (apply_retention S B now q)"

fun legal :: "call \<Rightarrow> bool" where
  "legal (CDeclare q P) = (plain_name q \<and> utf8_ok q)"
| "legal (CPublish clk q msg) = (0 \<le> sint (clk 1))"
| "legal _ = True"

inductive reach :: "'db sled \<Rightarrow> bincode \<Rightarrow> ('db \<Rightarrow> contents) \<Rightarrow> 'db manager \<Rightarrow> bool" for S B view where
  reach_fresh: "\<forall>t. view (mgr_db m) t = [] \<Longrightarrow> reach S B view m"
| reach_call: "reach S B view m \<Longrightarrow> legal c \<Longrightarrow> call_prog S B c m = (r, m') \<Longrightarrow> reach S B view m'"
| reach_restart: "reach S B view m \<Longrightarrow> open_manager S B (Inr (mgr_db m)) mx = (r, Some m') \<Longrightarrow> reach S B view m'"

definition msg_ids :: "bincode \<Rightarrow> contents \<Rightarrow> string \<Rightarrow> uuid multiset" where
  "msg_ids B V q = image_mset (\<lambda>v. msg_id (projr (de_message B v))) (stored V q)"

definition keeps :: "bincode \<Rightarrow> qstate \<Rightarrow> qstate \<Rightarrow> bool" where
  "keeps B s s' \<longleftrightarrow> wf_state B s' \<and> declared (cont s') = declared (cont s) \<and>
     (\<forall>p \<in> declared (cont s). stored (cont s) p \<subseteq># stored (cont s') p)"

text \<open>The messages of queue \<open>p\<close> that a call may take away.\<close>

fun releases :: "bincode \<Rightarrow> contents \<Rightarrow> call \<Rightarrow> string \<Rightarrow> uuid multiset" where
  "releases B V (CAck q tag) p =
     (if p = q then
        (case map_of (V (inflight_tree_name q)) (to_be_bytes (tag_u64 tag)) of
           None \<Rightarrow> {#} | Some v \<Rightarrow> {# msg_id (projr (de_message B v)) #})
      else {#})"
| "releases B V (CRetain now q) p =
     (if p = q then
        image_mset (\<lambda>v. msg_id (projr (de_message B v))) (mset (vals (V q)))
      else {#})"
| "releases _ _ _ _ = {#}"

abbreviation returns :: "('e, 'a) outcome \<Rightarrow> bool" where
  "returns r \<equiv> r \<noteq> Panic \<and> r \<noteq> Diverge"

section \<open>Totality\<close>

lemma wp_discard: "wp (discard c) Q m = wp c (on_ok (\<lambda>_. Q (Ok ())) Q) m"
  by (auto simp: discard_def wp_def bnd_def ret_def on_ok_def split: prod.splits outcome.splits)

lemma wf_no_panic:
  assumes wf: "wf_state B s"
  shows "q \<in> declared (cont s) \<Longrightarrow> dedup_recorded (cont s) q P msg = Some (w, b) \<Longrightarrow> length b = 8"
    and "q \<in> declared (cont s) \<Longrightarrow> kv \<in> set (cont s q) \<Longrightarrow> length (fst kv) = 9 \<and> \<not> isl (de_message B (snd kv))"
    and "q \<in> declared (cont s) \<Longrightarrow> kv \<in> set (cont s (inflight_tree_name q)) \<Longrightarrow> \<not> isl (de_message B (snd kv))"
    and "q \<in> declared (cont s) \<Longrightarrow> kv \<in> set (cont s (scheduled_tree_name q)) \<Longrightarrow>
          length (fst kv) = 16 \<and> \<not> isl (de_message B (snd kv))"
proof -
  assume q: "q \<in> declared (cont s)"
  note l = wf_state_queue [OF wf q]
  show "length b = 8" if "dedup_recorded (cont s) q P msg = Some (w, b)"
  proof -
    from that obtain k where "map_of (cont s (dedup_tree_name q)) k = Some b"
      by (auto simp: dedup_recorded_def split: option.splits if_splits)
    then have "(k, b) \<in> set (cont s (dedup_tree_name q))" by (rule map_of_SomeD)
    with l(2) show ?thesis by (auto simp: wf_lists_def dedup_entry_def)
  qed
  show "length (fst kv) = 9 \<and> \<not> isl (de_message B (snd kv))" if "kv \<in> set (cont s q)"
  proof -
    have "main_entry B (next_id s) kv" using that l(2) by (auto simp: wf_lists_def)
    then show ?thesis by (cases kv) (auto elim!: main_entryE)
  qed
  show "\<not> isl (de_message B (snd kv))" if "kv \<in> set (cont s (inflight_tree_name q))"
  proof -
    have "inflight_entry B (next_id s) kv" using that l(2) by (auto simp: wf_lists_def)
    then show ?thesis by (cases kv) (auto elim!: inflight_entryE)
  qed
  show "length (fst kv) = 16 \<and> \<not> isl (de_message B (snd kv))" if "kv \<in> set (cont s (scheduled_tree_name q))"
  proof -
    have "scheduled_entry B (next_id s) kv" using that l(2) by (auto simp: wf_lists_def)
    then show ?thesis by (cases kv) (auto elim!: scheduled_entryE)
  qed
qed

lemma on_ok_returns: "P m \<Longrightarrow> returns r \<Longrightarrow> on_ok (\<lambda>_. P) (\<lambda>r m. P m \<and> returns r) r m"
  by (cases r) simp_all

lemma on_ok_const: "P m \<Longrightarrow> on_ok (\<lambda>_. P) (\<lambda>_. P) r m"
  by (cases r) simp_all

lemma spec_returns:
  assumes wf: "wf_state B s"
  shows "declare_spec f B q P s r s' \<Longrightarrow> returns r"
    and "publish_spec f B clk q msg s r1 s' \<Longrightarrow> returns r1"
    and "consume_spec f B q s r2 s' \<Longrightarrow> returns r2"
    and "ack_spec f q tag s r s' \<Longrightarrow> returns r"
    and "nack_spec f B q tag s r s' \<Longrightarrow> returns r"
    and "promote_spec f B now q s r3 s' \<Longrightarrow> returns r3"
    and "retention_spec f B now q s r3 s' \<Longrightarrow> returns r3"
proof -
  note np = wf_no_panic [OF wf]
  show "returns r1" if "publish_spec f B clk q msg s r1 s'"
    using that np(1) by (cases r1) (auto simp: publish_spec_def Let_def)
  show "returns r2" if "consume_spec f B q s r2 s'"
  proof (cases r2)
    case Panic
    with that obtain k v rest where "q \<in> declared (cont s)" "cont s q = (k, v) # rest" "length k < 9"
      by (auto simp: consume_spec_def)
    with np(2) [of q "(k, v)"] show ?thesis by simp
  qed (use that in \<open>auto simp: consume_spec_def\<close>)
  show "returns r3" if "promote_spec f B now q s r3 s'"
  proof (cases r3)
    case Panic
    with that obtain kv where "q \<in> declared (cont s)" "kv \<in> set (cont s (scheduled_tree_name q))" "length (fst kv) < 8"
      by (auto simp: promote_spec_def Let_def)
    with np(4) [of q kv] show ?thesis by simp
  qed (use that in \<open>auto simp: promote_spec_def Let_def\<close>)
qed (auto simp: declare_spec_def ack_spec_def nack_spec_def retention_spec_def Let_def)

context engine
begin

lemma call_ok:
  assumes "wf_state B (abs m)" "legal c"
  shows "wp (call_prog S B c) (\<lambda>r m'. wf_state B (abs m') \<and> r \<noteq> Panic \<and> r \<noteq> Diverge) m"
proof -
  note B = bincode_codec_axioms
  show ?thesis
    using assms
    by (cases c)
      (auto simp: wp_discard intro!: on_ok_returns wp_mono [OF declare_refines] wp_mono [OF publish_refines]
         wp_mono [OF consume_refines] wp_mono [OF ack_refines] wp_mono [OF nack_refines]
         wp_mono [OF promote_refines] wp_mono [OF retention_refines]
       dest: spec_returns [OF assms(1)] declare_wf publish_wf [OF B] consume_wf ack_wf nack_wf [OF B] promote_wf retention_wf)
qed

lemma sorted_abs [simp]: "sorted_state (abs m)"
  by (simp add: sorted_state_def view_sorted)

end

lemma stored_frame: "(\<And>t. t \<in> trees p \<Longrightarrow> V' t = V t) \<Longrightarrow> stored V' p = stored V p"
  by (simp add: stored_def trees_def)

lemma recover_queue_kept:
  assumes sp: "recover_queue_spec f B q s r s'" and wf: "wf_state B s" and st: "sorted_state s"
    and q: "q \<in> declared (cont s)" and p: "p \<in> declared (cont s)"
  shows "stored (cont s) p \<subseteq># stored (cont s') p"
proof -
  have kept: "stored (cont s) p \<subseteq># stored (cont s') p"
    if "only q s s'" "stored (cont s) q \<subseteq># stored (cont s') q"
    using that stored_other [of q s s' p] wf_state_queue(1) [OF wf] q p by (cases "p = q") auto
  from sp obtain es where es: "subseq es (cont s (inflight_tree_name q))"
    and r: "case r of
           Ok _ \<Rightarrow> (\<not> f \<longrightarrow> es = cont s (inflight_tree_name q)) \<and> recovered f B q es (keys es) s s'
         | Err e \<Rightarrow> requeue_fails f B None q es s e s' \<or>
             f \<and> (\<exists>x. e = Storage x) \<and> (\<exists>ks. set ks \<subseteq> set (keys es) \<and> recovered f B q es ks s s')
         | _ \<Rightarrow> False" unfolding recover_queue_spec_def by blast
  have cn: "\<forall>kv \<in> set es. canon B (snd kv)"
    using wf_canon [OF wf q] subseq_subset [OF es] by fast
  have rec: ?thesis if "set ks \<subseteq> set (keys es)" "recovered f B q es ks s s'" for ks
    using kept recovered_stored(1,3) [OF that(2) wf st q es that(1)] by blast
  have fail: ?thesis if "requeue_fails f B None q es s e s'" for e
    using kept requeue_fails_only [OF that] requeue_fails_None_stored [OF that cn wf st q] by blast
  show ?thesis
    using r rec [of "keys es"] rec fail by (cases r) (simp_all, blast)
qed

context engine
begin

lemma recover_inflight_kept:
  assumes wf: "wf_state B (abs m)"
  shows "wp (recover_inflight S B) (\<lambda>r m'. keeps B (abs m) (abs m') \<and> returns r) m"
proof -
  let ?I = "\<lambda>names m'. set names \<subseteq> declared (cont (abs m)) \<and> keeps B (abs m) (abs m')"
  let ?Q = "\<lambda>r m'. keeps B (abs m) (abs m') \<and> returns r"
  have "wp (for_each (recover_queue S B) names) ?Q m"
    if "set names \<subseteq> declared (cont (abs m))" for names
  proof (rule wp_for_each [where I = ?I])
    fix q names m1 assume I: "?I (q # names) m1"
    show "wp (recover_queue S B q) (on_ok (\<lambda>_. ?I names) ?Q) m1"
    proof (rule wp_mono [OF recover_queue_refines], goal_cases)
      case (1 r m2)
      have "wf_state B (abs m2)" "declared (cont (abs m2)) = declared (cont (abs m1))"
        using recover_queue_wf [OF 1] I by (auto simp: keeps_def)
      moreover have "stored (cont (abs m)) p \<subseteq># stored (cont (abs m2)) p" if "p \<in> declared (cont (abs m))" for p
        using recover_queue_kept [OF 1 _ sorted_abs, of p] I that
          subset_mset.order_trans [of "stored (cont (abs m)) p" "stored (cont (abs m1)) p"] by (auto simp: keeps_def)
      moreover have "returns r" using 1 by (cases r) (auto simp: recover_queue_spec_def)
      ultimately show ?case using I by (cases r) (auto simp: keeps_def simp del: abs_state_simps)
    qed
  qed (use wf that in \<open>auto simp: keeps_def\<close>)
  then show ?thesis
    unfolding recover_inflight_def wp_bnd
    by (intro wp_mono [OF list_queues_wp]) (auto split: outcome.splits)
qed

lemma open_manager_kept:
  assumes op: "open_manager S B (Inr (mgr_db m)) mx = (r, Some m')" and wf: "wf_state B (abs m)"
  shows "keeps B (abs m) (abs m') \<and> returns r"
proof -
  let ?m = "\<lparr>mgr_db = mgr_db m, current_bytes = 0, max_bytes = mx\<rparr>"
  let ?c = "bnd (q_open_tree S META_QUEUES_TREE) (\<lambda>_.
             bnd (q_open_tree S META_RETENTION_TREE) (\<lambda>_.
             bnd (recalculate_bytes S) (\<lambda>tot.
             bnd (modify (\<lambda>m. m\<lparr>current_bytes := tot\<rparr>)) (\<lambda>_.
             recover_inflight S B))))"
  have run: "?c ?m = (r, m')" using op by (auto simp: open_manager_def split: prod.splits)
  have rec: "wp (recover_inflight S B) (\<lambda>r m'. keeps B (abs m) (abs m') \<and> returns r) m1"
    if "cont (abs m1) = cont (abs m)" "next_id (abs m1) = next_id (abs m)" for m1
    by (rule wp_mono [OF recover_inflight_kept [of m1]]) (use that wf in \<open>auto simp: wf_state_def keeps_def\<close>)
  have same: "keeps B (abs m) (abs m1)" if "cont (abs m1) = cont (abs m)" "next_id (abs m1) = next_id (abs m)" for m1
    using that wf by (auto simp: wf_state_def keeps_def)
  have recalc: "wp (bnd (recalculate_bytes S) (\<lambda>tot. bnd (modify (\<lambda>m. m\<lparr>current_bytes := tot\<rparr>)) (\<lambda>_.
      recover_inflight S B))) (\<lambda>r m'. keeps B (abs m) (abs m') \<and> returns r) m2"
    if "cont (abs m2) = cont (abs m)" "next_id (abs m2) = next_id (abs m)" for m2
    unfolding wp_bnd [of "recalculate_bytes S"]
  proof (rule wp_mono [OF recalculate_refines], goal_cases)
    case (1 x m3)
    then show ?case
      using that by (cases x) (auto simp: recalculate_spec_def wp_simps abs_state_eq intro!: rec same)
  qed
  have "wp ?c (\<lambda>r m'. keeps B (abs m) (abs m') \<and> returns r) ?m"
    unfolding wp_bnd [of "on_db c" for c] wp_on_db
    by (auto intro!: wp_open_tree recalc same)
  from wpD [OF this run] show ?thesis by auto
qed


lemma wf_fresh_store: "\<forall>t. V t = [] \<Longrightarrow> wf_store B V n"
  by (simp add: wf_store_def declared_def)

lemma reach_wf_state: "reach S B view m \<Longrightarrow> wf_state B (abs m)"
proof (induction rule: reach.induct)
  case (reach_fresh m)
  then show ?case by (simp add: wf_state_def wf_fresh_store)
next
  case (reach_call m c r m')
  then show ?case using wpD [OF call_ok [OF reach_call.IH reach_call.hyps(2)] reach_call.hyps(3)] by simp
next
  case (reach_restart m mx r m')
  then show ?case using open_manager_kept by (auto simp: keeps_def)
qed

end

lemma msg_ids_add: "stored V' p = add_mset b (stored V p) \<Longrightarrow> msg_ids B V p \<subseteq># msg_ids B V' p"
  by (simp add: msg_ids_def)

lemma msg_ids_mono: "stored V p \<subseteq># stored V' p \<Longrightarrow> msg_ids B V p \<subseteq># msg_ids B V' p"
  by (simp add: msg_ids_def image_mset_subseteq_mono)

text \<open>One queue changes: it is enough to look at that queue.\<close>

lemma kept_one:
  assumes "wf_state B s" "q \<in> declared (cont s)" "only q s s'" "p \<in> declared (cont s)"
    and "p = q \<Longrightarrow> msg_ids B (cont s) q \<subseteq># msg_ids B (cont s') q + X"
  shows "msg_ids B (cont s) p \<subseteq># msg_ids B (cont s') p + X"
proof (cases "p = q")
  case False
  with assms stored_other [of q s s' p] wf_state_queue(1) [OF assms(1)] show ?thesis
    by (simp add: msg_ids_def)
qed (use assms in simp)

lemma publish_effect:
  assumes sp: "publish_spec f B clk q msg s r s'" and wf: "wf_state B s"
  shows "cont s' = cont s \<and> used s' = used s \<or>
    q \<in> declared (cont s) \<and> only q s s' \<and>
    stored (cont s') q = add_mset (projr (ser_message B msg)) (stored (cont s) q) \<and>
    storage_limit (budget s) (used s) (of_nat (length (projr (ser_message B msg)))) = None \<and>
    used s' = used s + of_nat (length (projr (ser_message B msg)))"
proof -
  let ?b = "projr (ser_message B msg)"
  let ?V1 = "enqueue (cont s) q msg (clk 1) (of_nat (next_id s)) ?b"
  consider (same) "cont s' = cont s" "used s' = used s"
    | (stored) n' where "q \<in> declared (cont s)" "took_id f (next_id s) n'"
      "cont s' = ?V1 \<or> cont s' = dedup_store ?V1 q (policy_in B (cont s) q) msg (clk 2)"
      "storage_limit (budget s) (used s) (of_nat (length ?b)) = None" "used s' = used s + of_nat (length ?b)"
    using sp by (cases r) (auto simp: publish_spec_def Let_def split: publish_outcome.splits pelican_error.splits)
  then show ?thesis
  proof cases
    case (stored n')
    have "only q s s'"
      using stored(3) by (auto simp: only_def trees_def enqueue_def dedup_store_def split: option.splits)
    moreover have "stored (cont s') q = add_mset ?b (stored (cont s) q)"
      using stored(3) enqueue_stored [OF wf stored(1,2)] dedup_store_stored [OF wf_state_queue(1) [OF wf stored(1)]] by auto
    ultimately show ?thesis using stored by blast
  qed simp
qed

lemma publish_kept:
  assumes sp: "publish_spec f B clk q msg s r s'" and wf: "wf_state B s" and p: "p \<in> declared (cont s)"
  shows "msg_ids B (cont s) p \<subseteq># msg_ids B (cont s') p"
  using publish_effect [OF sp wf] kept_one [OF wf _ _ p, of q s' "{#}"] msg_ids_add by auto

lemma consume_effect:
  assumes sp: "consume_spec f B q s r s'" and wf: "wf_state B s" and st: "sorted_state s"
  shows "used s' = used s \<and> (cont s' = cont s \<or> q \<in> declared (cont s) \<and> only q s s' \<and> stored (cont s') q = stored (cont s) q)"
proof -
  have "only q s (s\<lparr>cont := took_head (cont s) q k v\<rparr>)" for k v
    by (simp add: only_def took_head_def trees_def)
  then show ?thesis
    using sp took_head_stored [OF wf st]
    by (cases r) (auto simp: consume_spec_def split: option.splits pelican_error.splits)
qed

lemma ack_effect:
  assumes sp: "ack_spec f q tag s r s'" and wf: "wf_state B s" and st: "sorted_state s"
  shows "s' = s \<or> q \<in> declared (cont s) \<and> only q s s' \<and>
    (\<exists>v. map_of (cont s (inflight_tree_name q)) (to_be_bytes (tag_u64 tag)) = Some v \<and>
       stored (cont s) q = add_mset v (stored (cont s') q) \<and> used s' = sat_sub (used s) (of_nat (length v)))"
proof (cases r)
  case (Ok u)
  note sp' = sp [unfolded Ok]
  have "q \<in> declared (cont s)" using sp' by (auto simp: ack_spec_def Let_def)
  moreover from ack_stored [OF sp' wf st] obtain v where "only q s s'"
      "map_of (cont s (inflight_tree_name q)) (to_be_bytes (tag_u64 tag)) = Some v"
      "stored (cont s) q = add_mset v (stored (cont s') q)" by blast
  moreover have "used s' = sat_sub (used s) (of_nat (length v))"
    using sp' calculation(3) by (auto simp: ack_spec_def Let_def)
  ultimately show ?thesis by blast
qed (use sp in \<open>auto simp: ack_spec_def Let_def split: pelican_error.splits\<close>)

lemma nack_effect:
  assumes sp: "nack_spec f B q tag s r s'" and wf: "wf_state B s" and st: "sorted_state s"
  shows "used s' = used s \<and> (cont s' = cont s \<or> q \<in> declared (cont s) \<and> only q s s' \<and>
    (\<exists>v msg b. map_of (cont s (inflight_tree_name q)) (to_be_bytes (tag_u64 tag)) = Some v \<and>
       de_message B v = Inr msg \<and> ser_message B (bump msg) = Inr b \<and>
       add_mset v (stored (cont s') q) = add_mset b (stored (cont s) q)))"
proof (cases r)
  case (Ok u)
  from sp [unfolded Ok] obtain v msg b n' where q: "q \<in> declared (cont s)" and id: "took_id f (next_id s) n'"
    and v: "map_of (cont s (inflight_tree_name q)) (to_be_bytes (tag_u64 tag)) = Some v"
    and msg: "de_message B v = Inr msg" "ser_message B (bump msg) = Inr b"
    and s': "s' = s\<lparr>cont := put_back (cont s) q (reject_tree (policy_in B (cont s) q) q (bump msg))
        (to_be_bytes (tag_u64 tag)) (encode_key (priority msg) (of_nat (next_id s))) b, next_id := n'\<rparr>"
    unfolding nack_spec_def Let_def by auto
  have "only q s s'" by (simp add: s' only_def put_back_def trees_def reject_tree_def)
  with put_back_stored [OF wf st q id v] q v msg show ?thesis by (auto simp: s')
qed (use sp in \<open>auto simp: nack_spec_def Let_def split: pelican_error.splits\<close>)

lemma requeues_used: "requeues f B src q xs s s' \<Longrightarrow> used s' = used s"
  by (induction rule: requeues.induct) auto

lemma requeue_fails_used: "requeue_fails f B src q xs s e s' \<Longrightarrow> used s' = used s"
  by (induction rule: requeue_fails.induct) auto

lemma promote_effect:
  assumes sp: "promote_spec f B now q s r s'" and wf: "wf_state B s" and st: "sorted_state s"
  shows "used s' = used s \<and> (cont s' = cont s \<or> q \<in> declared (cont s) \<and> only q s s' \<and> stored (cont s') q = stored (cont s) q)"
proof -
  let ?t = "scheduled_tree_name q"
  let ?due = "takeWhile (is_due now) (cont s ?t)"
  have split: "cont s ?t = ?due @ dropWhile (is_due now) (cont s ?t)" by simp
  have cn: "\<forall>kv \<in> set ?due. canon B (snd kv)" if "q \<in> declared (cont s)"
    using wf_canon [OF wf that] set_takeWhileD by fast
  consider (same) "s' = s"
    | (ok) "q \<in> declared (cont s)" "requeues f B (Some ?t) q ?due s s'"
    | (fail) e where "q \<in> declared (cont s)" "requeue_fails f B (Some ?t) q ?due s e s'"
    using sp by (cases r) (auto simp: promote_spec_def Let_def split: pelican_error.splits)
  then show ?thesis
  proof cases
    case ok
    then show ?thesis using requeues_used requeues_only [OF ok(2)] requeues_sched_stored [OF ok(2) cn [OF ok(1)] wf st ok(1) split] by blast
  next
    case (fail e)
    then show ?thesis
      using requeue_fails_used requeue_fails_only [OF fail(2)] requeue_fails_sched_stored [OF fail(2) cn [OF fail(1)] wf st fail(1) split] by blast
  qed simp
qed

lemma retention_effect:
  assumes sp: "retention_spec f B now q s r s'" and wf: "wf_state B s"
  shows "s' = s \<or> q \<in> declared (cont s) \<and> only q s s' \<and> stored (cont s') q \<subseteq># stored (cont s) q \<and>
    stored (cont s) q \<subseteq># stored (cont s') q + mset (vals (cont s q))"
proof -
  consider (same) "s' = s" | (changed) ys where "q \<in> declared (cont s)" "subseq ys (cont s q)" "cont s' = (cont s)(q := ys)"
  proof (cases r)
    case (Ok n)
    with sp that(2) [OF _ subseq_retained(3) [of B now "policy_in B (cont s) q"]] show ?thesis by (auto simp: retention_spec_def Let_def)
  next
    case (Err e)
    then consider "s' = s" | "q \<in> declared (cont s)" "subseq (cont s' q) (cont s q)" "s' = s\<lparr>cont := (cont s)(q := cont s' q)\<rparr>"
      using sp by (cases e) (auto simp: retention_spec_def Let_def)
    then show ?thesis
    proof cases
      case 2
      show ?thesis by (rule that(2) [OF 2(1,2)]) (use arg_cong [OF 2(3), of cont] in simp)
    qed (rule that(1))
  qed (use sp in \<open>auto simp: retention_spec_def Let_def\<close>)
  then show ?thesis
  proof cases
    case (changed ys)
    have pl: "plain_name q" using wf_state_queue(1) [OF wf changed(1)] .
    have "mset (vals ys) \<subseteq># mset (vals (cont s q))"
      using subseq_map [OF changed(2), of snd] by (rule subseq_mset)
    then have "stored (cont s') q \<subseteq># stored (cont s) q"
      using pl by (simp add: changed(3) stored_def subset_mset.add_mono del: mset_map)
    moreover have "stored (cont s) q \<subseteq># stored (cont s') q + mset (vals (cont s q))"
      using pl by (simp add: changed(3) stored_def ac_simps del: mset_map)
    moreover have "only q s s'" by (simp add: changed(3) only_def trees_def)
    ultimately show ?thesis using changed(1) by blast
  qed simp
qed

lemma same_kept:
  assumes "cont s' = cont s \<or> q \<in> declared (cont s) \<and> only q s s' \<and> stored (cont s') q = stored (cont s) q"
    and wf: "wf_state B s" and p: "p \<in> declared (cont s)"
  shows "msg_ids B (cont s) p \<subseteq># msg_ids B (cont s') p"
  using assms(1) kept_one [OF wf _ _ p, of q s' "{#}"] by (auto simp: msg_ids_def)

lemma declare_effect:
  assumes sp: "declare_spec f B q P s r s'" and wf: "wf_state B s" and p: "p \<in> declared (cont s)"
  shows "used s' = used s \<and> stored (cont s') p = stored (cont s) p \<and> p \<in> declared (cont s')"
proof -
  have pl: "plain_name p" using wf_state_queue(1) [OF wf p] .
  have "used s' = used s \<and> (\<forall>t. t \<noteq> META_QUEUES_TREE \<longrightarrow> t \<noteq> META_RETENTION_TREE \<longrightarrow> cont s' t = cont s t)
     \<and> declared (cont s) \<subseteq> declared (cont s')"
    using sp by (cases r) (auto simp: declare_spec_def Let_def declared_def simp del: set_map split: pelican_error.splits)
  then show ?thesis using pl p by (auto simp: stored_def)
qed

lemma msg_ids_subset: "stored V p \<subseteq># stored V' p + X \<Longrightarrow>
    msg_ids B V p \<subseteq># msg_ids B V' p + image_mset (\<lambda>v. msg_id (projr (de_message B v))) X"
  using image_mset_subseteq_mono by (fastforce simp: msg_ids_def)

context engine
begin

lemma call_kept:
  assumes wf: "wf_state B (abs m)" and p: "p \<in> declared (view (mgr_db m))"
  shows "wp (call_prog S B c) (\<lambda>r m'. msg_ids B (view (mgr_db m)) p \<subseteq>#
     msg_ids B (view (mgr_db m')) p + releases B (view (mgr_db m)) c p) m"
proof -
  have p': "p \<in> declared (cont (abs m))" using p by simp
  note one = kept_one [OF wf _ _ p']
  show ?thesis
  proof (cases c)
    case (CDeclare q P)
    show ?thesis
      unfolding CDeclare call_prog.simps
      by (rule wp_mono [OF declare_refines], drule declare_effect [OF _ wf p']) (auto simp: msg_ids_def)
  next
    case (CAck q tag)
    show ?thesis
      unfolding CAck call_prog.simps
    proof (rule wp_mono [OF ack_refines], goal_cases)
      case (1 r m')
      show ?case
        using ack_effect [OF 1 wf sorted_abs] one [of q "abs m'" "releases B (view (mgr_db m)) (CAck q tag) p"]
        by (auto simp: msg_ids_def abs_state_eq)
    qed
  next
    case (CNack q tag)
    show ?thesis
      unfolding CNack call_prog.simps
    proof (rule wp_mono [OF nack_refines], goal_cases)
      case (1 r m')
      have "msg_ids B (cont (abs m)) q = msg_ids B (cont (abs m')) q"
        if "de_message B v = Inr msg" "ser_message B (bump msg) = Inr b"
          "add_mset v (stored (cont (abs m')) q) = add_mset b (stored (cont (abs m)) q)" for v msg b
        using arg_cong [OF that(3), of "image_mset (\<lambda>v. msg_id (projr (de_message B v)))"] that(1)
          message_roundtrip [OF that(2)] by (simp add: msg_ids_def bump_def)
      then show ?case
        using nack_effect [OF 1 wf sorted_abs] one [of q "abs m'" "{#}"] by auto
    qed
  next
    case (CPublish clk q msg)
    show ?thesis
      unfolding CPublish call_prog.simps wp_discard
      by (rule wp_mono [OF publish_refines], rule on_ok_const, drule publish_kept [OF _ wf p']) simp
  next
    case (CConsume q)
    show ?thesis
      unfolding CConsume call_prog.simps wp_discard
      by (rule wp_mono [OF consume_refines], rule on_ok_const, drule consume_effect [OF _ wf sorted_abs, THEN conjunct2, THEN same_kept, OF _ wf p'])
        simp
  next
    case (CPromote now q)
    show ?thesis
      unfolding CPromote call_prog.simps wp_discard
      by (rule wp_mono [OF promote_refines], rule on_ok_const, drule promote_effect [OF _ wf sorted_abs, THEN conjunct2, THEN same_kept, OF _ wf p'])
        simp
  next
    case (CRetain now q)
    show ?thesis
      unfolding CRetain call_prog.simps wp_discard
    proof (rule wp_mono [OF retention_refines], rule on_ok_const, drule retention_effect [OF _ wf], goal_cases)
      case (1 r m')
      then show ?case
        using one [of q "abs m'" "releases B (view (mgr_db m)) c p"]
          msg_ids_subset [of "view (mgr_db m)" q "view (mgr_db m')" "mset (vals (view (mgr_db m) q))" B]
        by (auto simp: abs_state_eq CRetain)
    qed
  qed
qed

end

end
