(* ===== verification/Queue_Accounting.thy ===== *)
theory Queue_Accounting
  imports Queue_Runs
begin

text \<open>
  The byte budget.  \<^verbatim>\<open>current_bytes\<close> never falls below the bytes of the stored messages, and the
  limit check of \<^verbatim>\<open>publish\<close> keeps it within \<^verbatim>\<open>max_bytes\<close>; both hold on every outcome, I/O failures
  included.  Retention recounts the bytes instead and is not covered by \<^verbatim>\<open>fits\<close>.
\<close>


definition msg_bytes :: "contents \<Rightarrow> string \<Rightarrow> nat" where
  "msg_bytes V q = (\<Sum>v\<in>#stored V q. length v)"

definition held_bytes :: "contents \<Rightarrow> nat" where
  "held_bytes V = (\<Sum>q\<in>declared V. msg_bytes V q)"

definition accounted :: "qstate \<Rightarrow> bool" where
  "accounted s \<longleftrightarrow> held_bytes (cont s) \<le> unat (used s)"

definition within_budget :: "qstate \<Rightarrow> bool" where
  "within_budget s \<longleftrightarrow> (case budget s of None \<Rightarrow> True | Some mx \<Rightarrow> used s \<le> mx)"

fun fits :: "bincode \<Rightarrow> qstate \<Rightarrow> call \<Rightarrow> bool" where
  "fits B s (CPublish clk q msg) = (unat (used s) + length (projr (ser_message B msg)) < 2 ^ 64)"
| "fits B s (CRetain now q) = False"
| "fits B s _ = True"

lemma finite_declared [simp]: "finite (declared V)"
  by (simp add: declared_def)

lemma unat_sat_sub: "unat (sat_sub a b) = unat a - unat b"
  by (simp add: sat_sub_def unat_sub word_le_nat_alt)

lemma unat_of_nat_le: "unat (word_of_nat n :: 'a::len word) \<le> n"
  by (simp add: unat_of_nat take_bit_eq_mod)

lemma only_declared: "only q s s' \<Longrightarrow> plain_name q \<Longrightarrow> declared (cont s') = declared (cont s)"
  by (simp add: only_def declared_def)

lemma held_bytes_only:
  assumes wf: "wf_state B s" and q: "q \<in> declared (cont s)" and o: "only q s s'"
  shows "held_bytes (cont s') + msg_bytes (cont s) q = held_bytes (cont s) + msg_bytes (cont s') q"
proof -
  have pl: "plain_name p" if "p \<in> declared (cont s)" for p using wf_state_queue(1) [OF wf that] .
  have d: "declared (cont s') = declared (cont s)" using only_declared [OF o pl [OF q]] .
  have "(\<Sum>p\<in>declared (cont s) - {q}. msg_bytes (cont s') p) = (\<Sum>p\<in>declared (cont s) - {q}. msg_bytes (cont s) p)"
    using stored_other [OF o pl [OF q] pl] by (intro sum.cong) (auto simp: msg_bytes_def)
  then show ?thesis
    using q by (simp add: held_bytes_def d sum.remove [of "declared (cont s)" q])
qed

lemma publish_accounted:
  assumes sp: "publish_spec f B clk q msg s r s'" and wf: "wf_state B s" and a: "accounted s" "within_budget s"
    and len: "unat (used s) + length (projr (ser_message B msg)) < 2 ^ 64"
  shows "accounted s' \<and> within_budget s'"
proof -
  let ?b = "projr (ser_message B msg)"
  have bud: "budget s' = budget s"
    using sp by (cases r) (auto simp: publish_spec_def Let_def split: publish_outcome.splits pelican_error.splits)
  from publish_effect [OF sp wf] show ?thesis
  proof (elim disjE conjE)
    assume "cont s' = cont s" "used s' = used s"
    with a bud show ?thesis by (simp add: accounted_def within_budget_def split: option.splits)
  next
    assume st: "q \<in> declared (cont s)" "only q s s'" "stored (cont s') q = add_mset ?b (stored (cont s) q)"
      "storage_limit (budget s) (used s) (word_of_nat (length ?b)) = None"
      "used s' = used s + word_of_nat (length ?b)"
    have u: "unat (used s') = unat (used s) + length ?b"
      using len by (simp add: st(5) unat_add_lem [THEN iffD1])
    have "held_bytes (cont s') = held_bytes (cont s) + length ?b"
      using held_bytes_only [OF wf st(1,2)] st(3) by (simp add: msg_bytes_def)
    with a u have "accounted s'" by (simp add: accounted_def)
    moreover have "within_budget s'"
      using st(4,5) bud by (auto simp: within_budget_def storage_limit_def Let_def not_less split: option.splits if_splits)
    ultimately show ?thesis by simp
  qed
qed

lemma same_accounted:
  assumes "used s' = used s \<and> (cont s' = cont s \<or> q \<in> declared (cont s) \<and> only q s s' \<and> stored (cont s') q = stored (cont s) q)"
    "wf_state B s" "accounted s"
  shows "accounted s'"
  using assms held_bytes_only [of B s q s'] by (auto simp: accounted_def msg_bytes_def)

lemma ack_accounted:
  assumes sp: "ack_spec f q tag s r s'" and wf: "wf_state B s" and st: "sorted_state s" and a: "accounted s"
  shows "accounted s'"
  using ack_effect [OF sp wf st]
proof (elim disjE conjE exE)
  fix v assume q: "q \<in> declared (cont s)" "only q s s'" and v: "stored (cont s) q = add_mset v (stored (cont s') q)"
    and u: "used s' = sat_sub (used s) (word_of_nat (length v))"
  have "held_bytes (cont s') + length v = held_bytes (cont s)"
    using held_bytes_only [OF wf q] v by (simp add: msg_bytes_def)
  then show ?thesis using a unat_of_nat_le [where 'a = 64, of "length v"] by (simp add: accounted_def u unat_sat_sub)
qed (use a in simp)

lemma nack_accounted:
  assumes B: "bincode_codec B" and sp: "nack_spec f B q tag s r s'" and wf: "wf_state B s" and st: "sorted_state s"
    and a: "accounted s"
  shows "accounted s'"
  using nack_effect [OF sp wf st]
proof (elim disjE conjE exE)
  fix v msg b
  assume u: "used s' = used s" and q: "q \<in> declared (cont s)" "only q s s'"
    and v: "map_of (cont s (inflight_tree_name q)) (to_be_bytes (tag_u64 tag)) = Some v"
    and msg: "de_message B v = Inr msg" "ser_message B (bump msg) = Inr b"
    and eq: "add_mset v (stored (cont s') q) = add_mset b (stored (cont s) q)"
  have "canon B v" using wf_canon [OF wf q(1), of "(to_be_bytes (tag_u64 tag), v)"] map_of_SomeD [OF v] by simp
  then have "ser_message B msg = Inr v" using msg(1) by (simp add: canon_def)
  from bincode_codec.fixed_width_attempts [OF B this msg(2) [unfolded bump_def]] have "length b = length v" .
  moreover have "length v + msg_bytes (cont s') q = length b + msg_bytes (cont s) q"
    using arg_cong [OF eq, of "\<lambda>M. \<Sum>v\<in>#M. length v"] by (simp add: msg_bytes_def)
  ultimately show ?thesis
    using held_bytes_only [OF wf q] a u by (simp add: accounted_def)
qed (use a in \<open>simp add: accounted_def\<close>)

lemma declare_accounted:
  assumes sp: "declare_spec f B q P s r s'" and wf: "wf_state B s" and q: "plain_name q" and a: "accounted s"
  shows "accounted s'"
proof -
  have d: "declared (cont s') \<subseteq> insert q (declared (cont s))" and u: "used s' = used s"
    using sp by (cases r; auto simp: declare_spec_def Let_def declared_def simp del: set_map split: pelican_error.splits)+
  have st: "stored (cont s') p = stored (cont s) p" if "plain_name p" for p
    using sp that by (cases r) (auto simp: declare_spec_def Let_def stored_def split: pelican_error.splits)
  have new: "msg_bytes (cont s) q = 0" if "q \<notin> declared (cont s)"
    using wf q that by (simp add: wf_state_def wf_store_def trees_def msg_bytes_def stored_def)
  have pl: "plain_name p" if "p \<in> declared (cont s)" for p using wf_state_queue(1) [OF wf that] .
  have "held_bytes (cont s') \<le> (\<Sum>p\<in>insert q (declared (cont s)). msg_bytes (cont s') p)"
    unfolding held_bytes_def by (rule sum_mono2) (use d in auto)
  also have "\<dots> = (\<Sum>p\<in>insert q (declared (cont s)). msg_bytes (cont s) p)"
    by (rule sum.cong) (use st q pl in \<open>auto simp: msg_bytes_def\<close>)
  also have "\<dots> = held_bytes (cont s)"
    using new by (cases "q \<in> declared (cont s)") (simp_all add: held_bytes_def insert_absorb)
  finally show ?thesis using a u by (simp add: accounted_def)
qed

lemma declare_budget: "declare_spec f B q P s r s' \<Longrightarrow> budget s' = budget s \<and> used s' = used s"
  by (cases r) (auto simp: declare_spec_def Let_def split: pelican_error.splits)

lemma consume_budget: "consume_spec f B q s r s' \<Longrightarrow> budget s' = budget s"
  by (cases r) (auto simp: consume_spec_def split: option.splits pelican_error.splits)

lemma ack_budget: "ack_spec f q tag s r s' \<Longrightarrow> budget s' = budget s \<and> used s' \<le> used s"
  by (cases r) (auto simp: ack_spec_def Let_def word_le_nat_alt unat_sat_sub split: pelican_error.splits)

lemma nack_budget: "nack_spec f B q tag s r s' \<Longrightarrow> budget s' = budget s"
  by (cases r) (auto simp: nack_spec_def Let_def split: pelican_error.splits)

lemma requeues_budget: "requeues f B src q xs s s' \<Longrightarrow> budget s' = budget s"
  by (induction rule: requeues.induct) auto

lemma requeue_fails_budget: "requeue_fails f B src q xs s e s' \<Longrightarrow> budget s' = budget s"
  by (induction rule: requeue_fails.induct) auto

lemma promote_budget: "promote_spec f B now q s r s' \<Longrightarrow> budget s' = budget s"
  by (cases r) (auto simp: promote_spec_def Let_def split: pelican_error.splits
      dest: requeues_budget requeue_fails_budget)


lemma within_budget_le: "within_budget s \<Longrightarrow> budget s' = budget s \<Longrightarrow> used s' \<le> used s \<Longrightarrow> within_budget s'"
  by (auto simp: within_budget_def split: option.splits)

lemma call_books:
  assumes wf: "wf_state B s" and st: "sorted_state s" and a: "accounted s" "within_budget s"
  shows "declare_spec f B q P s r s' \<Longrightarrow> plain_name q \<Longrightarrow> accounted s' \<and> within_budget s'"
    and "consume_spec f B q s r1 s' \<Longrightarrow> accounted s' \<and> within_budget s'"
    and "ack_spec f q tag s r s' \<Longrightarrow> accounted s' \<and> within_budget s'"
    and "bincode_codec B \<Longrightarrow> nack_spec f B q tag s r s' \<Longrightarrow> accounted s' \<and> within_budget s'"
    and "promote_spec f B now q s r2 s' \<Longrightarrow> accounted s' \<and> within_budget s'"
proof -
  note le = within_budget_le [OF a(2)]
  show "accounted s' \<and> within_budget s'" if "declare_spec f B q P s r s'" "plain_name q"
    using declare_accounted [OF that(1) wf that(2) a(1)] declare_budget [OF that(1)] le by simp
  show "accounted s' \<and> within_budget s'" if "consume_spec f B q s r1 s'"
    using same_accounted [OF consume_effect [OF that wf st] wf a(1)] consume_effect [OF that wf st]
      consume_budget [OF that] le by simp
  show "accounted s' \<and> within_budget s'" if "ack_spec f q tag s r s'"
    using ack_accounted [OF that wf st a(1)] ack_budget [OF that] le by simp
  show "accounted s' \<and> within_budget s'" if "bincode_codec B" "nack_spec f B q tag s r s'"
    using nack_accounted [OF that wf st a(1)] nack_effect [OF that(2) wf st] nack_budget [OF that(2)] le by simp
  show "accounted s' \<and> within_budget s'" if "promote_spec f B now q s r2 s'"
    using same_accounted [OF promote_effect [OF that wf st] wf a(1)] promote_effect [OF that wf st]
      promote_budget [OF that] le by simp
qed

context engine
begin

lemma call_accounted:
  assumes wf: "wf_state B (abs m)" and c: "legal c" "fits B (abs m) c" and a: "accounted (abs m)" "within_budget (abs m)"
  shows "wp (call_prog S B c) (\<lambda>_ m'. accounted (abs m') \<and> within_budget (abs m')) m"
proof -
  note books = call_books [OF wf sorted_abs a]
  show ?thesis
  proof (cases c)
    case (CPublish clk q msg)
    show ?thesis
      unfolding CPublish call_prog.simps wp_discard
      by (rule wp_mono [OF publish_refines], rule on_ok_const, drule publish_accounted [OF _ wf a])
        (use c CPublish in auto)
  next
    case (CDeclare q P)
    with c show ?thesis by (auto simp del: abs_state_simps intro!: wp_mono [OF declare_refines] dest: books(1))
  qed (use c in \<open>auto simp: wp_discard simp del: abs_state_simps
      intro!: wp_mono [OF consume_refines] wp_mono [OF ack_refines] wp_mono [OF nack_refines] wp_mono [OF promote_refines]
        on_ok_const
      dest: books(2,3,5) books(4) [OF bincode_codec_axioms]\<close>)
qed

end
end
