(* ===== verification/Queue_Order.thy ===== *)
theory Queue_Order
  imports Queue_Accounting
begin

text \<open>
  The order of delivery.  The abstract queue is a list of messages: \<^verbatim>\<open>put\<close> places a message behind
  all messages of the same or a higher priority, and the head is delivered next.  The keys that
  \<^verbatim>\<open>encode_key\<close> and \<^verbatim>\<open>encode_scheduled_key\<close> write make the byte order of the database this order.
\<close>


definition rank :: "message \<Rightarrow> nat" where
  "rank m = 9 - unat (min (priority m) 9)"

fun put :: "message \<Rightarrow> message list \<Rightarrow> message list" where
  "put m [] = [m]"
| "put m (x # xs) = (if rank m < rank x then m # x # xs else x # put m xs)"

definition decoded :: "bincode \<Rightarrow> otree \<Rightarrow> message list" where
  "decoded B xs = map (\<lambda>kv. projr (de_message B (snd kv))) xs"

definition put_all :: "message list \<Rightarrow> message list \<Rightarrow> message list" where
  "put_all ms xs = foldl (\<lambda>acc m. put m acc) xs ms"

lemma decoded_simps [simp]:
  "decoded B [] = []" "decoded B (kv # xs) = projr (de_message B (snd kv)) # decoded B xs"
  "decoded B (xs @ ys) = decoded B xs @ decoded B ys"
  by (simp_all add: decoded_def)

lemma u8_rank: "unat (sat_sub 9 (min (p :: u8) 9)) = 9 - unat (min p 9)"
  by (simp add: sat_sub_def unat_sub word_le_nat_alt min_def)

lemma rank_le: "rank m \<le> 9"
  by (simp add: rank_def)

lemma char_of_less: "a < 256 \<Longrightarrow> b < 256 \<Longrightarrow> (char_of (a :: nat) :: char) < char_of b \<longleftrightarrow> a < b"
  by (simp add: less_char_def)

lemma encode_key_eq: "encode_key (priority m) i = char_of (rank m) # to_be_bytes i"
  by (simp add: encode_key_def u8_rank rank_def)

lemma encode_key_less:
  "encode_key (priority m) i < encode_key (priority m') j \<longleftrightarrow> rank m < rank m' \<or> rank m = rank m' \<and> i < j"
proof -
  have "rank m < 256" "rank m' < 256" using rank_le [of m] rank_le [of m'] by simp_all
  then show ?thesis
    by (auto simp: encode_key_eq char_of_less)
qed


lemma put_insert:
  assumes "\<forall>kv \<in> set xs. main_entry B n kv" "n \<le> unat i" "de_message B v = Inr m"
  shows "decoded B (ot_insert (encode_key (priority m) i) v xs) = put m (decoded B xs)"
  using assms(1)
proof (induction xs)
  case (Cons kv xs)
  obtain k b where kv: "kv = (k, b)" by force
  with Cons.prems have "main_entry B n (k, b)" by simp
  then obtain j m' where e: "de_message B b = Inr m'" "k = encode_key (priority m') j" "unat j < n"
    by (rule main_entryE)
  then have "\<not> i < j" "i \<noteq> j" using assms(2) by (auto simp: word_less_nat_alt)
  then have "encode_key (priority m) i < k \<longleftrightarrow> rank m < rank m'" "encode_key (priority m) i \<noteq> k"
    by (auto simp: e(2) encode_key_less dest: arg_cong [where f = key_id])
  then show ?case using Cons e assms(3) by (simp add: kv)
qed (use assms in simp)

lemma mset_put: "mset (put m xs) = add_mset m (mset xs)"
  by (induction xs) auto

lemma set_put: "set (put m xs) = insert m (set xs)"
  using arg_cong [OF mset_put, of set_mset] by simp

lemma sorted_put: "sorted (map rank xs) \<Longrightarrow> sorted (map rank (put m xs))"
  by (induction xs) (auto simp: set_put)

lemma filter_put: "sorted (map rank xs) \<Longrightarrow>
    filter (\<lambda>x. rank x = r) (put m xs) = filter (\<lambda>x. rank x = r) xs @ (if rank m = r then [m] else [])"
proof (induction xs)
  case (Cons x xs)
  show ?case
  proof (cases "rank m < rank x")
    case True
    with Cons.prems have "filter (\<lambda>y. rank y = rank m) (x # xs) = []" by (auto simp: filter_empty_conv)
    with True show ?thesis by auto
  next
    case False
    with Cons show ?thesis by auto
  qed
qed simp

lemma put_all_simps [simp]: "put_all [] xs = xs" "put_all (m # ms) xs = put_all ms (put m xs)"
  "put_all (as @ bs) xs = put_all bs (put_all as xs)"
  by (simp_all add: put_all_def)

lemma put_all_sort:
  "sorted (map rank xs) \<Longrightarrow> put_all ms xs = sort_key rank (xs @ ms)"
proof -
  assume s: "sorted (map rank xs)"
  have "mset (put_all ms xs) = mset (xs @ ms) \<and> sorted (map rank (put_all ms xs)) \<and>
    (\<forall>r. filter (\<lambda>x. rank x = r) (put_all ms xs) = filter (\<lambda>x. rank x = r) (xs @ ms))"
    using s by (induction ms arbitrary: xs) (simp_all add: mset_put sorted_put filter_put)
  then show ?thesis
    by (intro properties_for_sort_key [symmetric]) (auto simp: eq_commute)
qed

lemma wf_sorted_rank:
  assumes "ot_sorted xs" "\<forall>kv \<in> set xs. main_entry B n kv"
  shows "sorted (map rank (decoded B xs))"
  using assms
proof (induction xs)
  case (Cons kv xs)
  obtain k b where kv: "kv = (k, b)" by force
  have "rank (projr (de_message B b)) \<le> rank (projr (de_message B b'))" if "(k', b') \<in> set xs" for k' b'
  proof -
    have "main_entry B n (k, b)" "main_entry B n (k', b')" using Cons.prems(2) that kv by auto
    then obtain i m j m' where "de_message B b = Inr m" "k = encode_key (priority m) i"
      "de_message B b' = Inr m'" "k' = encode_key (priority m') j" by (elim main_entryE) blast
    moreover have "k < k'" using Cons.prems(1) that kv by (auto simp: ot_simps)
    ultimately show ?thesis by (auto simp: encode_key_less)
  qed
  with Cons show ?case by (auto simp: kv ot_simps decoded_def)
qed simp

text \<open>Delivery times order the scheduled tree.\<close>

lemma sint_nonneg:
  assumes "0 \<le> sint (x :: i64)"
  shows "sint x = int (unat x)"
proof -
  have "uint x < 2 ^ 64" using uint_lt2p [of x] by simp
  moreover from this have b: "sint x = uint x - 2 ^ 64 * of_bool (bit (uint x) 63)"
    by (simp add: sint_uint signed_take_bit_eq_take_bit_minus take_bit_int_eq_self_iff)
  ultimately have "\<not> bit (uint x) 63" using assms by (cases "bit (uint x) 63") auto
  with b show ?thesis by simp
qed

lemma scheduled_key_less:
  assumes "0 \<le> sint a" "0 \<le> sint b" "encode_scheduled_key a i < encode_scheduled_key b j"
  shows "sint a \<le> sint b"
  using assms sint_nonneg [OF assms(1)] sint_nonneg [OF assms(2)]
  by (auto simp: encode_scheduled_key_def append_less_length word_less_def)

lemma is_due_entry:
  assumes "scheduled_entry B n kv"
  obtains m a where "de_message B (snd kv) = Inr m" "deliver_at m = Some a" "0 \<le> sint a"
    "is_due now kv \<longleftrightarrow> sint a \<le> sint now" "\<exists>i. fst kv = encode_scheduled_key a i"
proof -
  obtain k v where kv: "kv = (k, v)" by force
  from assms obtain i m a where "de_message B v = Inr m" "deliver_at m = Some a" "0 \<le> sint a"
    "k = encode_scheduled_key a i" unfolding kv by (rule scheduled_entryE)
  with that [of m a] show ?thesis by (auto simp: kv is_due_def i64_less_def not_less)
qed

lemma due_prefix:
  assumes "ot_sorted xs" "\<forall>kv \<in> set xs. scheduled_entry B n kv"
  shows "takeWhile (is_due now) xs = filter (is_due now) xs" "dropWhile (is_due now) xs = filter (\<lambda>kv. \<not> is_due now kv) xs"
proof -
  have "takeWhile (is_due now) xs = filter (is_due now) xs \<and> dropWhile (is_due now) xs = filter (\<lambda>kv. \<not> is_due now kv) xs"
    using assms
  proof (induction xs)
    case (Cons kv xs)
    show ?case
    proof (cases "is_due now kv")
      case True
      with Cons show ?thesis by (cases kv) (auto simp: ot_simps)
    next
      case False
      have "\<not> is_due now kv'" if "kv' \<in> set xs" for kv'
      proof -
        from Cons.prems(2) that have se: "scheduled_entry B n kv" "scheduled_entry B n kv'" by auto
        from is_due_entry [OF se(1), of now] obtain m a where a: "0 \<le> sint a" "is_due now kv \<longleftrightarrow> sint a \<le> sint now"
          "\<exists>i. fst kv = encode_scheduled_key a i" .
        from is_due_entry [OF se(2), of now] obtain m' a' where a': "0 \<le> sint a'" "is_due now kv' \<longleftrightarrow> sint a' \<le> sint now"
          "\<exists>i. fst kv' = encode_scheduled_key a' i" .
        have "fst kv < fst kv'" using Cons.prems(1) that by (cases kv) (auto simp: ot_simps)
        with a a' have "sint a \<le> sint a'" using scheduled_key_less [OF a(1) a'(1)] by auto
        with False a(2) a'(2) show ?thesis by simp
      qed
      then have "filter (is_due now) xs = []" "filter (\<lambda>kv. \<not> is_due now kv) xs = xs"
        by (auto simp: filter_empty_conv filter_id_conv)
      with False show ?thesis by simp
    qed
  qed simp
  then show "takeWhile (is_due now) xs = filter (is_due now) xs" "dropWhile (is_due now) xs = filter (\<lambda>kv. \<not> is_due now kv) xs"
    by simp_all
qed

lemma requeues_waiting:
  assumes "requeues f B src q xs s s'" "\<forall>kv \<in> set xs. canon B (snd kv)" "wf_state B s" "q \<in> declared (cont s)"
    and src: "src = None \<or> src = Some (scheduled_tree_name q)"
  shows "decoded B (cont s' q) = put_all (decoded B xs) (decoded B (cont s q))"
  using assms(1-4)
proof (induction rule: requeues.induct)
  case (requeues_Cons s n' kv xs s')
  note prem = requeues_Cons.prems
  have cn: "canon B (snd kv)" "\<forall>kv \<in> set xs. canon B (snd kv)" using prem(1) by simp_all
  let ?s1 = "s\<lparr>cont := requeue_one B src q kv (next_id s) (cont s), next_id := n'\<rparr>"
  have pl: "plain_name q" using wf_state_queue(1) [OF prem(2,3)] .
  have "wf_state B ?s1" "q \<in> declared (cont ?s1)"
    using requeue_one_wf [OF prem(2,3) src requeues_Cons.hyps(1) cn(1)] requeue_one_declared [OF pl src] prem(3) by simp_all
  note IH = requeues_Cons.IH [OF cn(2) this]
  obtain m where m: "de_message B (snd kv) = Inr m" using cn(1) by (auto simp: canon_def)
  have "cont ?s1 q = ot_insert (encode_key (priority m) (of_nat (next_id s))) (snd kv) (cont s q)"
    using src pl m by (auto simp: requeue_one_def Let_def)
  moreover have "\<forall>kv \<in> set (cont s q). main_entry B (next_id s) kv"
    using wf_state_queue(2) [OF prem(2,3)] by (simp add: wf_lists_def)
  ultimately have "decoded B (cont ?s1 q) = put m (decoded B (cont s q))"
    using put_insert [OF _ _ m] took_idD(3) [OF requeues_Cons.hyps(1)] by simp
  with IH m show ?case by simp
qed simp

end
