(* ===== verification/Queue_Recovery.thy ===== *)
theory Queue_Recovery
  imports Queue_Order
begin

text \<open>
  Crash recovery on a healthy database: opening it succeeds, recounts the stored bytes and puts
  every in-flight message back into its queue, in tag order and by priority, with nothing lost
  or duplicated.
\<close>


definition inflight_total :: "contents \<Rightarrow> string list \<Rightarrow> nat" where
  "inflight_total V names = sum_list (map (\<lambda>q. length (V (inflight_tree_name q))) names)"

definition restored :: "bincode \<Rightarrow> contents \<Rightarrow> contents \<Rightarrow> string \<Rightarrow> bool" where
  "restored B V V' q \<longleftrightarrow>
     V' (inflight_tree_name q) = [] \<and>
     decoded B (V' q) = put_all (decoded B (V (inflight_tree_name q))) (decoded B (V q)) \<and>
     V' (dlq_tree_name q) = V (dlq_tree_name q) \<and>
     V' (scheduled_tree_name q) = V (scheduled_tree_name q) \<and>
     V' (dedup_tree_name q) = V (dedup_tree_name q) \<and>
     stored V' q = stored V q"

text \<open>What is already done in the middle of the recovery loop.\<close>

definition half_restored :: "bincode \<Rightarrow> qstate \<Rightarrow> string list \<Rightarrow> qstate \<Rightarrow> bool" where
  "half_restored B s0 todo s \<longleftrightarrow>
     wf_state B s \<and> sorted_state s \<and> declared (cont s) = declared (cont s0) \<and>
     cont s META_QUEUES_TREE = cont s0 META_QUEUES_TREE \<and> cont s META_RETENTION_TREE = cont s0 META_RETENTION_TREE \<and>
     used s = used s0 \<and> budget s = budget s0 \<and>
     set todo \<subseteq> declared (cont s0) \<and> distinct todo \<and> next_id s + inflight_total (cont s0) todo \<le> 2 ^ 64 \<and>
     (\<forall>p \<in> declared (cont s0).
        if p \<in> set todo then \<forall>t \<in> trees p. cont s t = cont s0 t else restored B (cont s0) (cont s) p)"

lemma requeues_healthy: "requeues False B src q xs s s' \<Longrightarrow> next_id s' = next_id s + length xs"
  by (induction rule: requeues.induct) (auto simp: took_id_def)

lemma requeue_fails_healthy:
  "requeue_fails False B src q xs s e s' \<Longrightarrow> \<forall>kv \<in> set xs. canon B (snd kv) \<Longrightarrow> 2 ^ 64 < next_id s + length xs"
  by (induction rule: requeue_fails.induct) (auto simp: took_id_def canon_def)

lemma requeues_None_rest:
  "requeues f B None q xs s s' \<Longrightarrow> t \<noteq> q \<Longrightarrow> cont s' t = cont s t"
  by (induction rule: requeues.induct) (auto simp: requeue_one_def Let_def)

lemma recover_queue_healthy:
  assumes sp: "recover_queue_spec False B q s r s'" and wf: "wf_state B s" and st: "sorted_state s"
    and q: "q \<in> declared (cont s)" and ids: "next_id s + length (cont s (inflight_tree_name q)) \<le> 2 ^ 64"
  shows "r = Ok () \<and> restored B (cont s) (cont s') q \<and> only q s s' \<and>
    cont s' META_RETENTION_TREE = cont s META_RETENTION_TREE \<and> used s' = used s \<and> budget s' = budget s \<and>
    next_id s' = next_id s + length (cont s (inflight_tree_name q))"
proof -
  let ?i = "inflight_tree_name q"
  have pl: "plain_name q" using wf_state_queue(1) [OF wf q] .
  from sp obtain es where es: "subseq es (cont s ?i)"
    and r: "case r of
           Ok _ \<Rightarrow> es = cont s ?i \<and> recovered False B q es (keys es) s s'
         | Err e \<Rightarrow> requeue_fails False B None q es s e s'
         | _ \<Rightarrow> False" by (cases r) (auto simp: recover_queue_spec_def)
  have cn: "\<forall>kv \<in> set es. canon B (snd kv)" using wf_canon [OF wf q] subseq_subset [OF es] by fast
  have "length es \<le> length (cont s ?i)" using es by (rule list_emb_length)
  then have "\<not> requeue_fails False B None q es s e s'" for e
    using requeue_fails_healthy [OF _ cn, of None q s e s'] ids by auto
  with r have ok: "r = Ok ()" and full: "es = cont s ?i" and rec: "recovered False B q es (keys es) s s'"
    by (auto split: outcome.splits)
  from rec obtain s1 where rq: "requeues False B None q es s s1"
    and s': "s' = s1\<lparr>cont := (cont s1)(?i := without (keys es) (cont s1 ?i))\<rparr>"
    by (auto simp: recovered_def)
  have i1: "cont s1 ?i = es" using requeues_None_rest [OF rq, of ?i] full by simp
  have "decoded B (cont s1 q) = put_all (decoded B es) (decoded B (cont s q))"
    using requeues_waiting [OF rq cn wf q] by simp
  then have "restored B (cont s) (cont s') q"
    using full i1 requeues_None_rest [OF rq] recovered_stored(4) [OF rec wf st q es _ full refl] pl
    by (simp add: restored_def s')
  moreover have "only q s s'" using recovered_stored(1) [OF rec wf st q es] by simp
  moreover have "cont s' META_RETENTION_TREE = cont s META_RETENTION_TREE"
    using requeues_None_rest [OF rq, of META_RETENTION_TREE] pl by (simp add: s')
  ultimately show ?thesis
    using ok full requeues_healthy [OF rq] requeues_used [OF rq] requeues_budget [OF rq] by (simp add: s')
qed


lemma only_trees:
  assumes "only q s s'" "plain_name q" "plain_name p" "p \<noteq> q" "t \<in> trees p"
  shows "cont s' t = cont s t"
  using assms trees_disjoint [of p q t] trees_meta [of p] unfolding only_def by metis

lemma restored_frame:
  assumes "restored B V V' q" "\<And>t. t \<in> trees q \<Longrightarrow> V1 t = V t" "\<And>t. t \<in> trees q \<Longrightarrow> V1' t = V' t"
  shows "restored B V1 V1' q"
  using assms stored_frame [of q V1 V] stored_frame [of q V1' V'] by (simp add: restored_def trees_def)

lemma inflight_total_simps [simp]:
  "inflight_total V [] = 0"
  "inflight_total V (q # names) = length (V (inflight_tree_name q)) + inflight_total V names"
  by (simp_all add: inflight_total_def)

lemma half_restored_step:
  assumes h: "half_restored B s0 (q # todo) s" and sp: "recover_queue_spec False B q s r s'" and st: "sorted_state s'"
  shows "r = Ok () \<and> half_restored B s0 todo s'"
proof -
  from h have wf: "wf_state B s" and q: "q \<in> declared (cont s)" and d: "declared (cont s) = declared (cont s0)"
    by (auto simp: half_restored_def)
  have pl: "plain_name p" if "p \<in> declared (cont s)" for p using wf_state_queue(1) [OF wf that] .
  have same: "\<forall>t \<in> trees q. cont s t = cont s0 t" using h q d by (auto simp: half_restored_def)
  then have i: "cont s (inflight_tree_name q) = cont s0 (inflight_tree_name q)" by (simp add: trees_def)
  note rq = recover_queue_healthy [OF sp wf _ q]
  have ids: "next_id s + length (cont s (inflight_tree_name q)) \<le> 2 ^ 64"
    using h i by (simp add: half_restored_def)
  have res: "r = Ok ()" "restored B (cont s) (cont s') q" and o: "only q s s'"
    and rest: "cont s' META_RETENTION_TREE = cont s META_RETENTION_TREE" "used s' = used s" "budget s' = budget s"
      "next_id s' = next_id s + length (cont s (inflight_tree_name q))"
    using rq [OF _ ids] h by (auto simp: half_restored_def)
  note wf' = recover_queue_wf [OF sp wf q]
  have "if p \<in> set todo then \<forall>t \<in> trees p. cont s' t = cont s0 t else restored B (cont s0) (cont s') p"
    if p: "p \<in> declared (cont s0)" for p
  proof (cases "p = q")
    case True
    then show ?thesis
      using h restored_frame [OF res(2), of "cont s0" "cont s'"] same by (auto simp: half_restored_def)
  next
    case False
    have fr: "cont s' t = cont s t" if "t \<in> trees p" for t
      using only_trees [OF o pl [OF q] pl False that] p d by simp
    show ?thesis
    proof (cases "p \<in> set todo")
      case True
      then show ?thesis using h p fr by (auto simp: half_restored_def)
    next
      case f: False
      then have "restored B (cont s0) (cont s) p" using h p False by (auto simp: half_restored_def)
      from restored_frame [OF this, of "cont s0" "cont s'"] fr f show ?thesis by simp
    qed
  qed
  moreover have "cont s' META_QUEUES_TREE = cont s META_QUEUES_TREE"
    using o pl [OF q] by (simp add: only_def)
  ultimately show ?thesis
    using h res(1) rest wf' st i by (auto simp: half_restored_def)
qed

context engine
begin

lemma distinct_queue_names: "distinct (queue_names (view d))"
  by (simp add: queue_names_def distinct_view)

lemma recover_inflight_healthy:
  assumes "\<not> faulty" "wf_state B (abs m)" "next_id (abs m) + inflight_total (view (mgr_db m)) (queue_names (view (mgr_db m))) \<le> 2 ^ 64"
  shows "wp (recover_inflight S B) (\<lambda>r m'. r = Ok () \<and> half_restored B (abs m) [] (abs m')) m"
proof -
  let ?names = "queue_names (view (mgr_db m))"
  have "wp (for_each (recover_queue S B) ?names) (\<lambda>r m'. r = Ok () \<and> half_restored B (abs m) [] (abs m')) m"
  proof (rule wp_for_each [where I = "\<lambda>names m'. half_restored B (abs m) names (abs m')"])
    have sub: "set ?names \<subseteq> declared (view (mgr_db m))" by (auto simp: queue_names_def declared_def)
    have all: "p \<in> set ?names" if "p \<in> declared (view (mgr_db m))" for p
      using that assms(2) by (auto simp: queue_names_def declared_def wf_state_def wf_store_def)
    show "half_restored B (abs m) ?names (abs m)"
      using assms(2,3) sub all distinct_queue_names by (auto simp: half_restored_def)
  next
    fix q names m1 assume I: "half_restored B (abs m) (q # names) (abs m1)"
    show "wp (recover_queue S B q) (on_ok (\<lambda>_ m'. half_restored B (abs m) names (abs m'))
       (\<lambda>r m'. r = Ok () \<and> half_restored B (abs m) [] (abs m'))) m1"
    proof (rule wp_mono [OF recover_queue_refines], goal_cases)
      case (1 r m2)
      with half_restored_step [OF I _ sorted_abs, of r m2] assms(1)
      have "r = Ok ()" "half_restored B (abs m) names (abs m2)" by auto
      then show ?case by simp
    qed
  qed simp
  then show ?thesis
    unfolding recover_inflight_def wp_bnd
    by (intro wp_mono [OF list_queues_wp]) (use assms in \<open>auto split: outcome.splits\<close>)
qed

lemma open_manager_healthy:
  assumes nf: "\<not> faulty" and wf: "wf_store B (view d) (nxt d)"
    and ids: "nxt d + inflight_total (view d) (queue_names (view d)) \<le> 2 ^ 64"
  shows "\<exists>m'. open_manager S B (Inr d) mx = (Ok (), Some m') \<and> wf_state B (abs m') \<and> max_bytes m' = mx \<and>
    current_bytes m' = of_nat (stored_bytes (view d)) \<and> declared (view (mgr_db m')) = declared (view d) \<and>
    view (mgr_db m') META_RETENTION_TREE = view d META_RETENTION_TREE \<and>
    (\<forall>q \<in> declared (view d). restored B (view d) (view (mgr_db m')) q)"
proof -
  let ?m = "\<lparr>mgr_db = d, current_bytes = 0, max_bytes = mx\<rparr>"
  let ?c = "bnd (q_open_tree S META_QUEUES_TREE) (\<lambda>_.
             bnd (q_open_tree S META_RETENTION_TREE) (\<lambda>_.
             bnd (recalculate_bytes S) (\<lambda>tot.
             bnd (modify (\<lambda>m. m\<lparr>current_bytes := tot\<rparr>)) (\<lambda>_.
             recover_inflight S B))))"
  define s0 where "s0 = \<lparr>cont = view d, next_id = nxt d, used = of_nat (stored_bytes (view d)), budget = mx\<rparr>"
  have s0: "cont s0 = view d" "next_id s0 = nxt d" "used s0 = of_nat (stored_bytes (view d))" "budget s0 = mx"
    by (simp_all add: s0_def)
  have rec: "wp (recover_inflight S B) (\<lambda>r m'. r = Ok () \<and> half_restored B s0 [] (abs m')) m1"
    if "abs m1 = s0" for m1
    by (rule wp_mono [OF recover_inflight_healthy [of m1]])
      (use that nf wf ids in \<open>auto simp: abs_state_eq wf_state_def s0(1-3)\<close>)
  have recalc: "wp (bnd (recalculate_bytes S) (\<lambda>tot. bnd (modify (\<lambda>m. m\<lparr>current_bytes := tot\<rparr>)) (\<lambda>_.
      recover_inflight S B))) (\<lambda>r m'. r = Ok () \<and> half_restored B s0 [] (abs m')) m2"
    if "view (mgr_db m2) = view d" "nxt (mgr_db m2) = nxt d" "max_bytes m2 = budget s0" for m2
    unfolding wp_bnd [of "recalculate_bytes S"]
  proof (rule wp_mono [OF recalculate_refines], goal_cases)
    case (1 x m3)
    then show ?case
      using that nf by (cases x)
        (auto simp: recalculate_spec_def wp_simps abs_state_eq s0(1-3) intro!: rec split: pelican_error.splits)
  qed
  have "wp ?c (\<lambda>r m'. r = Ok () \<and> half_restored B s0 [] (abs m')) ?m"
    unfolding wp_bnd [of "on_db c" for c] wp_on_db
    using nf by (auto intro!: wp_open_tree recalc simp: s0)
  then obtain m' where run: "?c ?m = (Ok (), m')" and h: "half_restored B s0 [] (abs m')"
    unfolding wp_def by (auto split: prod.splits)
  have "open_manager S B (Inr d) mx = (Ok (), Some m')" using run by (simp add: open_manager_def)
  with h show ?thesis by (auto simp: half_restored_def s0)
qed

end

end
