(* ===== verification/Queue_Abstract.thy ===== *)
theory Queue_Abstract
  imports Queue_Recovery
begin

text \<open>
  The abstract message queue and the functional refinement.  A queue is five components: the
  messages ready for delivery in delivery order, the messages in flight by delivery tag, the dead
  letters, the delayed messages in order of their delivery time, and the recently seen
  deduplication keys.  \<^verbatim>\<open>queue_of\<close> reads this state off the database trees; the lemmas say that each
  successful operation of \<^verbatim>\<open>QueueManager\<close> is the abstract operation of the same name and touches no
  other queue.
\<close>

section \<open>The abstract machine\<close>

record mq_state =
  ready :: "message list"
  flight :: "u64 \<Rightarrow> message option"
  dead :: "message list"
  delayed :: "message list"
  recent :: "string \<Rightarrow> i64 option"

definition due_time :: "message \<Rightarrow> int" where
  "due_time m = (case deliver_at m of None \<Rightarrow> 0 | Some at \<Rightarrow> sint at)"

fun put_delayed :: "message \<Rightarrow> message list \<Rightarrow> message list" where
  "put_delayed m [] = [m]"
| "put_delayed m (x # xs) = (if due_time m < due_time x then m # x # xs else x # put_delayed m xs)"

definition queue_of :: "bincode \<Rightarrow> contents \<Rightarrow> string \<Rightarrow> mq_state" where
  "queue_of B V q =
     \<lparr>ready = decoded B (V q),
      flight = (\<lambda>t. map_option (\<lambda>v. projr (de_message B v)) (map_of (V (inflight_tree_name q)) (to_be_bytes t))),
      dead = decoded B (V (dlq_tree_name q)),
      delayed = decoded B (V (scheduled_tree_name q)),
      recent = (\<lambda>k. map_option (\<lambda>b. from_be_bytes (take 8 b)) (map_of (V (dedup_tree_name q)) k))\<rparr>"

definition aq_duplicate :: "retention_policy \<Rightarrow> i64 \<Rightarrow> message \<Rightarrow> mq_state \<Rightarrow> bool" where
  "aq_duplicate P now msg a =
     (case (dedup_window_secs P, dedup_key msg) of
        (Some w, Some k) \<Rightarrow>
          w > 0 \<and> (case recent a k of None \<Rightarrow> False | Some t \<Rightarrow> i64_less (now - w * 1000) t)
      | _ \<Rightarrow> False)"

definition aq_seen :: "retention_policy \<Rightarrow> i64 \<Rightarrow> message \<Rightarrow> mq_state \<Rightarrow> mq_state" where
  "aq_seen P now msg a =
     (case (dedup_window_secs P, dedup_key msg) of
        (Some _, Some k) \<Rightarrow> a\<lparr>recent := (recent a)(k \<mapsto> now)\<rparr>
      | _ \<Rightarrow> a)"

definition aq_publish :: "i64 \<Rightarrow> message \<Rightarrow> mq_state \<Rightarrow> mq_state" where
  "aq_publish now msg a =
     (case due_later msg now of
        None \<Rightarrow> a\<lparr>ready := put msg (ready a)\<rparr>
      | Some _ \<Rightarrow> a\<lparr>delayed := put_delayed msg (delayed a)\<rparr>)"

definition aq_nack :: "retention_policy \<Rightarrow> u64 \<Rightarrow> message \<Rightarrow> mq_state \<Rightarrow> mq_state" where
  "aq_nack P t msg a =
     (let a' = a\<lparr>flight := (flight a)(t := None)\<rparr>; msg' = bump msg in
      if exhausted P msg' then a'\<lparr>dead := put msg' (dead a)\<rparr>
      else a'\<lparr>ready := put msg' (ready a)\<rparr>)"

definition aq_promote :: "i64 \<Rightarrow> mq_state \<Rightarrow> mq_state" where
  "aq_promote now a =
     a\<lparr>ready := put_all (filter (\<lambda>m. due_time m \<le> sint now) (delayed a)) (ready a),
       delayed := filter (\<lambda>m. \<not> due_time m \<le> sint now) (delayed a)\<rparr>"

definition aq_retain :: "i64 \<Rightarrow> retention_policy \<Rightarrow> mq_state \<Rightarrow> mq_state" where
  "aq_retain now P a =
     (let young = (case max_age_secs P of
                     None \<Rightarrow> ready a
                   | Some secs \<Rightarrow> filter (\<lambda>m. i64_less (now - timestamp m) (secs * 1000)) (ready a))
      in a\<lparr>ready := (case max_messages P of
                       None \<Rightarrow> young
                     | Some n \<Rightarrow> drop (length young - unat n) young)\<rparr>)"

section \<open>Reading the trees\<close>

lemma queue_of_frame: "(\<And>t. t \<in> trees q \<Longrightarrow> V' t = V t) \<Longrightarrow> queue_of B V' q = queue_of B V q"
  by (simp add: queue_of_def trees_def)

lemma queue_of_only:
  assumes "only q s s'" "wf_state B s" "q \<in> declared (cont s)" "p \<in> declared (cont s)" "p \<noteq> q"
  shows "queue_of B (cont s') p = queue_of B (cont s) p"
  using only_trees [OF assms(1)] wf_state_queue(1) [OF assms(2)] assms(3-5) by (intro queue_of_frame) auto

lemma put_delayed_insert:
  assumes "\<forall>kv \<in> set xs. scheduled_entry B n kv" "n \<le> unat i" "de_message B v = Inr m"
    and "deliver_at m = Some at" "0 \<le> sint at"
  shows "decoded B (ot_insert (encode_scheduled_key at i) v xs) = put_delayed m (decoded B xs)"
  using assms(1)
proof (induction xs)
  case (Cons kv xs)
  obtain k b where kv: "kv = (k, b)" by force
  with Cons.prems have "scheduled_entry B n (k, b)" by simp
  then obtain j m' at' where e: "de_message B b = Inr m'" "deliver_at m' = Some at'" "0 \<le> sint at'"
    "k = encode_scheduled_key at' j" "unat j < n" by (rule scheduled_entryE)
  then have ij: "\<not> i < j" "i \<noteq> j" using assms(2) by (auto simp: word_less_nat_alt)
  have "encode_scheduled_key at i < k \<longleftrightarrow> sint at < sint at'"
    using ij sint_nonneg [OF e(3)] sint_nonneg [OF assms(5)]
    by (auto simp: e(4) encode_scheduled_key_def append_less_length word_less_def)
  moreover have "encode_scheduled_key at i \<noteq> k"
    using ij by (simp add: e(4) encode_scheduled_key_def)
  ultimately show ?case using Cons e assms(3,4) by (simp add: kv due_time_def)
qed (use assms in simp)

lemma dedup_hit_abs: "dedup_hit V q P msg now = aq_duplicate P now msg (queue_of B V q)"
  by (auto simp: dedup_hit_def dedup_recorded_def aq_duplicate_def queue_of_def split: option.splits)

lemma dedup_store_abs:
  "plain_name q \<Longrightarrow> queue_of B (dedup_store V q P msg now) q = aq_seen P now msg (queue_of B V q)"
  by (auto simp: dedup_store_def aq_seen_def queue_of_def split: option.splits)

lemma enqueue_abs:
  assumes wf: "wf_state B s" and q: "q \<in> declared (cont s)" and id: "took_id f (next_id s) n'"
    and de: "de_message B b = Inr msg" and clk: "0 \<le> sint now"
  shows "queue_of B (enqueue (cont s) q msg now (of_nat (next_id s)) b) q = aq_publish now msg (queue_of B (cont s) q)"
proof (cases "due_later msg now")
  case None
  note l = wf_state_queue [OF wf q]
  have "\<forall>kv \<in> set (cont s q). main_entry B (next_id s) kv" using l(2) by (simp add: wf_lists_def)
  from put_insert [OF this _ de, of "of_nat (next_id s)"] None l(1) took_idD(3) [OF id] show ?thesis
    by (simp add: enqueue_def aq_publish_def queue_of_def)
next
  case (Some at)
  note l = wf_state_queue [OF wf q]
  have at: "deliver_at msg = Some at" "0 \<le> sint at"
    using Some clk by (auto simp: due_later_def i64_less_def split: option.splits if_splits)
  have "\<forall>kv \<in> set (cont s (scheduled_tree_name q)). scheduled_entry B (next_id s) kv"
    using l(2) by (simp add: wf_lists_def)
  from put_delayed_insert [OF this _ de at, of "of_nat (next_id s)"] Some l(1) took_idD(3) [OF id] show ?thesis
    by (simp add: enqueue_def aq_publish_def queue_of_def)
qed

section \<open>Functional refinement\<close>

lemma publish_abs:
  assumes B: "bincode_codec B" and sp: "publish_spec f B clk q msg s (Ok (Stored i)) s'" and wf: "wf_state B s"
    and clk: "0 \<le> sint (clk 1)"
  shows "queue_of B (cont s') q =
    aq_seen (policy_in B (cont s) q) (clk 2) msg (aq_publish (clk 1) msg (queue_of B (cont s) q))"
proof -
  obtain b where ser: "ser_message B msg = Inr b" using bincode_codec.ser_message_total [OF B] by blast
  then have de: "de_message B b = Inr msg" using bincode_codec.message_roundtrip [OF B] by blast
  from sp obtain n' where q: "q \<in> declared (cont s)" and id: "took_id f (next_id s) n'"
    and s': "cont s' = dedup_store (enqueue (cont s) q msg (clk 1) (of_nat (next_id s)) b) q
      (policy_in B (cont s) q) msg (clk 2)"
    by (auto simp: publish_spec_def Let_def ser)
  show ?thesis
    unfolding s' dedup_store_abs [OF wf_state_queue(1) [OF wf q]] enqueue_abs [OF wf q id de clk] ..
qed

lemma consume_abs:
  assumes sp: "consume_spec f B q s (Ok (Some (tag, msg))) s'" and wf: "wf_state B s" and st: "sorted_state s"
  defines "a \<equiv> queue_of B (cont s) q"
  shows "\<exists>ms. ready a = msg # ms \<and> flight a (tag_u64 tag) = None \<and> (\<forall>x \<in> set ms. rank msg \<le> rank x) \<and>
    queue_of B (cont s') q = a\<lparr>ready := ms, flight := (flight a)(tag_u64 tag \<mapsto> msg)\<rparr>"
proof -
  from sp obtain k v rest where q: "q \<in> declared (cont s)" and hd: "cont s q = (k, v) # rest"
    and de: "de_message B v = Inr msg" and tag: "tag = DeliveryTag (from_be_bytes (take 8 (drop 1 k)))"
    and s': "cont s' = took_head (cont s) q k v"
    by (auto simp: consume_spec_def)
  note l = wf_state_queue [OF wf q]
  have me: "\<forall>kv \<in> set (cont s q). main_entry B (next_id s) kv" using l(2) by (simp add: wf_lists_def)
  then have "main_entry B (next_id s) (k, v)" by (simp add: hd)
  then obtain i m' where k: "de_message B v = Inr m'" "k = encode_key (priority m') i" by (rule main_entryE)
  have t: "tag_u64 tag = i" by (simp add: tag k(2))
  have "key_id k = i" by (simp add: k(2))
  moreover have "key_id ` set (keys (cont s q)) \<inter> from_be_bytes ` set (keys (cont s (inflight_tree_name q))) = {}"
    using l(2) by (simp add: wf_lists_def)
  ultimately have "i \<notin> from_be_bytes ` set (keys (cont s (inflight_tree_name q)))"
    using hd by auto
  then have none: "map_of (cont s (inflight_tree_name q)) (to_be_bytes i) = None"
    unfolding map_of_eq_None_iff by (metis image_eqI list.set_map to_be_bytes_64(1))
  have "sorted (map rank (decoded B (cont s q)))" using wf_sorted_rank [OF _ me] st by simp
  moreover have "ot_remove k (cont s q) = rest" using st ot_remove_head [of k v rest] hd by (metis sorted_stateD)
  ultimately show ?thesis
    using l(1) none de t hd unfolding a_def
    by (auto simp: queue_of_def s' took_head_def k(2) fun_eq_iff)
qed

lemma ack_abs:
  assumes sp: "ack_spec f q tag s (Ok u) s'" and wf: "wf_state B s"
  defines "a \<equiv> queue_of B (cont s) q"
  shows "flight a (tag_u64 tag) \<noteq> None \<and> queue_of B (cont s') q = a\<lparr>flight := (flight a)(tag_u64 tag := None)\<rparr>"
proof -
  from sp have q: "q \<in> declared (cont s)" by (auto simp: ack_spec_def Let_def)
  with sp wf_state_queue(1) [OF wf q] show ?thesis
    unfolding a_def by (auto simp: ack_spec_def Let_def queue_of_def fun_eq_iff)
qed

lemma nack_abs:
  assumes B: "bincode_codec B" and sp: "nack_spec f B q tag s (Ok u) s'" and wf: "wf_state B s"
  defines "a \<equiv> queue_of B (cont s) q"
  shows "\<exists>msg. flight a (tag_u64 tag) = Some msg \<and>
    queue_of B (cont s') q = aq_nack (policy_in B (cont s) q) (tag_u64 tag) msg a"
proof -
  let ?P = "policy_in B (cont s) q"
  from sp obtain v msg b n' where q: "q \<in> declared (cont s)" and id: "took_id f (next_id s) n'"
    and v: "map_of (cont s (inflight_tree_name q)) (to_be_bytes (tag_u64 tag)) = Some v"
    and msg: "de_message B v = Inr msg" "ser_message B (bump msg) = Inr b"
    and s': "cont s' = put_back (cont s) q (reject_tree ?P q (bump msg))
        (to_be_bytes (tag_u64 tag)) (encode_key (priority msg) (of_nat (next_id s))) b"
    unfolding nack_spec_def Let_def by auto
  note l = wf_state_queue [OF wf q]
  have de: "de_message B b = Inr (bump msg)" using bincode_codec.message_roundtrip [OF B msg(2)] .
  have pr: "priority (bump msg) = priority msg" by (simp add: bump_def)
  have "\<forall>kv \<in> set (cont s q). main_entry B (next_id s) kv" "\<forall>kv \<in> set (cont s (dlq_tree_name q)). main_entry B (next_id s) kv"
    using l(2) by (simp_all add: wf_lists_def)
  note ins = this [THEN put_insert, OF _ de, of "of_nat (next_id s)", unfolded pr]
  show ?thesis
    using ins took_idD(3) [OF id] l(1) v msg(1) unfolding a_def
    by (auto simp: s' put_back_def reject_tree_def queue_of_def aq_nack_def Let_def fun_eq_iff)
qed

lemma requeues_rest:
  assumes "requeues f B (Some (scheduled_tree_name q)) q xs s s'" "plain_name q"
    and "cont s (scheduled_tree_name q) = xs @ ys" "ot_sorted (xs @ ys)"
  shows "cont s' (scheduled_tree_name q) = ys \<and> (\<forall>t. t \<noteq> q \<longrightarrow> t \<noteq> scheduled_tree_name q \<longrightarrow> cont s' t = cont s t)"
  using assms
proof (induction rule: requeues.induct)
  case (requeues_Cons s n' kv xs s')
  have "ot_remove (fst kv) (kv # xs @ ys) = xs @ ys"
    using requeues_Cons.prems by (cases kv) (simp add: ot_remove_head)
  with requeues_Cons show ?case by (cases kv) (simp add: requeue_one_def Let_def ot_simps)
qed simp

lemma is_due_time: "scheduled_entry B n kv \<Longrightarrow> is_due now kv \<longleftrightarrow> due_time (projr (de_message B (snd kv))) \<le> sint now"
  by (erule is_due_entry [where now = now]) (simp add: due_time_def)

lemma decoded_filter:
  "(\<And>kv. kv \<in> set xs \<Longrightarrow> P kv \<longleftrightarrow> Q (projr (de_message B (snd kv)))) \<Longrightarrow>
     decoded B (filter P xs) = filter Q (decoded B xs)"
  by (induction xs) auto

lemma promote_abs:
  assumes sp: "promote_spec f B now q s (Ok n) s'" and wf: "wf_state B s" and st: "sorted_state s"
  defines "a \<equiv> queue_of B (cont s) q"
  shows "n = length (filter (\<lambda>m. due_time m \<le> sint now) (delayed a)) \<and> queue_of B (cont s') q = aq_promote now a"
proof -
  let ?xs = "cont s (scheduled_tree_name q)"
  from sp have q: "q \<in> declared (cont s)" and n: "n = length (takeWhile (is_due now) ?xs)"
    and rq: "requeues f B (Some (scheduled_tree_name q)) q (takeWhile (is_due now) ?xs) s s'"
    by (auto simp: promote_spec_def Let_def)
  note l = wf_state_queue [OF wf q]
  have se: "\<forall>kv \<in> set ?xs. scheduled_entry B (next_id s) kv" using l(2) by (simp add: wf_lists_def)
  have so: "ot_sorted ?xs" using st by simp
  note pre = due_prefix [OF so se, of now]
  have cn: "\<forall>kv \<in> set (takeWhile (is_due now) ?xs). canon B (snd kv)" using wf_canon [OF wf q] set_takeWhileD by fast
  have due: "is_due now kv \<longleftrightarrow> due_time (projr (de_message B (snd kv))) \<le> sint now" if "kv \<in> set ?xs" for kv
    using is_due_time se that by blast
  have d: "decoded B (takeWhile (is_due now) ?xs) = filter (\<lambda>m. due_time m \<le> sint now) (decoded B ?xs)"
      "decoded B (dropWhile (is_due now) ?xs) = filter (\<lambda>m. \<not> due_time m \<le> sint now) (decoded B ?xs)"
    unfolding pre by (rule decoded_filter, simp add: due)+
  note rest = requeues_rest [OF rq l(1), of "dropWhile (is_due now) ?xs"]
  have "length (takeWhile (is_due now) ?xs) = length (filter (\<lambda>m. due_time m \<le> sint now) (decoded B ?xs))"
    unfolding d(1) [symmetric] by (simp add: decoded_def)
  then show ?thesis
    using n requeues_waiting [OF rq cn wf q] rest so d l(1) unfolding a_def
    by (simp add: queue_of_def aq_promote_def)
qed

lemma retention_abs:
  assumes sp: "retention_spec f B now q s (Ok n) s'" and wf: "wf_state B s"
  defines "a \<equiv> queue_of B (cont s) q"
  shows "n = length (ready a) - length (ready (queue_of B (cont s') q)) \<and>
    queue_of B (cont s') q = aq_retain now (policy_in B (cont s) q) a"
proof -
  let ?P = "policy_in B (cont s) q"
  from sp have q: "q \<in> declared (cont s)" and n: "n = length (cont s q) - length (retained B now ?P (cont s q))"
    and s': "cont s' = (cont s)(q := retained B now ?P (cont s q))"
    by (auto simp: retention_spec_def Let_def)
  note l = wf_state_queue [OF wf q]
  have ok: "\<not> isl (de_message B (snd kv))" if "kv \<in> set (cont s q)" for kv using wf_no_panic(2) [OF wf q that] by simp
  have age: "decoded B (retained_age B now age (cont s q)) =
      (case age of None \<Rightarrow> decoded B (cont s q)
       | Some secs \<Rightarrow> filter (\<lambda>m. i64_less (now - timestamp m) (secs * 1000)) (decoded B (cont s q)))" for age
    using ok by (cases age) (auto simp: retained_age_def is_expired_def intro!: decoded_filter split: sum.splits)
  have count: "decoded B (retained_count mx xs) =
      (case mx of None \<Rightarrow> decoded B xs | Some k \<Rightarrow> drop (length (decoded B xs) - unat k) (decoded B xs))" for mx xs
    by (cases mx) (simp_all add: retained_count_def decoded_def drop_map)
  have "ready (aq_retain now ?P a) = decoded B (retained B now ?P (cont s q))"
    unfolding retained_def count age a_def
    by (cases "max_age_secs ?P"; cases "max_messages ?P") (simp_all add: aq_retain_def queue_of_def Let_def)
  moreover have "queue_of B (cont s') q = a\<lparr>ready := decoded B (retained B now ?P (cont s q))\<rparr>"
    using l(1) by (simp add: s' queue_of_def a_def)
  moreover have "aq_retain now ?P a = a\<lparr>ready := ready (aq_retain now ?P a)\<rparr>"
    by (simp add: aq_retain_def Let_def)
  ultimately show ?thesis
    by (simp add: n) (simp add: decoded_def a_def queue_of_def)
qed

end
