(* ===== verification/Queue_Behaviour.thy ===== *)
theory Queue_Behaviour
  imports Queue_Abstract
begin

text \<open>
  The behaviour of the operations on reachable states, in terms of the abstract queue of
  \<^verbatim>\<open>Queue_Abstract\<close>: which outcome each operation has on a healthy database, and that a call on one
  queue leaves the others alone whatever the database does.
\<close>

section \<open>Sequences of calls\<close>

fun call_queue :: "call \<Rightarrow> string" where
  "call_queue (CDeclare q P) = q"
| "call_queue (CPublish clk q msg) = q"
| "call_queue (CConsume q) = q"
| "call_queue (CAck q tag) = q"
| "call_queue (CNack q tag) = q"
| "call_queue (CPromote now q) = q"
| "call_queue (CRetain now q) = q"

fun publish_all :: "'db sled \<Rightarrow> bincode \<Rightarrow> (nat \<Rightarrow> i64) \<Rightarrow> string \<Rightarrow> message list \<Rightarrow> ('db, unit) mprog" where
  "publish_all S B clk q [] = ret ()"
| "publish_all S B clk q (msg # msgs) = bnd (publish S B clk q msg) (\<lambda>_. publish_all S B clk q msgs)"

fun consume_all :: "'db sled \<Rightarrow> bincode \<Rightarrow> string \<Rightarrow> nat \<Rightarrow> ('db, message list) mprog" where
  "consume_all S B q 0 = ret []"
| "consume_all S B q (Suc n) =
     bnd (consume S B q) (\<lambda>r.
     case r of
       None \<Rightarrow> ret []
     | Some (_, msg) \<Rightarrow> bnd (consume_all S B q n) (\<lambda>msgs. ret (msg # msgs)))"

section \<open>Calls are local\<close>

lemma same_or_only:
  assumes "cont s' = cont s \<or> q \<in> declared (cont s) \<and> only q s s' \<and> X" "wf_state B s"
    and "p \<in> declared (cont s)" "p \<noteq> q"
  shows "queue_of B (cont s') p = queue_of B (cont s) p \<and> p \<in> declared (cont s')"
  using assms queue_of_only [of q s s' B p] only_declared [of q s s'] wf_state_queue(1) [of B s q] by auto

lemma declare_local:
  assumes sp: "declare_spec f B q P s r s'" and wf: "wf_state B s" and p: "p \<in> declared (cont s)"
  shows "queue_of B (cont s') p = queue_of B (cont s) p \<and> p \<in> declared (cont s')"
proof -
  have "\<forall>t. t \<noteq> META_QUEUES_TREE \<longrightarrow> t \<noteq> META_RETENTION_TREE \<longrightarrow> cont s' t = cont s t"
    using sp by (cases r) (auto simp: declare_spec_def Let_def split: pelican_error.splits)
  with declare_effect [OF sp wf p] wf_state_queue(1) [OF wf p] show ?thesis
    by (auto simp: trees_def intro!: queue_of_frame)
qed

context engine
begin

lemma call_local:
  assumes wf: "wf_state B (abs m)" and p: "p \<in> declared (view (mgr_db m))" "p \<noteq> call_queue c"
  shows "wp (call_prog S B c) (\<lambda>r m'. queue_of B (view (mgr_db m')) p = queue_of B (view (mgr_db m)) p \<and>
     p \<in> declared (view (mgr_db m'))) m"
proof -
  have p': "p \<in> declared (cont (abs m))" using p by simp
  note loc = same_or_only [OF _ wf p', where s' = "abs m'" for m', unfolded abs_state_simps]
  show ?thesis
  proof (cases c)
    case (CDeclare q P)
    show ?thesis
      unfolding CDeclare call_prog.simps
      by (rule wp_mono [OF declare_refines], drule declare_local [OF _ wf p']) simp
  next
    case (CPublish clk q msg)
    show ?thesis
      unfolding CPublish call_prog.simps wp_discard
      by (rule wp_mono [OF publish_refines], rule on_ok_const, drule publish_effect [OF _ wf], rule loc)
        (use CPublish p in auto)
  next
    case (CConsume q)
    show ?thesis
      unfolding CConsume call_prog.simps wp_discard
      by (rule wp_mono [OF consume_refines], rule on_ok_const, drule consume_effect [OF _ wf sorted_abs], rule loc)
        (use CConsume p in auto)
  next
    case (CAck q tag)
    show ?thesis
      unfolding CAck call_prog.simps
      by (rule wp_mono [OF ack_refines], drule ack_effect [OF _ wf sorted_abs], rule loc)
        (use CAck p in \<open>auto simp: abs_state_eq\<close>)
  next
    case (CNack q tag)
    show ?thesis
      unfolding CNack call_prog.simps
      by (rule wp_mono [OF nack_refines], drule nack_effect [OF _ wf sorted_abs], rule loc)
        (use CNack p in auto)
  next
    case (CPromote now q)
    show ?thesis
      unfolding CPromote call_prog.simps wp_discard
      by (rule wp_mono [OF promote_refines], rule on_ok_const, drule promote_effect [OF _ wf sorted_abs], rule loc)
        (use CPromote p in auto)
  next
    case (CRetain now q)
    show ?thesis
      unfolding CRetain call_prog.simps wp_discard
      by (rule wp_mono [OF retention_refines], rule on_ok_const, drule retention_effect [OF _ wf], rule loc)
        (use CRetain p in \<open>auto simp: abs_state_eq\<close>)
  qed
qed

end

section \<open>Outcomes on a healthy database\<close>

lemma publish_outcome:
  assumes "publish_spec False B clk q msg s r s'" "wf_state B s" "q \<in> declared (cont s)" "next_id s < 2 ^ 64"
    and ser: "ser_message B msg = Inr b"
  shows "if aq_duplicate (policy_in B (cont s) q) (clk 0) msg (queue_of B (cont s) q)
         then r = Ok Deduplicated \<and> s' = s
         else (case storage_limit (budget s) (used s) (of_nat (length b)) of
                 Some e \<Rightarrow> r = Err e \<and> s' = s
               | None \<Rightarrow> r = Ok (Stored (msg_id msg)) \<and> next_id s' = Suc (next_id s) \<and> budget s' = budget s \<and>
                   used s' = used s + of_nat (length b))"
  using assms(1,3,4) wf_no_panic(1) [OF assms(2,3)]
  unfolding dedup_hit_abs [symmetric] publish_spec_def Let_def ser
  by (cases r)
    (auto simp: took_id_def storage_limit_def split: publish_outcome.splits pelican_error.splits option.splits)

lemma consume_outcome:
  assumes "consume_spec False B q s r s'" "wf_state B s" "q \<in> declared (cont s)"
  shows "r = Ok None \<and> ready (queue_of B (cont s) q) = [] \<and> s' = s \<or>
    (\<exists>tag msg. r = Ok (Some (tag, msg))) \<and> used s' = used s \<and> next_id s' = next_id s"
proof -
  have ok: "\<not> isl (de_message B v) \<and> length k = 9" if "cont s q = (k, v) # rest" for k v rest
    using wf_no_panic(2) [OF assms(2,3), of "(k, v)"] that by simp
  show ?thesis
  proof (cases r)
    case (Ok x)
    with assms(1) show ?thesis by (cases x) (auto simp: consume_spec_def queue_of_def)
  next
    case (Err e)
    with assms(1,3) ok show ?thesis by (cases e) (fastforce simp: consume_spec_def)+
  qed (use assms(1) ok in \<open>force simp: consume_spec_def\<close>)+
qed

lemma ack_outcome:
  assumes "ack_spec False q tag s r s'" "q \<in> declared (cont s)"
  shows "if flight (queue_of B (cont s) q) (tag_u64 tag) = None
         then r = Err (InvalidDeliveryTag tag) \<and> s' = s
         else r = Ok ()"
  using assms by (cases r) (auto simp: ack_spec_def Let_def queue_of_def split: pelican_error.splits)

lemma nack_outcome:
  assumes "nack_spec False B q tag s r s'" "wf_state B s" "q \<in> declared (cont s)" "next_id s < 2 ^ 64"
  shows "used s' = used s \<and> (if flight (queue_of B (cont s) q) (tag_u64 tag) = None
         then r = Err (InvalidDeliveryTag tag) \<and> cont s' = cont s
         else r = Ok ())"
proof -
  have "\<not> isl (de_message B v)" if "map_of (cont s (inflight_tree_name q)) k = Some v" for k v
    using wf_no_panic(3) [OF assms(2,3)] map_of_SomeD [OF that] by fastforce
  then show ?thesis
    using assms(1,3,4)
    by (cases r) (auto simp: nack_spec_def Let_def queue_of_def split: pelican_error.splits option.splits)
qed

lemma promote_outcome:
  assumes sp: "promote_spec False B now q s r s'" and wf: "wf_state B s" and q: "q \<in> declared (cont s)"
    and ids: "next_id s + length (delayed (queue_of B (cont s) q)) \<le> 2 ^ 64"
  shows "\<exists>n. r = Ok n"
proof -
  let ?due = "takeWhile (is_due now) (cont s (scheduled_tree_name q))"
  have cn: "\<forall>kv \<in> set ?due. canon B (snd kv)" using wf_canon [OF wf q] set_takeWhileD by fast
  have "length ?due \<le> length (cont s (scheduled_tree_name q))" by (rule length_takeWhile_le)
  then have "\<not> requeue_fails False B (Some (scheduled_tree_name q)) q ?due s e s'" for e
    using requeue_fails_healthy [OF _ cn, of "Some (scheduled_tree_name q)" q s e s'] ids
    by (auto simp: queue_of_def decoded_def)
  moreover have "returns r" using spec_returns(6) [OF wf sp] .
  ultimately show ?thesis
    using sp q by (cases r) (auto simp: promote_spec_def Let_def split: pelican_error.splits)
qed

lemma retention_outcome:
  assumes sp: "retention_spec False B now q s r s'" and wf: "wf_state B s" and q: "q \<in> declared (cont s)"
  shows "\<exists>n. r = Ok n \<and> used s' = (if n = 0 then used s else of_nat (stored_bytes (cont s')))"
proof -
  have "\<not> undecodable B (cont s q)" using wf_no_panic(2) [OF wf q] by (auto simp: undecodable_def)
  then show ?thesis
    using sp q by (cases r) (auto simp: retention_spec_def Let_def split: pelican_error.splits)
qed

section \<open>Filling and draining a queue\<close>

lemma publish_declared:
  assumes "publish_spec f B clk q msg s r s'" "wf_state B s" "q \<in> declared (cont s)"
  shows "q \<in> declared (cont s')"
  using publish_effect [OF assms(1,2)] only_declared [of q s s'] wf_state_queue(1) [OF assms(2,3)] assms(3) by auto

lemma consume_declared:
  assumes "consume_spec f B q s r s'" "wf_state B s" "sorted_state s" "q \<in> declared (cont s)"
  shows "q \<in> declared (cont s')"
  using consume_effect [OF assms(1-3)] only_declared [of q s s'] wf_state_queue(1) [OF assms(2,4)] assms(4) by auto

context engine
begin

lemma publish_plain:
  assumes nf: "\<not> faulty" and wf: "wf_state B (abs m)" and q: "q \<in> declared (view (mgr_db m))"
    and id: "nxt (mgr_db m) < 2 ^ 64" and lim: "max_bytes m = None"
    and msg: "deliver_at msg = None" "dedup_key msg = None" and clk: "0 \<le> sint (clk 1)"
  shows "wp (publish S B clk q msg) (\<lambda>r m'. r = Ok (Stored (msg_id msg)) \<and> wf_state B (abs m') \<and>
     q \<in> declared (view (mgr_db m')) \<and> nxt (mgr_db m') = Suc (nxt (mgr_db m)) \<and> max_bytes m' = None \<and>
     ready (queue_of B (view (mgr_db m')) q) = put msg (ready (queue_of B (view (mgr_db m)) q))) m"
proof (rule wp_mono [OF publish_refines], goal_cases)
  case (1 r m')
  then have sp: "publish_spec False B clk q msg (abs m) r (abs m')" using nf by simp
  obtain b where ser: "ser_message B msg = Inr b" using ser_message_total by blast
  have q': "q \<in> declared (cont (abs m))" using q by simp
  have r: "r = Ok (Stored (msg_id msg))" "nxt (mgr_db m') = Suc (nxt (mgr_db m))" "max_bytes m' = None"
    using publish_outcome [OF sp wf q' _ ser] id lim msg
    by (simp_all add: aq_duplicate_def storage_limit_def split: option.splits)
  have "ready (queue_of B (cont (abs m')) q) = put msg (ready (queue_of B (cont (abs m)) q))"
    using publish_abs [OF bincode_codec_axioms sp [unfolded r(1)] wf clk] msg
    by (simp add: aq_seen_def aq_publish_def due_later_def split: option.splits)
  then show ?case
    using r publish_wf [OF bincode_codec_axioms sp wf clk] publish_declared [OF sp wf q'] by simp
qed

lemma publish_all_ready:
  assumes nf: "\<not> faulty" and clk: "0 \<le> sint (clk 1)"
    and msgs: "\<forall>msg \<in> set msgs. deliver_at msg = None \<and> dedup_key msg = None"
    and "wf_state B (abs m)" "q \<in> declared (view (mgr_db m))" "nxt (mgr_db m) + length msgs \<le> 2 ^ 64"
      "max_bytes m = None"
  shows "wp (publish_all S B clk q msgs) (\<lambda>r m'. r = Ok () \<and> wf_state B (abs m') \<and> q \<in> declared (view (mgr_db m')) \<and>
     ready (queue_of B (view (mgr_db m')) q) = put_all msgs (ready (queue_of B (view (mgr_db m)) q))) m"
  using assms(3-)
proof (induction msgs arbitrary: m)
  case Nil
  then show ?case by (simp add: wp_simps)
next
  case (Cons msg msgs)
  have msg: "deliver_at msg = None" "dedup_key msg = None"
    and msgs: "\<forall>msg \<in> set msgs. deliver_at msg = None \<and> dedup_key msg = None" using Cons.prems(1) by simp_all
  have "nxt (mgr_db m) < 2 ^ 64" using Cons.prems(4) by simp
  note step = publish_plain [where clk = clk, OF nf Cons.prems(2,3) this Cons.prems(5) msg clk]
  show ?case
    unfolding publish_all.simps wp_bnd
  proof (rule wp_mono [OF step], goal_cases)
    case (1 r m')
    then have "wf_state B (abs m')" "q \<in> declared (view (mgr_db m'))" "max_bytes m' = None"
      and n: "nxt (mgr_db m') + length msgs \<le> 2 ^ 64" using Cons.prems(4) by auto
    from Cons.IH [OF msgs this(1,2) n this(3)] 1 show ?case by simp
  qed
qed

lemma consume_all_ready:
  assumes nf: "\<not> faulty" and "wf_state B (abs m)" "q \<in> declared (view (mgr_db m))"
    and "length (ready (queue_of B (view (mgr_db m)) q)) \<le> n"
  shows "wp (consume_all S B q n) (\<lambda>r m'. r = Ok (ready (queue_of B (view (mgr_db m)) q)) \<and>
     ready (queue_of B (view (mgr_db m')) q) = []) m"
  using assms(2-)
proof (induction n arbitrary: m)
  case 0
  then show ?case by (simp add: wp_simps)
next
  case (Suc n)
  let ?a = "queue_of B (view (mgr_db m)) q"
  have q: "q \<in> declared (cont (abs m))" using Suc.prems(2) by simp
  show ?case
    unfolding consume_all.simps wp_bnd
  proof (rule wp_mono [OF consume_refines], goal_cases)
    case (1 r m')
    then have sp: "consume_spec False B q (abs m) r (abs m')" using nf by simp
    from consume_outcome [OF sp Suc.prems(1) q] consider "r = Ok None" "ready ?a = []" "abs m' = abs m"
      | tag msg where "r = Ok (Some (tag, msg))" by auto
    then show ?case
    proof cases
      case 1
      then show ?thesis by (simp add: wp_simps abs_state_eq)
    next
      case 2
      from consume_abs [OF sp [unfolded 2] Suc.prems(1) sorted_abs] obtain ms
        where a: "ready ?a = msg # ms" "ready (queue_of B (view (mgr_db m')) q) = ms" by auto
      have wf': "wf_state B (abs m')" and q': "q \<in> declared (view (mgr_db m'))"
        using consume_wf [OF sp Suc.prems(1)] consume_declared [OF sp Suc.prems(1) sorted_abs q] by simp_all
      have "wp (consume_all S B q n) (\<lambda>r m''. r = Ok ms \<and> ready (queue_of B (view (mgr_db m'')) q) = []) m'"
        using Suc.IH [OF wf' q'] a Suc.prems(3) by simp
      then show ?thesis
        unfolding 2 on_ok_simps option.case prod.case wp_bnd
        by (rule wp_mono) (auto simp: wp_simps a)
    qed
  qed
qed

end

lemma engine_facts:
  assumes "engine S view nxt f B" "reach S B view m"
  shows "wf_state B (abs_state view nxt m)" "sorted_state (abs_state view nxt m)" "bincode_codec B"
  using engine.reach_wf_state [OF assms] engine.sorted_abs [OF assms(1)] engine.axioms(2) [OF assms(1)] by auto

lemma open_manager_Some: "\<exists>r m'. open_manager S B (Inr d) mx = (r, Some m')"
  by (simp add: open_manager_def case_prod_beta)

end
