(* ===== verification/Mem_Store.thy ===== *)
theory Mem_Store
  imports Queue_Behaviour "HOL-Library.AList" "HOL-Library.Code_Target_Nat"
begin

text \<open>
  A reference instance of the two third-party parameters, to show that the contracts
  \<^verbatim>\<open>sled_store\<close> and \<^verbatim>\<open>bincode_codec\<close> can be met together, and to run the model on concrete
  inputs: an in-memory database of ordered trees, and a self-delimiting byte encoding of messages
  and policies.
\<close>

section \<open>The database\<close>

record mem_db =
  mem_trees :: "(bytes \<times> otree) list"
  mem_next :: nat

fun ot_build :: "otree \<Rightarrow> otree" where
  "ot_build [] = []"
| "ot_build ((k, v) # xs) = ot_insert k v (ot_build xs)"

definition mem_view :: "mem_db \<Rightarrow> bytes \<Rightarrow> otree" where
  "mem_view d t = (case map_of (mem_trees d) t of None \<Rightarrow> [] | Some xs \<Rightarrow> ot_build xs)"

definition mem_set :: "mem_db \<Rightarrow> bytes \<Rightarrow> otree \<Rightarrow> mem_db" where
  "mem_set d t xs = d\<lparr>mem_trees := AList.update t xs (mem_trees d)\<rparr>"

definition mem_sled :: "mem_db sled" where
  "mem_sled =
     \<lparr>sl_open_tree = (\<lambda>d t. Inr d),
      sl_contains_key = (\<lambda>d t k. Inr (k \<in> set (keys (mem_view d t)))),
      sl_get = (\<lambda>d t k. Inr (map_of (mem_view d t) k)),
      sl_insert = (\<lambda>d t k v. Inr (mem_set d t (ot_insert k v (mem_view d t)))),
      sl_remove = (\<lambda>d t k. Inr (map_of (mem_view d t) k, mem_set d t (ot_remove k (mem_view d t)))),
      sl_iter = (\<lambda>d t. map Inr (mem_view d t)),
      sl_range = (\<lambda>d t lo incl hi. map Inr (filter (in_range lo incl hi) (mem_view d t))),
      sl_len = (\<lambda>d t. length (mem_view d t)),
      sl_last = (\<lambda>d t. Inr (if mem_view d t = [] then None else Some (last (mem_view d t)))),
      sl_generate_id = (\<lambda>d. if mem_next d < 2 ^ 64 then Inr (of_nat (mem_next d), d\<lparr>mem_next := Suc (mem_next d)\<rparr>)
                            else Inl ''identifiers exhausted''),
      sl_commit = Inr,
      sl_flush = Inr\<rparr>"

definition mem_empty :: mem_db where
  "mem_empty = \<lparr>mem_trees = [], mem_next = 0\<rparr>"

section \<open>The serializer\<close>

definition enc_word :: "'a::len word \<Rightarrow> bytes" where
  "enc_word w = to_be_bytes w"

definition dec_word :: "bytes \<Rightarrow> ('a::len word \<times> bytes) option" where
  "dec_word bs = (let n = LENGTH('a) div 8 in
     if length bs < n then None else Some (from_be_bytes (take n bs), drop n bs))"

fun enc_list :: "('a \<Rightarrow> bytes) \<Rightarrow> 'a list \<Rightarrow> bytes" where
  "enc_list e [] = [CHR 0x00]"
| "enc_list e (x # xs) = CHR 0x01 # e x @ enc_list e xs"

fun dec_list :: "(bytes \<Rightarrow> ('a \<times> bytes) option) \<Rightarrow> nat \<Rightarrow> bytes \<Rightarrow> ('a list \<times> bytes) option" where
  "dec_list d 0 bs = None"
| "dec_list d (Suc n) [] = None"
| "dec_list d (Suc n) (c # bs) =
     (if c = CHR 0x01 then
        (case d bs of
           None \<Rightarrow> None
         | Some (x, r) \<Rightarrow> map_option (\<lambda>(xs, r). (x # xs, r)) (dec_list d n r))
      else Some ([], bs))"

definition enc_str :: "string \<Rightarrow> bytes" where
  "enc_str = enc_list (\<lambda>c. [c])"

definition dec_byte :: "bytes \<Rightarrow> (char \<times> bytes) option" where
  "dec_byte bs = (case bs of [] \<Rightarrow> None | c # r \<Rightarrow> Some (c, r))"

definition dec_str :: "bytes \<Rightarrow> (string \<times> bytes) option" where
  "dec_str bs = dec_list dec_byte (length bs) bs"

definition enc_option :: "('a \<Rightarrow> bytes) \<Rightarrow> 'a option \<Rightarrow> bytes" where
  "enc_option e x = (case x of None \<Rightarrow> [CHR 0x00] | Some y \<Rightarrow> CHR 0x01 # e y)"

definition dec_option :: "(bytes \<Rightarrow> ('a \<times> bytes) option) \<Rightarrow> bytes \<Rightarrow> ('a option \<times> bytes) option" where
  "dec_option d bs =
     (case bs of
        [] \<Rightarrow> None
      | c # r \<Rightarrow> if c = CHR 0x01 then map_option (\<lambda>(x, r). (Some x, r)) (d r) else Some (None, r))"

definition enc_pair :: "('a \<Rightarrow> bytes) \<Rightarrow> ('b \<Rightarrow> bytes) \<Rightarrow> 'a \<times> 'b \<Rightarrow> bytes" where
  "enc_pair e1 e2 p = e1 (fst p) @ e2 (snd p)"

definition dec_pair ::
    "(bytes \<Rightarrow> ('a \<times> bytes) option) \<Rightarrow> (bytes \<Rightarrow> ('b \<times> bytes) option) \<Rightarrow> bytes \<Rightarrow> (('a \<times> 'b) \<times> bytes) option" where
  "dec_pair d1 d2 bs =
     (case d1 bs of
        None \<Rightarrow> None
      | Some (x, r) \<Rightarrow> map_option (\<lambda>(y, r). ((x, y), r)) (d2 r))"

definition enc_headers :: "(string, string) fmap \<Rightarrow> bytes" where
  "enc_headers h = enc_list (enc_pair enc_str enc_str) (sorted_list_of_fmap h)"

definition dec_headers :: "bytes \<Rightarrow> ((string, string) fmap \<times> bytes) option" where
  "dec_headers bs =
     map_option (\<lambda>(xs, r). (fmap_of_list xs, r)) (dec_list (dec_pair dec_str dec_str) (length bs) bs)"

type_synonym message_tuple =
  "uuid \<times> bytes \<times> (string, string) fmap \<times> i64 \<times> u32 \<times> u8 \<times> i64 option \<times> string option"

definition tuple_of_message :: "message \<Rightarrow> message_tuple" where
  "tuple_of_message m =
     (msg_id m, payload m, headers m, timestamp m, delivery_attempts m, priority m, deliver_at m, dedup_key m)"

definition message_of_tuple :: "message_tuple \<Rightarrow> message" where
  "message_of_tuple t = (case t of (i, p, h, ts, at, pr, da, dk) \<Rightarrow>
     \<lparr>msg_id = i, payload = p, headers = h, timestamp = ts, delivery_attempts = at, priority = pr,
      deliver_at = da, dedup_key = dk\<rparr>)"

definition enc_message :: "message \<Rightarrow> bytes" where
  "enc_message m =
     enc_pair enc_word (enc_pair enc_str (enc_pair enc_headers (enc_pair enc_word (enc_pair enc_word
       (enc_pair enc_word (enc_pair (enc_option enc_word) (enc_option enc_str))))))) (tuple_of_message m)"

definition dec_message :: "bytes \<Rightarrow> (message \<times> bytes) option" where
  "dec_message bs = map_option (\<lambda>(t, r). (message_of_tuple t, r))
     (dec_pair dec_word (dec_pair dec_str (dec_pair dec_headers (dec_pair dec_word (dec_pair dec_word
       (dec_pair dec_word (dec_pair (dec_option dec_word) (dec_option dec_str))))))) bs)"

definition enc_policy :: "retention_policy \<Rightarrow> bytes" where
  "enc_policy p =
     enc_pair (enc_option enc_word) (enc_pair (enc_option enc_word)
       (enc_pair (enc_option enc_word) (enc_option enc_word)))
     (max_age_secs p, max_messages p, max_delivery_attempts p, dedup_window_secs p)"

definition dec_policy :: "bytes \<Rightarrow> (retention_policy \<times> bytes) option" where
  "dec_policy bs = map_option (\<lambda>((a, n, t, w), r).
       (\<lparr>max_age_secs = a, max_messages = n, max_delivery_attempts = t, dedup_window_secs = w\<rparr>, r))
     (dec_pair (dec_option dec_word) (dec_pair (dec_option dec_word)
       (dec_pair (dec_option dec_word) (dec_option dec_word))) bs)"

definition decode_all :: "(bytes \<Rightarrow> ('a \<times> bytes) option) \<Rightarrow> bytes \<Rightarrow> string + 'a" where
  "decode_all d bs = (case d bs of None \<Rightarrow> Inl ''unexpected end of input'' | Some (x, _) \<Rightarrow> Inr x)"

definition encode_all :: "('a \<Rightarrow> bytes) \<Rightarrow> 'a \<Rightarrow> string + bytes" where
  "encode_all e x = Inr (e x)"

definition ref_bincode :: bincode where
  "ref_bincode =
     \<lparr>ser_message = encode_all enc_message, de_message = decode_all dec_message,
      ser_policy = encode_all enc_policy, de_policy = decode_all dec_policy\<rparr>"

section \<open>Runs on the reference instance\<close>

definition mem_start :: "u64 option \<Rightarrow> mem_db manager" where
  "mem_start mx = \<lparr>mgr_db = mem_empty, current_bytes = 0, max_bytes = mx\<rparr>"

fun mem_run :: "call list \<Rightarrow> mem_db manager \<Rightarrow> mem_db manager" where
  "mem_run [] m = m"
| "mem_run (c # cs) m = mem_run cs (snd (call_prog mem_sled ref_bincode c m))"

text \<open>
  A queue \<^verbatim>\<open>q\<close> that keeps at most one message, gives up after two attempts and remembers
  deduplication keys for a minute; an urgent and an ordinary message, one of them delayed.
\<close>

definition demo_policy :: retention_policy where
  "demo_policy = RetentionPolicy_new (Some 60) (Some 1) (Some 2) (Some 60)"

definition demo_msg :: message where
  "demo_msg = with_dedup_key (with_priority (Message_new 7 1000 ''hi'' fmempty) 5) ''k''"

definition demo_later :: message where
  "demo_later = with_deliver_at (Message_new 8 1000 ''yo'' fmempty) 5000"

definition demo_manager :: "(bytes \<times> otree) list \<Rightarrow> nat \<Rightarrow> u64 \<Rightarrow> mem_db manager" where
  "demo_manager ts n u =
     \<lparr>mgr_db = \<lparr>mem_trees = (META_QUEUES_TREE, [(''q'', [])]) #
                          (META_RETENTION_TREE, [(''q'', enc_policy demo_policy)]) # ts,
                mem_next = n\<rparr>,
      current_bytes = u, max_bytes = Some 1000\<rparr>"

definition demo_declared :: "mem_db manager" where
  "demo_declared = demo_manager [] 0 0"

definition demo_first :: "mem_db manager" where
  "demo_first = demo_manager
     [(''q'', [(encode_key 5 0, enc_message demo_msg)]), (''dedup:q'', [(''k'', to_be_bytes (1000 :: i64))])] 1 40"

definition demo_published :: "mem_db manager" where
  "demo_published = demo_manager
     [(''q'', [(encode_key 5 0, enc_message demo_msg)]),
      (''dedup:q'', [(''k'', to_be_bytes (1000 :: i64))]),
      (''scheduled:q'', [(encode_scheduled_key 5000 1, enc_message demo_later)])] 2 85"

definition demo_consumed :: "mem_db manager" where
  "demo_consumed = demo_manager
     [(''q'', []),
      (''dedup:q'', [(''k'', to_be_bytes (1000 :: i64))]),
      (''scheduled:q'', [(encode_scheduled_key 5000 1, enc_message demo_later)]),
      (''inflight:q'', [(to_be_bytes (0 :: u64), enc_message demo_msg)])] 2 85"

section \<open>Code equations without patterns on numbers\<close>

lemma dec_list_code [code]:
  "dec_list d n bs =
     (if n = 0 then None
      else
        (case bs of
           [] \<Rightarrow> None
         | c # bs \<Rightarrow>
             if c = CHR 0x01 then
               (case d bs of
                  None \<Rightarrow> None
                | Some (x, r) \<Rightarrow> map_option (\<lambda>(xs, r). (x # xs, r)) (dec_list d (n - 1) r))
             else Some ([], bs)))"
  by (cases n; cases bs) (auto split: option.splits)

lemma excess_keys_code [code]:
  "excess_keys n es =
     (if n = 0 then ret []
      else
        (case es of
           [] \<Rightarrow> ret []
         | Inl e # _ \<Rightarrow> throw (Storage e)
         | Inr (key, _) # es \<Rightarrow> bnd (excess_keys (n - 1) es) (\<lambda>rest. ret (key # rest))))"
  by (cases n; cases es) (auto split: sum.splits)

section \<open>The contracts hold\<close>

lemma ot_sorted_build: "ot_sorted (ot_build xs)"
  by (induction xs rule: ot_build.induct) (auto simp: ot_sorted_def [of "[]"])

lemma ot_insert_head: "ot_sorted ((k, v) # xs) \<Longrightarrow> ot_insert k v xs = (k, v) # xs"
  by (cases xs) (auto simp: ot_simps)

lemma ot_build_sorted: "ot_sorted xs \<Longrightarrow> ot_build xs = xs"
  by (induction xs rule: ot_build.induct) (auto simp: ot_simps ot_insert_head)

lemma mem_view_sorted: "ot_sorted (mem_view d t)"
  by (simp add: mem_view_def ot_sorted_build ot_simps split: option.splits)

lemma mem_view_set: "ot_sorted xs \<Longrightarrow> mem_view (mem_set d t xs) = (mem_view d)(t := xs)"
  by (auto simp: mem_view_def mem_set_def ot_build_sorted update_conv' fun_eq_iff)

lemma mem_next_set [simp]: "mem_next (mem_set d t xs) = mem_next d"
  by (simp add: mem_set_def)

interpretation mem: sled_store mem_sled mem_view mem_next f for f
  by unfold_locales
    (auto simp: mem_sled_def mem_view_sorted mem_view_set ot_sorted_insert ot_sorted_remove
      entries_ok_def list_all2_map1 list_all2_same mem_view_def [of "mem_next_update g d" for g d]
      split: if_splits simp flip: mem_view_def)

locale coder =
  fixes enc :: "'a \<Rightarrow> bytes"
    and dec :: "bytes \<Rightarrow> ('a \<times> bytes) option"
  assumes dec_enc: "dec (enc x @ r) = Some (x, r)"
begin

lemma enc_inj: "enc x = enc y \<Longrightarrow> x = y"
  using dec_enc [of x "[]"] dec_enc [of y "[]"] by simp

end

lemma coder_word: "8 dvd LENGTH('a) \<Longrightarrow> coder (enc_word :: 'a::len word \<Rightarrow> bytes) dec_word"
  by unfold_locales (simp add: enc_word_def dec_word_def from_be_bytes_to_be_bytes)

lemma dec_list_enc:
  assumes "coder e d"
  shows "length xs < n \<Longrightarrow> dec_list d n (enc_list e xs @ r) = Some (xs, r)"
proof (induction xs arbitrary: n)
  case Nil
  then show ?case by (cases n) simp_all
next
  case (Cons x xs)
  then obtain k where "n = Suc k" "length xs < k" by (cases n) auto
  with Cons.IH [of k] coder.dec_enc [OF assms, of x "enc_list e xs @ r"] show ?case by simp
qed

lemma length_enc_list: "length xs < length (enc_list e xs @ r)"
  by (induction xs) auto

lemma coder_list: "coder e d \<Longrightarrow> coder (enc_list e) (\<lambda>bs. dec_list d (length bs) bs)"
  by unfold_locales (rule dec_list_enc, assumption, rule length_enc_list)

lemma coder_byte: "coder (\<lambda>c. [c]) dec_byte"
  by unfold_locales (simp add: dec_byte_def)

lemma coder_str: "coder enc_str dec_str"
  using coder_list [OF coder_byte] by (simp add: enc_str_def dec_str_def [abs_def])

lemma coder_option: "coder e d \<Longrightarrow> coder (enc_option e) (dec_option d)"
  by (auto simp: coder_def enc_option_def dec_option_def split: option.splits)

lemma coder_pair: "coder e1 d1 \<Longrightarrow> coder e2 d2 \<Longrightarrow> coder (enc_pair e1 e2) (dec_pair d1 d2)"
  by (auto simp: coder_def enc_pair_def dec_pair_def)

lemma fmap_sorted_list: "fmap_of_list (sorted_list_of_fmap m) = (m :: (string, string) fmap)"
proof (rule fmap_ext)
  fix k
  show "fmlookup (fmap_of_list (sorted_list_of_fmap m)) k = fmlookup m k"
    by (cases "fmlookup m k")
      (auto simp: fmlookup_of_list sorted_list_of_fmap_def map_of_map_restrict restrict_map_def fmdom_notI fmdomI)
qed

lemma coder_headers: "coder enc_headers dec_headers"
  using coder.dec_enc [OF coder_list [OF coder_pair [OF coder_str coder_str]]]
  by unfold_locales (simp add: enc_headers_def dec_headers_def fmap_sorted_list)

lemmas coder_fields = coder_pair coder_str coder_option coder_headers coder_word

lemma message_tuple_inverse [simp]: "message_of_tuple (tuple_of_message m) = m"
  by (simp add: message_of_tuple_def tuple_of_message_def)

interpretation message_coder: coder enc_message dec_message
proof
  have c: "coder (enc_pair enc_word (enc_pair enc_str (enc_pair enc_headers (enc_pair enc_word (enc_pair enc_word
       (enc_pair enc_word (enc_pair (enc_option enc_word) (enc_option enc_str))))))) :: message_tuple \<Rightarrow> bytes)
     (dec_pair dec_word (dec_pair dec_str (dec_pair dec_headers (dec_pair dec_word (dec_pair dec_word
       (dec_pair dec_word (dec_pair (dec_option dec_word) (dec_option dec_str))))))))"
    by (intro coder_fields) simp_all
  show "dec_message (enc_message m @ r) = Some (m, r)" for m r
    by (simp add: enc_message_def dec_message_def coder.dec_enc [OF c])
qed

interpretation policy_coder: coder enc_policy dec_policy
proof
  have c: "coder (enc_pair (enc_option enc_word) (enc_pair (enc_option enc_word)
       (enc_pair (enc_option enc_word) (enc_option enc_word))) :: u64 option \<times> u64 option \<times> u32 option \<times> u64 option \<Rightarrow> bytes)
     (dec_pair (dec_option dec_word) (dec_pair (dec_option dec_word)
       (dec_pair (dec_option dec_word) (dec_option dec_word))))"
    by (intro coder_fields) simp_all
  show "dec_policy (enc_policy p @ r) = Some (p, r)" for p r
    by (cases p) (simp add: enc_policy_def dec_policy_def coder.dec_enc [OF c])
qed

lemma length_enc_word [simp]: "length (enc_word (w :: 'a::len word)) = LENGTH('a) div 8"
  by (simp add: enc_word_def)

interpretation ref: bincode_codec ref_bincode
  using message_coder.dec_enc [of _ "[]"] policy_coder.dec_enc [of _ "[]"]
  by unfold_locales
    (auto simp: ref_bincode_def encode_all_def decode_all_def enc_message_def enc_pair_def tuple_of_message_def)

interpretation mem: engine mem_sled mem_view mem_next f ref_bincode for f
  by unfold_locales

lemma mem_run_reach:
  "reach mem_sled ref_bincode mem_view m \<Longrightarrow> list_all legal cs \<Longrightarrow> reach mem_sled ref_bincode mem_view (mem_run cs m)"
  by (induction cs m rule: mem_run.induct) (auto intro: reach_call [OF _ _ surjective_pairing])

lemma mem_start_reach: "reach mem_sled ref_bincode mem_view (mem_start mx)"
  by (rule reach_fresh) (simp add: mem_start_def mem_empty_def mem_view_def)

lemma demo_declares:
  "declare_queue_with_retention mem_sled ref_bincode ''q'' demo_policy (mem_start (Some 1000)) = (Ok (), demo_declared)"
  by code_simp

lemma demo_publishes:
  "publish mem_sled ref_bincode (\<lambda>_. 1000) ''q'' demo_msg demo_declared = (Ok (Stored 7), demo_first)"
  by code_simp

lemma demo_delays:
  "publish mem_sled ref_bincode (\<lambda>_. 1000) ''q'' demo_later demo_first = (Ok (Stored 8), demo_published)"
  by code_simp

lemma demo_consumes:
  "consume mem_sled ref_bincode ''q'' demo_published = (Ok (Some (DeliveryTag 0, demo_msg)), demo_consumed)"
  by code_simp

lemmas demo_outcomes = demo_declares demo_publishes demo_delays demo_consumes

lemma demo_runs:
  "mem_run [CDeclare ''q'' demo_policy] (mem_start (Some 1000)) = demo_declared"
  "mem_run [CPublish (\<lambda>_. 1000) ''q'' demo_msg, CPublish (\<lambda>_. 1000) ''q'' demo_later] demo_declared = demo_published"
  "mem_run [CConsume ''q''] demo_published = demo_consumed"
  by (simp_all add: demo_outcomes discard_def bnd_def ret_def)

lemma demo_reach:
  "reach mem_sled ref_bincode mem_view demo_declared"
  "reach mem_sled ref_bincode mem_view demo_published"
  "reach mem_sled ref_bincode mem_view demo_consumed"
proof -
  have q: "plain_name ''q''" "utf8_ok ''q''" by code_simp+
  have c: "0 \<le> sint (1000 :: i64)" by code_simp
  have 1: "reach mem_sled ref_bincode mem_view (mem_run [CDeclare ''q'' demo_policy] (mem_start (Some 1000)))"
    by (rule mem_run_reach [OF mem_start_reach]) (simp add: q)
  then show "reach mem_sled ref_bincode mem_view demo_declared" by (simp only: demo_runs)
  from mem_run_reach [OF this, of "[CPublish (\<lambda>_. 1000) ''q'' demo_msg, CPublish (\<lambda>_. 1000) ''q'' demo_later]"]
  show "reach mem_sled ref_bincode mem_view demo_published" by (simp only: demo_runs) (simp add: c)
  from mem_run_reach [OF this, of "[CConsume ''q'']"]
  show "reach mem_sled ref_bincode mem_view demo_consumed" by (simp only: demo_runs) simp
qed

lemma demo_queue:
  "declared (mem_view (mgr_db demo_declared)) = {''q''}"
  "declared (mem_view (mgr_db demo_published)) = {''q''}"
  "declared (mem_view (mgr_db demo_consumed)) = {''q''}"
  by code_simp+

lemma demo_next [simp]:
  "mem_next (mgr_db demo_declared) = 0"
  "mem_next (mgr_db demo_published) = 2"
  "mem_next (mgr_db demo_consumed) = 2"
  by (simp_all add: demo_declared_def demo_published_def demo_consumed_def demo_manager_def)

lemma demo_q:
  "''q'' \<in> declared (mem_view (mgr_db demo_declared))"
  "''q'' \<in> declared (mem_view (mgr_db demo_published))"
  "''q'' \<in> declared (mem_view (mgr_db demo_consumed))"
  by (simp_all add: demo_queue)

lemma demo_clock: "0 \<le> sint (1000 :: i64)"
  by code_simp

end
