(* ===== verification/Queue_Safety.thy ===== *)
theory Queue_Safety
  imports Mem_Store
begin

text \<open>
  Safety of the queue engine \<^verbatim>\<open>pelicanq-core/src/queue.rs\<close>: conservation of messages, the
  invariant, termination without panics, crash recovery, the byte budget, isolation of queues and
  the refinement of the specifications under faults.  Each holds for every database that keeps the
  contract of \<^verbatim>\<open>sled_store\<close> and every serializer that keeps the contract of \<^verbatim>\<open>bincode_codec\<close>
  (together: \<^verbatim>\<open>engine\<close>), in every state reachable from an empty database by calls and restarts
  (\<^verbatim>\<open>reach\<close>).  The witnesses run on the in-memory instance of \<^verbatim>\<open>Mem_Store\<close>.
\<close>

text \<open>
  C5. No message is lost.  Whatever a call on a reachable state does, success, error return or I/O
  failure at any point, every message of every declared queue is still stored in that queue
  afterwards (ready, in flight, delayed or dead-lettered), except the one message an \<^verbatim>\<open>ack\<close> names and
  what \<^verbatim>\<open>apply_retention\<close> takes from the queue it is called on.
\<close>

theorem messages_conserved:
  assumes "engine S view nxt f B" "reach S B view m" "p \<in> declared (view (mgr_db m))"
    and "call_prog S B c m = (r, m')"
  shows "msg_ids B (view (mgr_db m)) p \<subseteq># msg_ids B (view (mgr_db m')) p + releases B (view (mgr_db m)) c p"
  using wpD [OF engine.call_kept [OF assms(1) engine_facts(1) [OF assms(1,2)] assms(3), of c] assms(4)] .

theorem messages_conserved_witness:
  "let m' = snd (call_prog mem_sled ref_bincode (CNack ''q'' (DeliveryTag 0)) demo_consumed) in
   msg_ids ref_bincode (mem_view (mgr_db demo_consumed)) ''q'' \<subseteq># msg_ids ref_bincode (mem_view (mgr_db m')) ''q''"
  using messages_conserved [OF mem.engine_axioms demo_reach(3) demo_q(3) surjective_pairing,
      of "CNack ''q'' (DeliveryTag 0)"]
  by (simp add: Let_def)

text \<open>
  C6. The store is well formed in every reachable state: every stored value decodes to a message and
  is its encoding, every key is the one the code writes for it, identifiers were given out by the
  database, no ready message has the identifier of a message in flight, and undeclared queues
  have empty trees.  Calls with I/O failures and restarts after them are included.
\<close>

theorem reachable_wf:
  assumes "engine S view nxt f B" "reach S B view m"
  shows "wf_manager B view nxt m"
  using engine_facts(1) [OF assms] by (simp add: wf_state_def wf_manager_def)

theorem reachable_wf_witness: "wf_manager ref_bincode mem_view mem_next demo_consumed"
  by (rule reachable_wf [OF mem.engine_axioms demo_reach(3)])

text \<open>
  C15. Every call on a reachable state returns, with a result or an error: the slices \<^verbatim>\<open>key[1..9]\<close>,
  \<^verbatim>\<open>key[..8]\<close> and \<^verbatim>\<open>recorded[..8]\<close> never panic, and the retry loop of \<^verbatim>\<open>consume\<close> ends after one round.
  The same holds for opening the database again.
\<close>

theorem calls_return:
  assumes "engine S view nxt f B" "reach S B view m" "legal c"
  shows "\<exists>r m'. call_prog S B c m = (r, m') \<and> r \<noteq> Panic \<and> r \<noteq> Diverge \<and>
    fst (open_manager S B (Inr (mgr_db m)) mx) \<notin> {Panic, Diverge}"
proof -
  note wf = engine_facts(1) [OF assms(1,2)]
  obtain r m' where c: "call_prog S B c m = (r, m')" by force
  obtain r2 m2 where o: "open_manager S B (Inr (mgr_db m)) mx = (r2, Some m2)"
    using open_manager_Some [of S B "mgr_db m" mx] by blast
  show ?thesis
    using wpD [OF engine.call_ok [OF assms(1) wf assms(3)] c] engine.open_manager_kept [OF assms(1) o wf] c o by simp
qed

theorem calls_return_witness:
  "\<exists>r m'. call_prog mem_sled ref_bincode (CConsume ''q'') demo_published = (r, m') \<and> r \<noteq> Panic \<and> r \<noteq> Diverge \<and>
    fst (open_manager mem_sled ref_bincode (Inr (mgr_db demo_published)) None) \<notin> {Panic, Diverge}"
  by (rule calls_return [OF mem.engine_axioms demo_reach(2)]) simp

text \<open>
  A restart loses no message, whether or not it succeeds: after any attempt to open the
  database, the same queues are declared and each holds at least the messages it held.
\<close>

theorem restart_keeps_messages:
  assumes "engine S view nxt f B" "reach S B view m" "open_manager S B (Inr (mgr_db m)) mx = (r, Some m')"
  shows "declared (view (mgr_db m')) = declared (view (mgr_db m)) \<and>
    (\<forall>q \<in> declared (view (mgr_db m)). stored (view (mgr_db m)) q \<subseteq># stored (view (mgr_db m')) q)"
  using engine.open_manager_kept [OF assms(1,3) engine_facts(1) [OF assms(1,2)]] by (simp add: keeps_def)

theorem restart_keeps_messages_witness:
  "\<exists>r m'. open_manager mem_sled ref_bincode (Inr (mgr_db demo_consumed)) None = (r, Some m') \<and>
    stored (mem_view (mgr_db demo_consumed)) ''q'' \<subseteq># stored (mem_view (mgr_db m')) ''q''"
proof -
  obtain r m' where o: "open_manager mem_sled ref_bincode (Inr (mgr_db demo_consumed)) None = (r, Some m')"
    using open_manager_Some [of mem_sled ref_bincode "mgr_db demo_consumed" None] by blast
  from restart_keeps_messages [OF mem.engine_axioms demo_reach(3) o] o demo_q(3) show ?thesis by blast
qed

text \<open>
  C7. Crash recovery on a healthy database is exact: opening succeeds, \<^verbatim>\<open>current_bytes\<close> is the number
  of bytes in all trees of all queues, and in every queue the in-flight messages are ready again,
  placed behind the messages of the same or a higher priority in the order of their tags; nothing else
  changes and nothing is lost or duplicated.
\<close>

theorem restart_recovers:
  assumes "engine S view nxt False B" "reach S B view m"
    and "nxt (mgr_db m) + inflight_total (view (mgr_db m)) (queue_names (view (mgr_db m))) \<le> 2 ^ 64"
  shows "\<exists>m'. open_manager S B (Inr (mgr_db m)) mx = (Ok (), Some m') \<and> max_bytes m' = mx \<and>
    current_bytes m' = of_nat (stored_bytes (view (mgr_db m))) \<and>
    declared (view (mgr_db m')) = declared (view (mgr_db m)) \<and>
    view (mgr_db m') META_RETENTION_TREE = view (mgr_db m) META_RETENTION_TREE \<and>
    (\<forall>q \<in> declared (view (mgr_db m)). restored B (view (mgr_db m)) (view (mgr_db m')) q)"
  using engine.open_manager_healthy [OF assms(1) _ _ assms(3), of mx] engine_facts(1) [OF assms(1,2)]
  by (auto simp: wf_state_def)

theorem restart_recovers_witness:
  "\<exists>m'. open_manager mem_sled ref_bincode (Inr (mgr_db demo_consumed)) None = (Ok (), Some m') \<and>
    current_bytes m' = of_nat (stored_bytes (mem_view (mgr_db demo_consumed))) \<and>
    restored ref_bincode (mem_view (mgr_db demo_consumed)) (mem_view (mgr_db m')) ''q''"
proof -
  have "inflight_total (mem_view (mgr_db demo_consumed)) (queue_names (mem_view (mgr_db demo_consumed))) = 1"
    by code_simp
  then show ?thesis
    using restart_recovers [OF mem.engine_axioms demo_reach(3), of None] demo_q(3) by fastforce
qed



text \<open>
  C29. Calls are local: a call on one queue, with any outcome, leaves the ready, in-flight, dead,
  delayed and recently-seen state of every other declared queue unchanged.
\<close>

theorem calls_are_local:
  assumes "engine S view nxt f B" "reach S B view m" "call_prog S B c m = (r, m')"
    and "p \<in> declared (view (mgr_db m))" "p \<noteq> call_queue c"
  shows "queue_of B (view (mgr_db m')) p = queue_of B (view (mgr_db m)) p \<and> p \<in> declared (view (mgr_db m'))"
  using wpD [OF engine.call_local [OF assms(1) engine_facts(1) [OF assms(1,2)] assms(4,5)] assms(3)] .

theorem calls_are_local_witness:
  "let m' = snd (call_prog mem_sled ref_bincode (CDeclare ''r'' demo_policy) demo_published) in
   queue_of ref_bincode (mem_view (mgr_db m')) ''q'' = queue_of ref_bincode (mem_view (mgr_db demo_published)) ''q''"
  using calls_are_local [OF mem.engine_axioms demo_reach(2) surjective_pairing demo_q(2), of "CDeclare ''r'' demo_policy"]
  by (simp add: Let_def)

text \<open>
  C16. Refinement under faults.  On every database, with I/O failures possible at every single
  operation, each of \<^verbatim>\<open>declare_queue_with_retention\<close>, \<^verbatim>\<open>publish\<close>, \<^verbatim>\<open>consume\<close>, \<^verbatim>\<open>ack\<close>, \<^verbatim>\<open>nack\<close>,
  \<^verbatim>\<open>promote_scheduled\<close> and \<^verbatim>\<open>apply_retention\<close> ends in an outcome and a state that its specification
  allows: the error constructor says why it failed, and a failed call leaves the state unchanged
  or exactly one of the intermediate states listed in the specification.  No reachability is needed.
\<close>

theorem operations_refine:
  assumes "engine S view nxt f B"
  defines "st \<equiv> abs_state view nxt"
  shows "wp (declare_queue_with_retention S B q P) (\<lambda>r m'. declare_spec f B q P (st m) r (st m')) m \<and>
    wp (publish S B clk q msg) (\<lambda>r m'. publish_spec f B clk q msg (st m) r (st m')) m \<and>
    wp (consume S B q) (\<lambda>r m'. consume_spec f B q (st m) r (st m')) m \<and>
    wp (ack S q tag) (\<lambda>r m'. ack_spec f q tag (st m) r (st m')) m \<and>
    wp (nack S B q tag) (\<lambda>r m'. nack_spec f B q tag (st m) r (st m')) m \<and>
    wp (promote_scheduled S B now q) (\<lambda>r m'. promote_spec f B now q (st m) r (st m')) m \<and>
    wp (apply_retention S B now q) (\<lambda>r m'. retention_spec f B now q (st m) r (st m')) m"
  unfolding st_def
  by (intro conjI engine.declare_refines [OF assms(1)] engine.publish_refines [OF assms(1)]
      engine.consume_refines [OF assms(1)] engine.ack_refines [OF assms(1)] engine.nack_refines [OF assms(1)]
      engine.promote_refines [OF assms(1)] engine.retention_refines [OF assms(1)])

theorem operations_refine_witness:
  "wp (ack mem_sled ''q'' (DeliveryTag 9))
     (\<lambda>r m'. ack_spec True ''q'' (DeliveryTag 9) (abs_state mem_view mem_next demo_consumed) r (abs_state mem_view mem_next m'))
     demo_consumed"
  using operations_refine [OF mem.engine_axioms] by blast


end
