(* ===== verification/Queue_Correctness.thy ===== *)
theory Queue_Correctness
  imports Mem_Store
begin

text \<open>
  Functional correctness of the operations of \<^verbatim>\<open>QueueManager\<close> against the abstract queue of
  \<^verbatim>\<open>Queue_Abstract\<close>: publishing, consuming, acknowledging, rejecting, promotion, retention,
  declaration, delivery order, deduplication, byte counts and keys.
\<close>



text \<open>
  C10. Consuming, on a healthy database: the answer is \<^verbatim>\<open>None\<close> exactly when no message is ready;
  otherwise it is the head of the queue, a message of the highest priority and the oldest of
  those, which is then in flight under a tag that was not in use.  Nothing else changes.
\<close>

theorem consume_correct:
  assumes "engine S view nxt False B" "reach S B view m" "q \<in> declared (view (mgr_db m))"
    and "consume S B q m = (r, m')"
  defines "a \<equiv> queue_of B (view (mgr_db m)) q"
  shows "r = Ok None \<and> ready a = [] \<and> abs_state view nxt m' = abs_state view nxt m \<or>
    (\<exists>tag msg msgs. r = Ok (Some (tag, msg)) \<and> ready a = msg # msgs \<and> (\<forall>x \<in> set msgs. rank msg \<le> rank x) \<and>
       flight a (tag_u64 tag) = None \<and>
       queue_of B (view (mgr_db m')) q = a\<lparr>ready := msgs, flight := (flight a)(tag_u64 tag \<mapsto> msg)\<rparr> \<and>
       current_bytes m' = current_bytes m)"
proof -
  note facts = engine_facts [OF assms(1,2)]
  have sp: "consume_spec False B q (abs_state view nxt m) r (abs_state view nxt m')"
    using wpD [OF engine.consume_refines [OF assms(1)] assms(4)] .
  have q: "q \<in> declared (cont (abs_state view nxt m))" using assms(3) by simp
  from consume_outcome [OF sp facts(1) q] show ?thesis
  proof (elim disjE conjE exE)
    fix tag msg assume r: "r = Ok (Some (tag, msg))" and u: "used (abs_state view nxt m') = used (abs_state view nxt m)"
    from consume_abs [OF sp [unfolded r] facts(1,2)] r u show ?thesis by (auto simp: a_def)
  qed (simp add: a_def)
qed

theorem consume_correct_witness:
  "\<exists>tag m'. consume mem_sled ref_bincode ''q'' demo_published = (Ok (Some (tag, demo_msg)), m') \<and>
     ready (queue_of ref_bincode (mem_view (mgr_db m')) ''q'') = []"
proof -
  obtain r m' where c: "consume mem_sled ref_bincode ''q'' demo_published = (r, m')" by force
  have "ready (queue_of ref_bincode (mem_view (mgr_db demo_published)) ''q'') = [demo_msg]" by code_simp
  with consume_correct [OF mem.engine_axioms demo_reach(2) demo_q(2) c] c show ?thesis by auto
qed

text \<open>
  C12. Acknowledging, on a healthy database: a tag in flight is removed from the in-flight messages
  and nothing else of the queue changes; any other tag is refused with \<^verbatim>\<open>InvalidDeliveryTag\<close> and the
  state is unchanged.  So a second \<^verbatim>\<open>ack\<close> of the same tag always fails.
\<close>

theorem ack_correct:
  assumes "engine S view nxt False B" "reach S B view m" "q \<in> declared (view (mgr_db m))"
    and "ack S q tag m = (r, m')"
  defines "a \<equiv> queue_of B (view (mgr_db m)) q"
  shows "if flight a (tag_u64 tag) = None
    then r = Err (InvalidDeliveryTag tag) \<and> abs_state view nxt m' = abs_state view nxt m
    else r = Ok () \<and> queue_of B (view (mgr_db m')) q = a\<lparr>flight := (flight a)(tag_u64 tag := None)\<rparr>"
proof -
  note facts = engine_facts [OF assms(1,2)]
  have sp: "ack_spec False q tag (abs_state view nxt m) r (abs_state view nxt m')"
    using wpD [OF engine.ack_refines [OF assms(1)] assms(4)] .
  show ?thesis
    using ack_outcome [OF sp, of B] ack_abs [of False q tag "abs_state view nxt m" "()" "abs_state view nxt m'"] sp facts(1) assms(3)
    by (auto simp: a_def)
qed

theorem ack_correct_witness:
  "\<exists>m'. ack mem_sled ''q'' (DeliveryTag 0) demo_consumed = (Ok (), m') \<and>
     flight (queue_of ref_bincode (mem_view (mgr_db m')) ''q'') 0 = None"
proof -
  obtain r m' where c: "ack mem_sled ''q'' (DeliveryTag 0) demo_consumed = (r, m')" by force
  have "flight (queue_of ref_bincode (mem_view (mgr_db demo_consumed)) ''q'') 0 \<noteq> None" by code_simp
  with ack_correct [OF mem.engine_axioms demo_reach(3) demo_q(3) c] c show ?thesis by auto
qed

text \<open>
  C11. Rejecting, on a healthy database with identifiers left: a tag in flight leaves the in-flight
  messages and its message, with one more delivery attempt, goes to the dead letters when the
  policy has a positive \<^verbatim>\<open>max_delivery_attempts\<close> and the new count reaches it, and back to the ready
  messages, behind those of the same or a higher priority, otherwise.  Any other tag is refused.
\<close>

theorem nack_correct:
  assumes "engine S view nxt False B" "reach S B view m" "q \<in> declared (view (mgr_db m))"
    and "nxt (mgr_db m) < 2 ^ 64" "nack S B q tag m = (r, m')"
  defines "a \<equiv> queue_of B (view (mgr_db m)) q" and "P \<equiv> policy_in B (view (mgr_db m)) q"
  shows "case flight a (tag_u64 tag) of
      None \<Rightarrow> r = Err (InvalidDeliveryTag tag) \<and> view (mgr_db m') = view (mgr_db m)
    | Some msg \<Rightarrow> r = Ok () \<and> queue_of B (view (mgr_db m')) q = aq_nack P (tag_u64 tag) msg a \<and>
        current_bytes m' = current_bytes m"
proof -
  note facts = engine_facts [OF assms(1,2)]
  have sp: "nack_spec False B q tag (abs_state view nxt m) r (abs_state view nxt m')"
    using wpD [OF engine.nack_refines [OF assms(1)] assms(5)] .
  show ?thesis
    using nack_outcome [OF sp facts(1)] nack_abs [OF facts(3), of False q tag "abs_state view nxt m" "()" "abs_state view nxt m'"]
      sp facts(1) assms(3,4)
    by (auto simp: a_def P_def split: option.splits)
qed

theorem nack_correct_witness:
  "\<exists>m'. nack mem_sled ref_bincode ''q'' (DeliveryTag 0) demo_consumed = (Ok (), m') \<and>
     ready (queue_of ref_bincode (mem_view (mgr_db m')) ''q'') = [bump demo_msg] \<and>
     dead (queue_of ref_bincode (mem_view (mgr_db m')) ''q'') = []"
proof -
  let ?a = "queue_of ref_bincode (mem_view (mgr_db demo_consumed)) ''q''"
  let ?P = "policy_in ref_bincode (mem_view (mgr_db demo_consumed)) ''q''"
  obtain r m' where c: "nack mem_sled ref_bincode ''q'' (DeliveryTag 0) demo_consumed = (r, m')" by force
  have "flight ?a 0 = Some demo_msg" by code_simp
  moreover have "ready (aq_nack ?P 0 demo_msg ?a) = [bump demo_msg]" by code_simp
  moreover have "dead (aq_nack ?P 0 demo_msg ?a) = []" by code_simp
  ultimately show ?thesis
    using nack_correct [OF mem.engine_axioms demo_reach(3) demo_q(3) _ c] c by simp
qed

text \<open>
  C13. Promotion, on a healthy database with enough identifiers: exactly the delayed messages whose
  delivery time has come become ready, in the order of their times and each behind the ready
  messages of the same or a higher priority; the others stay delayed, and the result is the number
  of promoted messages.  The early exit at the first message that is not due skips none that is.
\<close>

theorem promote_correct:
  assumes "engine S view nxt False B" "reach S B view m" "q \<in> declared (view (mgr_db m))"
    and "nxt (mgr_db m) + length (delayed (queue_of B (view (mgr_db m)) q)) \<le> 2 ^ 64"
    and "promote_scheduled S B now q m = (r, m')"
  defines "a \<equiv> queue_of B (view (mgr_db m)) q"
  shows "r = Ok (length (filter (\<lambda>msg. due_time msg \<le> sint now) (delayed a))) \<and>
    queue_of B (view (mgr_db m')) q = aq_promote now a"
proof -
  note facts = engine_facts [OF assms(1,2)]
  have sp: "promote_spec False B now q (abs_state view nxt m) r (abs_state view nxt m')"
    using wpD [OF engine.promote_refines [OF assms(1)] assms(5)] .
  from promote_outcome [OF sp facts(1)] assms(3,4) obtain n where r: "r = Ok n" by auto
  from promote_abs [OF sp [unfolded r] facts(1,2)] r show ?thesis by (simp add: a_def)
qed

theorem promote_correct_witness:
  "\<exists>m'. promote_scheduled mem_sled ref_bincode 6000 ''q'' demo_published = (Ok 1, m') \<and>
     ready (queue_of ref_bincode (mem_view (mgr_db m')) ''q'') = [demo_msg, demo_later]"
proof -
  let ?a = "queue_of ref_bincode (mem_view (mgr_db demo_published)) ''q''"
  obtain r m' where c: "promote_scheduled mem_sled ref_bincode 6000 ''q'' demo_published = (r, m')" by force
  have "length (delayed ?a) = 1" by code_simp
  moreover have "length (filter (\<lambda>msg. due_time msg \<le> sint (6000 :: i64)) (delayed ?a)) = 1" by code_simp
  moreover have "ready (aq_promote 6000 ?a) = [demo_msg, demo_later]" by code_simp
  ultimately show ?thesis
    using promote_correct [OF mem.engine_axioms demo_reach(2) demo_q(2) _ c] c by simp
qed



text \<open>
  C8. Delivery order.  Publishing a list of messages without delay and deduplication key to a queue
  and then consuming until the queue is empty delivers the messages that were ready and the
  published ones, sorted by priority (9 first, values above 9 as 9) and first in, first out within
  a priority.
\<close>

theorem fill_and_drain:
  assumes "engine S view nxt False B" "reach S B view m" "q \<in> declared (view (mgr_db m))"
    and "nxt (mgr_db m) + length msgs \<le> 2 ^ 64" "max_bytes m = None" "0 \<le> sint (clk 1)"
    and "\<forall>msg \<in> set msgs. deliver_at msg = None \<and> dedup_key msg = None"
    and "length (ready (queue_of B (view (mgr_db m)) q)) + length msgs \<le> n"
  shows "\<exists>m1 m2. publish_all S B clk q msgs m = (Ok (), m1) \<and>
    consume_all S B q n m1 = (Ok (sort_key rank (ready (queue_of B (view (mgr_db m)) q) @ msgs)), m2) \<and>
    ready (queue_of B (view (mgr_db m2)) q) = []"
proof -
  let ?a = "queue_of B (view (mgr_db m)) q"
  note facts = engine_facts [OF assms(1,2)]
  obtain r m1 where p: "publish_all S B clk q msgs m = (r, m1)" by force
  note pub = wpD [OF engine.publish_all_ready [where clk = clk, OF assms(1) _ assms(6,7) facts(1) assms(3-5)] p]
  have "\<forall>kv \<in> set (view (mgr_db m) q). main_entry B (nxt (mgr_db m)) kv"
    using wf_state_queue(2) [OF facts(1), of q] assms(3) by (simp add: wf_lists_def)
  then have so: "sorted (map rank (ready ?a))"
    using wf_sorted_rank [of "view (mgr_db m) q" B] facts(2) by (simp add: queue_of_def sorted_state_def)
  have r1: "ready (queue_of B (view (mgr_db m1)) q) = sort_key rank (ready ?a @ msgs)"
    using pub put_all_sort [OF so] by simp
  obtain r2 m2 where c: "consume_all S B q n m1 = (r2, m2)" by force
  have ok: "wf_state B (abs_state view nxt m1)" "q \<in> declared (view (mgr_db m1))" "r = Ok ()" using pub by simp_all
  have "length (ready (queue_of B (view (mgr_db m1)) q)) \<le> n" unfolding r1 using assms(8) by simp
  from wpD [OF engine.consume_all_ready [OF assms(1) _ ok(1,2) this] c] p c ok(3) r1 show ?thesis by auto
qed

theorem fill_and_drain_witness:
  "\<exists>m1 m2. publish_all mem_sled ref_bincode (\<lambda>_. 1000) ''q''
       [Message_new 1 0 ''a'' fmempty, with_priority (Message_new 2 0 ''b'' fmempty) 9]
       (mem_run [CDeclare ''q'' demo_policy] (mem_start None)) = (Ok (), m1) \<and>
     consume_all mem_sled ref_bincode ''q'' 2 m1 =
       (Ok [with_priority (Message_new 2 0 ''b'' fmempty) 9, Message_new 1 0 ''a'' fmempty], m2)"
proof -
  let ?m = "mem_run [CDeclare ''q'' demo_policy] (mem_start None)"
  let ?x = "Message_new 1 0 ''a'' fmempty" and ?y = "with_priority (Message_new 2 0 ''b'' fmempty) 9"
  have q: "plain_name ''q''" "utf8_ok ''q''" by code_simp+
  have re: "reach mem_sled ref_bincode mem_view ?m" by (rule mem_run_reach [OF mem_start_reach]) (simp add: q)
  have m: "?m = \<lparr>mgr_db = mgr_db demo_declared, current_bytes = 0, max_bytes = None\<rparr>" by code_simp
  have e: "ready (queue_of ref_bincode (mem_view (mgr_db demo_declared)) ''q'') = []" by code_simp
  have s: "sort_key rank [?x, ?y] = [?y, ?x]" by code_simp
  have "\<exists>m1 m2. publish_all mem_sled ref_bincode (\<lambda>_. 1000) ''q'' [?x, ?y] ?m = (Ok (), m1) \<and>
     consume_all mem_sled ref_bincode ''q'' 2 m1 =
       (Ok (sort_key rank (ready (queue_of ref_bincode (mem_view (mgr_db ?m)) ''q'') @ [?x, ?y])), m2) \<and>
     ready (queue_of ref_bincode (mem_view (mgr_db m2)) ''q'') = []"
    by (rule fill_and_drain [OF mem.engine_axioms re])
      (use m e demo_q(1) demo_clock in \<open>auto simp: with_priority_def Message_new_def\<close>)
  then show ?thesis using m e s by auto
qed

text \<open>
  Deduplication.  On a healthy database, publish a message with a deduplication key to a queue with a
  positive window \<open>w\<close>, the key being recorded at time \<open>t\<close>.  If the publish stores it, a second
  publish of a message with the same key at time \<open>now\<close> is \<^verbatim>\<open>Deduplicated\<close> exactly when
  \<open>now - 1000 w < t\<close> in 64-bit arithmetic, whatever the rest of the second message is.
\<close>

theorem dedup_window:
  assumes "engine S view nxt False B" "reach S B view m" "q \<in> declared (view (mgr_db m))"
    and "publish S B clk q msg m = (Ok (Stored i), m1)" "0 \<le> sint (clk 1)" "nxt (mgr_db m1) < 2 ^ 64"
    and "dedup_window_secs (policy_in B (view (mgr_db m)) q) = Some w" "0 < w"
    and "dedup_key msg = Some k" "dedup_key msg' = Some k" "publish S B clk' q msg' m1 = (r, m2)"
  shows "r = Ok Deduplicated \<longleftrightarrow> i64_less (clk' 0 - w * 1000) (clk 2)"
proof -
  note facts = engine_facts [OF assms(1,2)]
  have sp: "publish_spec False B clk q msg (abs_state view nxt m) (Ok (Stored i)) (abs_state view nxt m1)"
    using wpD [OF engine.publish_refines [OF assms(1)] assms(4)] .
  have re: "reach S B view m1"
    by (rule reach_call [OF assms(2), of "CPublish clk q msg" "Ok ()"])
      (use assms(4,5) in \<open>simp_all add: discard_def bnd_def ret_def\<close>)
  note facts1 = engine_facts [OF assms(1) re]
  have q1: "q \<in> declared (cont (abs_state view nxt m1))"
    using publish_declared [OF sp facts(1)] assms(3) by simp
  have rec: "recent (queue_of B (view (mgr_db m1)) q) k = Some (clk 2)"
    using publish_abs [OF facts(3) sp facts(1) assms(5)] assms(7,9)
    by (simp add: aq_seen_def)
  have "view (mgr_db m1) META_RETENTION_TREE = view (mgr_db m) META_RETENTION_TREE"
    using sp wf_state_queue(1) [OF facts(1), of q] assms(3)
    by (auto simp: publish_spec_def Let_def dedup_store_def enqueue_def abs_state_eq split: option.splits)
  then have P: "policy_in B (view (mgr_db m1)) q = policy_in B (view (mgr_db m)) q" by (simp add: policy_in_def)
  obtain b where ser: "ser_message B msg' = Inr b" using bincode_codec.ser_message_total [OF facts(3)] by blast
  have "publish_spec False B clk' q msg' (abs_state view nxt m1) r (abs_state view nxt m2)"
    using wpD [OF engine.publish_refines [OF assms(1)] assms(11)] .
  from publish_outcome [OF this facts1(1) q1 _ ser] assms(6-10) rec P show ?thesis
    by (auto simp: aq_duplicate_def split: option.splits if_splits)
qed

theorem dedup_window_witness:
  "let m1 = snd (publish mem_sled ref_bincode (\<lambda>_. 1000) ''q'' demo_msg demo_declared) in
   fst (publish mem_sled ref_bincode (\<lambda>_. 2000) ''q'' (with_dedup_key demo_later ''k'') m1) = Ok Deduplicated"
proof -
  let ?m1 = "snd (publish mem_sled ref_bincode (\<lambda>_. 1000) ''q'' demo_msg demo_declared)"
  note p = demo_publishes
  have w: "dedup_window_secs (policy_in ref_bincode (mem_view (mgr_db demo_declared)) ''q'') = Some 60" by code_simp
  have l: "i64_less (2000 - 60 * 1000) (1000 :: i64)" by code_simp
  have k: "dedup_key demo_msg = Some ''k''" "dedup_key (with_dedup_key demo_later ''k'') = Some ''k''"
    by (simp_all add: demo_msg_def with_dedup_key_def)
  show ?thesis
    using dedup_window [where clk = "\<lambda>_. 1000" and clk' = "\<lambda>_. 2000", OF mem.engine_axioms demo_reach(1) demo_q(1) p demo_clock _ w _ k surjective_pairing] l
    by (simp add: p demo_first_def demo_manager_def Let_def)
qed

text \<open>
  Declaring, on a healthy database: a new queue becomes declared, with the given policy and five
  empty components, and nothing else changes; a queue that exists is refused with
  \<^verbatim>\<open>QueueAlreadyExists\<close>, and its policy and contents stay.
\<close>

theorem declare_correct:
  assumes "engine S view nxt False B" "reach S B view m" "plain_name q"
    and "declare_queue_with_retention S B q P m = (r, m')"
  shows "if q \<in> declared (view (mgr_db m))
    then r = Err (QueueAlreadyExists q) \<and> abs_state view nxt m' = abs_state view nxt m
    else r = Ok () \<and> declared (view (mgr_db m')) = insert q (declared (view (mgr_db m))) \<and>
      policy_in B (view (mgr_db m')) q = P \<and>
      queue_of B (view (mgr_db m')) q = \<lparr>ready = [], flight = (\<lambda>_. None), dead = [], delayed = [], recent = (\<lambda>_. None)\<rparr> \<and>
      current_bytes m' = current_bytes m"
proof -
  let ?s = "abs_state view nxt m"
  note facts = engine_facts [OF assms(1,2)]
  have sp: "declare_spec False B q P ?s r (abs_state view nxt m')"
    using wpD [OF engine.declare_refines [OF assms(1)] assms(4)] .
  obtain b where "ser_policy B P = Inr b" using bincode_codec.ser_policy_total [OF facts(3)] by blast
  then have pol: "de_policy B (projr (ser_policy B P)) = Inr P"
    using bincode_codec.policy_roundtrip [OF facts(3)] by simp
  have empty: "\<forall>t \<in> trees q. cont ?s t = []" if "q \<notin> declared (cont ?s)"
    using facts(1) assms(3) that unfolding wf_state_def wf_store_def by blast
  show ?thesis
    using sp empty pol assms(3)
    by (cases r) (auto simp: declare_spec_def Let_def abs_state_eq declared_def policy_in_def policy_of_def
        queue_of_def trees_def simp del: set_map split: pelican_error.splits)
qed

theorem declare_correct_witness:
  "(\<exists>m'. declare_queue_with_retention mem_sled ref_bincode ''q'' demo_policy demo_declared =
      (Err (QueueAlreadyExists ''q''), m')) \<and>
   (\<exists>m'. declare_queue_with_retention mem_sled ref_bincode ''r'' demo_policy demo_declared = (Ok (), m') \<and>
      policy_in ref_bincode (mem_view (mgr_db m')) ''r'' = demo_policy)"
proof -
  have q: "plain_name ''q''" "plain_name ''r''" by code_simp+
  obtain r1 m1 where 1: "declare_queue_with_retention mem_sled ref_bincode ''q'' demo_policy demo_declared = (r1, m1)" by force
  obtain r2 m2 where 2: "declare_queue_with_retention mem_sled ref_bincode ''r'' demo_policy demo_declared = (r2, m2)" by force
  show ?thesis
    using declare_correct [OF mem.engine_axioms demo_reach(1) q(1) 1]
      declare_correct [OF mem.engine_axioms demo_reach(1) q(2) 2] 1 2 by (simp add: demo_queue)
qed

text \<open>
  The byte count.  On a healthy database \<^verbatim>\<open>recalculate_bytes\<close> returns the number of value bytes in
  the main, in-flight, dead-letter, scheduled and deduplication trees of all queues, modulo
  \<open>2 ^ 64\<close>, and changes nothing; \<^verbatim>\<open>list_queues\<close> returns the declared queues in byte order of their
  names, each once.
\<close>

theorem recalculate_exact:
  assumes "engine S view nxt False B" "reach S B view m"
  shows "(\<exists>m1. recalculate_bytes S m = (Ok (of_nat (stored_bytes (view (mgr_db m)))), m1) \<and>
      abs_state view nxt m1 = abs_state view nxt m) \<and>
    (\<exists>names. list_queues S m = (Ok names, m) \<and> set names = declared (view (mgr_db m)) \<and> sorted_wrt (<) names)"
proof
  note facts = engine_facts [OF assms]
  obtain r m1 where e: "recalculate_bytes S m = (r, m1)" by force
  from wpD [OF engine.recalculate_refines [OF assms(1)] e] e
  show "\<exists>m1. recalculate_bytes S m = (Ok (of_nat (stored_bytes (view (mgr_db m)))), m1) \<and>
      abs_state view nxt m1 = abs_state view nxt m"
    by (cases r) (auto simp: recalculate_spec_def split: pelican_error.splits)
  obtain r2 m2 where l: "list_queues S m = (r2, m2)" by force
  from wpD [OF engine.list_queues_wp [OF assms(1)] l] l
  have "list_queues S m = (Ok (queue_names (view (mgr_db m))), m)" by (cases r2) auto
  moreover have "set (queue_names (view (mgr_db m))) = declared (view (mgr_db m))"
    using facts(1) by (auto simp: queue_names_def declared_def wf_state_def wf_store_def)
  moreover have "sorted_wrt (<) (queue_names (view (mgr_db m)))"
    using facts(2) by (auto simp: queue_names_def sorted_state_def ot_sorted_def intro: sorted_wrt_filter)
  ultimately show "\<exists>names. list_queues S m = (Ok names, m) \<and> set names = declared (view (mgr_db m)) \<and> sorted_wrt (<) names"
    by blast
qed

theorem recalculate_exact_witness: "\<exists>m1. recalculate_bytes mem_sled demo_consumed = (Ok 93, m1)"
proof -
  have "stored_bytes (mem_view (mgr_db demo_consumed)) = 93" by code_simp
  then show ?thesis using recalculate_exact [OF mem.engine_axioms demo_reach(3)] by auto
qed

text \<open>
  Keys.  The byte order of \<^verbatim>\<open>encode_key\<close> is the delivery order: a higher priority first
  (priorities above 9 count as 9), then the smaller identifier; identifiers are read back from
  the key as \<^verbatim>\<open>consume\<close> does, \<open>key[1..9]\<close>.
\<close>

theorem encode_key_order:
  "(encode_key p i < encode_key p' j \<longleftrightarrow> min p' 9 < min p 9 \<or> min p 9 = min p' 9 \<and> i < j) \<and>
   (encode_key p i = encode_key p' j \<longleftrightarrow> min p 9 = min p' 9 \<and> i = j) \<and>
   length (encode_key p i) = 9 \<and> from_be_bytes (take 8 (drop 1 (encode_key p i))) = i"
proof -
  let ?m = "Message_new 0 0 [] fmempty\<lparr>priority := p\<rparr>" and ?m' = "Message_new 0 0 [] fmempty\<lparr>priority := p'\<rparr>"
  have "unat (min x 9) \<le> 9" for x :: u8 by (simp add: min_def word_le_nat_alt)
  note le = this [of p] this [of p']
  have r: "rank ?m = 9 - unat (min p 9)" "rank ?m' = 9 - unat (min p' 9)" by (simp_all add: rank_def)
  have lt: "rank ?m < rank ?m' \<longleftrightarrow> min p' 9 < min p 9" unfolding r word_less_nat_alt using le by arith
  have "9 - unat (min p 9) = 9 - unat (min p' 9) \<longleftrightarrow> unat (min p 9) = unat (min p' 9)" using le by arith
  then have eq: "rank ?m = rank ?m' \<longleftrightarrow> min p 9 = min p' 9" unfolding r by (metis word_eq_iff_unsigned)
  have less: "encode_key p i < encode_key p' j \<longleftrightarrow> rank ?m < rank ?m' \<or> rank ?m = rank ?m' \<and> i < j"
      "encode_key p' j < encode_key p i \<longleftrightarrow> rank ?m' < rank ?m \<or> rank ?m' = rank ?m \<and> j < i"
    using encode_key_less [of ?m i ?m' j] encode_key_less [of ?m' j ?m i] by simp_all
  have "encode_key p i = encode_key p' j \<longleftrightarrow> \<not> encode_key p i < encode_key p' j \<and> \<not> encode_key p' j < encode_key p i"
    by auto
  also have "\<dots> \<longleftrightarrow> rank ?m = rank ?m' \<and> i = j" unfolding less by (metis linorder_neq_iff)
  finally have "encode_key p i = encode_key p' j \<longleftrightarrow> min p 9 = min p' 9 \<and> i = j" unfolding eq .
  with less(1) show ?thesis unfolding lt eq by simp
qed

text \<open>
  The counters.  On a healthy database \<^verbatim>\<open>depth\<close>, \<^verbatim>\<open>dead_letter_count\<close> and \<^verbatim>\<open>scheduled_depth\<close> return
  the number of ready, dead and delayed messages of a declared queue, fail with \<^verbatim>\<open>QueueNotFound\<close> on
  any other, and change nothing.
\<close>

theorem counters_correct:
  fixes m :: "'db manager" and q :: string
  assumes "engine S view nxt False B"
  defines "a \<equiv> queue_of B (view (mgr_db m)) q"
    and "answer \<equiv> \<lambda>n r m'. abs_state view nxt m' = abs_state view nxt m \<and>
      r = (if q \<in> declared (view (mgr_db m)) then Ok n else Err (QueueNotFound q))"
  shows "wp (depth S q) (answer (length (ready a))) m \<and>
    wp (dead_letter_count S q) (answer (length (dead a))) m \<and>
    wp (scheduled_depth S q) (answer (length (delayed a))) m"
proof -
  have "answer (length (cont (abs_state view nxt m) t)) r m'"
    if "count_spec False q t (abs_state view nxt m) r (abs_state view nxt m')" for r m' t
    using that by (cases r) (auto simp: count_spec_def answer_def split: pelican_error.splits)
  then show ?thesis
    using engine.count_refines [OF assms(1), THEN wp_mono] by (simp add: a_def queue_of_def decoded_def)
qed

theorem counters_correct_witness: "\<exists>m'. scheduled_depth mem_sled ''q'' demo_published = (Ok 1, m')"
proof -
  have "length (delayed (queue_of ref_bincode (mem_view (mgr_db demo_published)) ''q'')) = 1" by code_simp
  then show ?thesis
    using counters_correct [OF mem.engine_axioms, where m = demo_published and q = "''q''"] demo_q(2)
    by (auto simp: wp_def split: prod.splits)
qed

end
