(* ===== verification/Queue_History.thy ===== *)
theory Queue_History
  imports Queue_Recovery
begin

text \<open>
  Whole runs of the queue engine \<^verbatim>\<open>pelicanq-core/src/queue.rs\<close> and what they promise to clients.
  \<^verbatim>\<open>run S B m h m'\<close> holds when calls lead from the manager \<open>m\<close> to \<open>m'\<close>, and \<open>h\<close> lists, newest first, the
  messages handed to \<^verbatim>\<open>publish\<close> (and whether it stored them), the deliveries of \<^verbatim>\<open>consume\<close>, the tags \<^verbatim>\<open>ack\<close> and
  \<^verbatim>\<open>nack\<close> settled, and the queues \<^verbatim>\<open>apply_retention\<close> and \<^verbatim>\<open>promote_scheduled\<close> went through.  A \<^verbatim>\<open>history\<close> is such a run from an empty
  database, restarts and I/O failures included.

  The second half is about tags: identifiers are never given out twice (\<^verbatim>\<open>ages\<close>), so a tag is delivered
  at most once and settled at most once, after its delivery (\<^verbatim>\<open>tags_ok\<close>).
\<close>

section \<open>Runs and histories\<close>

datatype event =
    Published string message bool
  | Delivered string delivery_tag message
  | Acked string delivery_tag
  | Nacked string delivery_tag
  | Swept string
  | Promoted string

datatype query = QDepth string | QScheduled string | QDead string | QList

fun query_prog :: "'db sled \<Rightarrow> query \<Rightarrow> ('db, unit) mprog" where
  "query_prog S (QDepth q) = discard (depth S q)"
| "query_prog S (QScheduled q) = discard (scheduled_depth S q)"
| "query_prog S (QDead q) = discard (dead_letter_count S q)"
| "query_prog S QList = discard (list_queues S)"

fun accepted :: "(pelican_error, publish_outcome) outcome \<Rightarrow> bool" where
  "accepted (Ok (Stored i)) = True"
| "accepted _ = False"

fun delivery :: "string \<Rightarrow> (pelican_error, (delivery_tag \<times> message) option) outcome \<Rightarrow> event list" where
  "delivery q (Ok (Some (t, msg))) = [Delivered q t msg]"
| "delivery q _ = []"

definition on_success :: "('e, unit) outcome \<Rightarrow> event \<Rightarrow> event list" where
  "on_success r e = (if r = Ok () then [e] else [])"

inductive run :: "'db sled \<Rightarrow> bincode \<Rightarrow> 'db manager \<Rightarrow> event list \<Rightarrow> 'db manager \<Rightarrow> bool" for S B where
  run_start: "run S B m [] m"
| run_publish: "run S B m h m1 \<Longrightarrow> 0 \<le> sint (clk 1) \<Longrightarrow> publish S B clk q msg m1 = (r, m') \<Longrightarrow>
    run S B m (Published q msg (accepted r) # h) m'"
| run_consume: "run S B m h m1 \<Longrightarrow> consume S B q m1 = (r, m') \<Longrightarrow> run S B m (delivery q r @ h) m'"
| run_ack: "run S B m h m1 \<Longrightarrow> ack S q t m1 = (r, m') \<Longrightarrow> run S B m (on_success r (Acked q t) @ h) m'"
| run_nack: "run S B m h m1 \<Longrightarrow> nack S B q t m1 = (r, m') \<Longrightarrow> run S B m (on_success r (Nacked q t) @ h) m'"
| run_retain: "run S B m h m1 \<Longrightarrow> apply_retention S B now q m1 = (r, m') \<Longrightarrow> run S B m (Swept q # h) m'"
| run_promote: "run S B m h m1 \<Longrightarrow> promote_scheduled S B now q m1 = (r, m') \<Longrightarrow> run S B m (Promoted q # h) m'"
| run_declare: "run S B m h m1 \<Longrightarrow> plain_name q \<Longrightarrow> utf8_ok q \<Longrightarrow>
    declare_queue_with_retention S B q P m1 = (r, m') \<Longrightarrow> run S B m h m'"
| run_query: "run S B m h m1 \<Longrightarrow> query_prog S c m1 = (r, m') \<Longrightarrow> run S B m h m'"

inductive history ::
    "'db sled \<Rightarrow> bincode \<Rightarrow> ('db \<Rightarrow> contents) \<Rightarrow> event list \<Rightarrow> 'db manager \<Rightarrow> bool" for S B view where
  history_fresh: "\<forall>t. view (mgr_db m) t = [] \<Longrightarrow> history S B view [] m"
| history_run: "history S B view h m \<Longrightarrow> run S B m h' m' \<Longrightarrow> history S B view (h' @ h) m'"
| history_restart: "history S B view h m \<Longrightarrow> open_manager S B (Inr (mgr_db m)) mx = (r, Some m') \<Longrightarrow>
    history S B view h m'"

section \<open>What a history says\<close>

text \<open>The message delivered under a tag of a queue.\<close>

fun delivered :: "event list \<Rightarrow> string \<times> delivery_tag \<Rightarrow> message option" where
  "delivered [] = Map.empty"
| "delivered (Delivered q t msg # h) = (delivered h)((q, t) \<mapsto> msg)"
| "delivered (_ # h) = delivered h"

fun settled :: "event list \<Rightarrow> (string \<times> delivery_tag) set" where
  "settled [] = {}"
| "settled (Acked q t # h) = insert (q, t) (settled h)"
| "settled (Nacked q t # h) = insert (q, t) (settled h)"
| "settled (_ # h) = settled h"

text \<open>A delivery has a new tag; a settled tag was delivered before and was not settled since.\<close>

fun lawful :: "event list \<Rightarrow> bool" where
  "lawful [] = True"
| "lawful (Delivered q t msg # h) = ((q, t) \<notin> dom (delivered h) \<and> lawful h)"
| "lawful (Acked q t # h) = ((q, t) \<in> dom (delivered h) \<and> (q, t) \<notin> settled h \<and> lawful h)"
| "lawful (Nacked q t # h) = ((q, t) \<in> dom (delivered h) \<and> (q, t) \<notin> settled h \<and> lawful h)"
| "lawful (_ # h) = lawful h"

text \<open>The identifiers of the messages stored into a queue, and of those whose delivery was acknowledged.\<close>

fun published_ids :: "event list \<Rightarrow> string \<Rightarrow> uuid multiset" where
  "published_ids [] p = {#}"
| "published_ids (Published q msg ok # h) p =
     (if ok \<and> q = p then add_mset (msg_id msg) (published_ids h p) else published_ids h p)"
| "published_ids (_ # h) p = published_ids h p"

fun acked_ids :: "event list \<Rightarrow> string \<Rightarrow> uuid multiset" where
  "acked_ids [] p = {#}"
| "acked_ids (Acked q t # h) p =
     (if q = p then add_mset (msg_id (the (delivered h (q, t)))) (acked_ids h p) else acked_ids h p)"
| "acked_ids (_ # h) p = acked_ids h p"

text \<open>Equal up to the number of delivery attempts; a message that was handed to \<^verbatim>\<open>publish\<close> for a queue.\<close>

definition same_message :: "message \<Rightarrow> message \<Rightarrow> bool" where
  "same_message a b \<longleftrightarrow> a\<lparr>delivery_attempts := 0\<rparr> = b\<lparr>delivery_attempts := 0\<rparr>"

definition from_client :: "event list \<Rightarrow> string \<Rightarrow> message \<Rightarrow> bool" where
  "from_client h q msg \<longleftrightarrow> (\<exists>msg0 ok. Published q msg0 ok \<in> set h \<and> same_message msg msg0)"

section \<open>The tags of a history\<close>

text \<open>
  From \<open>s\<close> to \<open>s'\<close> identifiers only grow, every new key of a main tree carries an
  identifier given out since, and no message goes into flight.
\<close>

definition ages :: "qstate \<Rightarrow> qstate \<Rightarrow> bool" where
  "ages s s' \<longleftrightarrow> next_id s \<le> next_id s' \<and>
     (\<forall>p. plain_name p \<longrightarrow>
        (\<forall>k \<in> set (keys (cont s' p)). k \<in> set (keys (cont s p)) \<or> next_id s \<le> unat (key_id k)) \<and>
        set (cont s' (inflight_tree_name p)) \<subseteq> set (cont s (inflight_tree_name p)))"

text \<open>Delivered tags are old and in no main tree; a message in flight was delivered under its tag, which is not settled.\<close>

definition tags_ok :: "bincode \<Rightarrow> event list \<Rightarrow> qstate \<Rightarrow> bool" where
  "tags_ok B h s \<longleftrightarrow> lawful h \<and>
     (\<forall>q t. (q, t) \<in> dom (delivered h) \<longrightarrow> plain_name q \<and> unat (tag_u64 t) < next_id s \<and>
        (\<forall>k \<in> set (keys (cont s q)). key_id k \<noteq> tag_u64 t)) \<and>
     (\<forall>p k v. plain_name p \<longrightarrow> (k, v) \<in> set (cont s (inflight_tree_name p)) \<longrightarrow>
        delivered h (p, DeliveryTag (from_be_bytes k)) = Some (projr (de_message B v)) \<and>
        (p, DeliveryTag (from_be_bytes k)) \<notin> settled h)"

section \<open>How the operations age the store\<close>

lemma ages_refl [simp]: "ages s s"
  by (simp add: ages_def)

lemma ages_same: "cont s' = cont s \<Longrightarrow> next_id s \<le> next_id s' \<Longrightarrow> ages s s'"
  by (simp add: ages_def)

lemma ages_trans: "ages s s1 \<Longrightarrow> ages s1 s' \<Longrightarrow> ages s s'"
  unfolding ages_def by (meson order_trans subset_trans)

lemma ages_main:
  assumes "took_id f (next_id s) n'" "plain_name q" "next_id s' = n'"
    and "\<And>p. plain_name p \<Longrightarrow> p \<noteq> q \<Longrightarrow> cont s' p = cont s p"
    and "set (keys (cont s' q)) \<subseteq> insert (encode_key i (of_nat (next_id s))) (set (keys (cont s q)))"
    and "\<And>p. plain_name p \<Longrightarrow>
      set (cont s' (inflight_tree_name p)) \<subseteq> set (cont s (inflight_tree_name p))"
  shows "ages s s'"
proof -
  have "k \<in> set (keys (cont s p)) \<or> next_id s \<le> unat (key_id k)"
    if "plain_name p" "k \<in> set (keys (cont s' p))" for p k
    using assms(4) [OF that(1)] assms(5) that(2) took_idD(3) [OF assms(1)] by (cases "p = q") auto
  then show ?thesis using assms(3,6) took_idD(1) [OF assms(1)] by (simp add: ages_def)
qed

lemma requeue_one_ages:
  assumes "took_id f (next_id s) n'" "plain_name q" "src = None \<or> src = Some (scheduled_tree_name q)"
  shows "ages s (s\<lparr>cont := requeue_one B src q kv (next_id s) (cont s), next_id := n'\<rparr>)"
  by (rule ages_main [OF assms(1,2), of _ "priority (projr (de_message B (snd kv)))"])
    (use assms in \<open>auto simp: requeue_one_def Let_def simp del: set_map\<close>)

lemma requeues_ages:
  "requeues f B src q xs s s' \<Longrightarrow> plain_name q \<Longrightarrow> src = None \<or> src = Some (scheduled_tree_name q) \<Longrightarrow> ages s s'"
proof (induction rule: requeues.induct)
  case (requeues_Cons s n' kv xs s')
  then show ?case using ages_trans [OF requeue_one_ages] by blast
qed simp

lemma requeue_fails_ages:
  "requeue_fails f B src q xs s e s' \<Longrightarrow> plain_name q \<Longrightarrow> src = None \<or> src = Some (scheduled_tree_name q) \<Longrightarrow> ages s s'"
proof (induction rule: requeue_fails.induct)
  case (fails_commit s n' kv xs e)
  then show ?case using took_idD(1) [of f "next_id s" n'] by (intro ages_same) auto
next
  case (fails_later s n' kv xs e s')
  then show ?case using ages_trans [OF requeue_one_ages] by blast
qed simp_all

lemma recovered_ages:
  assumes "recovered f B q es ks s s'" "plain_name q"
  shows "ages s s'"
proof -
  from assms(1) obtain s1 where r: "requeues f B None q es s s1"
    and s': "s' = s1\<lparr>cont := (cont s1)(inflight_tree_name q := without ks (cont s1 (inflight_tree_name q)))\<rparr>"
    by (auto simp: recovered_def)
  have "ages s1 s'" by (auto simp: s' ages_def without_def)
  with requeues_ages [OF r assms(2)] show ?thesis using ages_trans by blast
qed

lemma recover_queue_ages: "recover_queue_spec f B q s r s' \<Longrightarrow> plain_name q \<Longrightarrow> ages s s'"
  by (cases r) (auto simp: recover_queue_spec_def dest: recovered_ages requeue_fails_ages)

lemma promote_ages:
  assumes "promote_spec f B now q s r s'" "wf_state B s"
  shows "ages s s'"
  using assms wf_state_queue(1) [OF assms(2), of q]
  by (cases r) (auto simp: promote_spec_def Let_def split: pelican_error.splits
      dest: requeues_ages requeue_fails_ages)

lemma declare_ages: "declare_spec f B q P s r s' \<Longrightarrow> ages s s'"
  by (cases r) (auto simp: declare_spec_def Let_def ages_def split: pelican_error.splits)

lemma enqueue_ages:
  assumes "took_id f (next_id s) n'" "plain_name q" "next_id s' = n'"
    and "cont s' = V1 \<or> cont s' = dedup_store V1 q P msg t2" "V1 = enqueue (cont s) q msg now (of_nat (next_id s)) b"
  shows "ages s s'"
  by (rule ages_main [OF assms(1-3), of "priority msg"])
    (use assms(2,4,5) in \<open>auto simp: enqueue_def dedup_store_def simp del: set_map split: option.splits\<close>)

lemma publish_ages:
  assumes sp: "publish_spec f B clk q msg s r s'" and wf: "wf_state B s"
  shows "ages s s'"
proof -
  let ?V1 = "enqueue (cont s) q msg (clk 1) (of_nat (next_id s)) (projr (ser_message B msg))"
  consider (same) "cont s' = cont s" "next_id s \<le> next_id s'"
    | (put) n' where "q \<in> declared (cont s)" "took_id f (next_id s) n'" "next_id s' = n'"
      "cont s' = ?V1 \<or> cont s' = dedup_store ?V1 q (policy_in B (cont s) q) msg (clk 2)"
    using sp took_idD(1)
    by (cases r) (auto simp: publish_spec_def Let_def less_imp_le split: publish_outcome.splits pelican_error.splits)
  then show ?thesis
    by cases (auto intro: ages_same enqueue_ages wf_state_queue(1) [OF wf])
qed

lemma retention_ages:
  assumes sp: "retention_spec f B now q s r s'" and wf: "wf_state B s"
  shows "ages s s'"
proof -
  have sub: "ages s s'" if "cont s' = (cont s)(q := ys)" "set ys \<subseteq> set (cont s q)" "next_id s' = next_id s" "plain_name q" for ys
    using that by (auto simp: ages_def)
  note pl = wf_state_queue(1) [OF wf, of q]
  show ?thesis
  proof (cases r)
    case (Ok n)
    then show ?thesis
      using sp sub [OF _ retained_subset] pl by (auto simp: retention_spec_def Let_def)
  next
    case (Err e)
    have "ages s s'" if "q \<in> declared (cont s)" "subseq (cont s' q) (cont s q)" and s': "s' = s\<lparr>cont := (cont s)(q := cont s' q)\<rparr>"
      using sub [of "cont s' q"] subseq_subset [OF that(2)] pl [OF that(1)]
        arg_cong [OF s', of cont] arg_cong [OF s', of next_id] by simp
    then show ?thesis using sp Err by (auto simp: retention_spec_def Let_def split: pelican_error.splits)
  qed (use sp in \<open>auto simp: retention_spec_def Let_def\<close>)
qed

lemma ack_ages:
  assumes sp: "ack_spec f q tag s r s'" and wf: "wf_state B s"
  shows "ages s s'"
    and "r = Ok () \<Longrightarrow> q \<in> declared (cont s) \<and> map_of (cont s (inflight_tree_name q)) (to_be_bytes (tag_u64 tag)) \<noteq> None \<and>
      to_be_bytes (tag_u64 tag) \<notin> set (keys (cont s' (inflight_tree_name q)))"
proof -
  show "ages s s'"
    using sp wf_state_queue(1) [OF wf, of q]
    by (cases r) (auto simp: ack_spec_def Let_def ages_def set_ot_remove simp del: set_map split: pelican_error.splits if_splits)
  assume "r = Ok ()"
  with sp show "q \<in> declared (cont s) \<and> map_of (cont s (inflight_tree_name q)) (to_be_bytes (tag_u64 tag)) \<noteq> None \<and>
      to_be_bytes (tag_u64 tag) \<notin> set (keys (cont s' (inflight_tree_name q)))"
    by (auto simp: ack_spec_def Let_def simp del: set_map)
qed

lemma nack_ages:
  assumes sp: "nack_spec f B q tag s r s'" and wf: "wf_state B s"
  shows "ages s s'"
    and "r = Ok () \<Longrightarrow> q \<in> declared (cont s) \<and> map_of (cont s (inflight_tree_name q)) (to_be_bytes (tag_u64 tag)) \<noteq> None \<and>
      to_be_bytes (tag_u64 tag) \<notin> set (keys (cont s' (inflight_tree_name q)))"
proof -
  let ?old = "to_be_bytes (tag_u64 tag)"
  let ?Q = "q \<in> declared (cont s) \<and> map_of (cont s (inflight_tree_name q)) ?old \<noteq> None \<and>
      ?old \<notin> set (keys (cont s' (inflight_tree_name q)))"
  have "ages s s' \<and> (r = Ok () \<longrightarrow> ?Q)"
  proof (cases r)
    case (Ok u)
    from sp [unfolded Ok] obtain v msg b n' where q: "q \<in> declared (cont s)" and id: "took_id f (next_id s) n'"
      and v: "map_of (cont s (inflight_tree_name q)) ?old = Some v"
      and s': "s' = s\<lparr>cont := put_back (cont s) q (reject_tree (policy_in B (cont s) q) q (bump msg))
          ?old (encode_key (priority msg) (of_nat (next_id s))) b, next_id := n'\<rparr>"
      unfolding nack_spec_def Let_def by auto
    note pl = wf_state_queue(1) [OF wf q]
    have "ages s s'"
      by (rule ages_main [OF id pl, of _ "priority msg"])
        (use pl in \<open>auto simp: s' put_back_def reject_tree_def set_ot_remove simp del: set_map\<close>)
    moreover have "?old \<notin> set (keys (cont s' (inflight_tree_name q)))"
      using pl by (simp add: s' put_back_def reject_tree_def del: set_map)
    ultimately show ?thesis using q v by simp
  next
    case (Err e)
    then show ?thesis
      using sp took_idD(1) by (auto simp: nack_spec_def Let_def less_imp_le intro!: ages_same split: pelican_error.splits)
  qed (use sp in \<open>auto simp: nack_spec_def Let_def\<close>)
  then show "ages s s'" "r = Ok () \<Longrightarrow> ?Q" by simp_all
qed


lemma query_same: "count_spec f q t s r s' \<Longrightarrow> s' = s"
  by (simp add: count_spec_def)

section \<open>Tags\<close>

lemma agesD:
  assumes "ages s s'"
  shows "next_id s \<le> next_id s'"
    and "plain_name p \<Longrightarrow> k \<in> set (keys (cont s' p)) \<Longrightarrow> k \<in> set (keys (cont s p)) \<or> next_id s \<le> unat (key_id k)"
    and "plain_name p \<Longrightarrow> kv \<in> set (cont s' (inflight_tree_name p)) \<Longrightarrow> kv \<in> set (cont s (inflight_tree_name p))"
  using assms unfolding ages_def by blast+

lemma tags_okI:
  assumes "lawful h"
    and "\<And>q t. (q, t) \<in> dom (delivered h) \<Longrightarrow> plain_name q"
    and "\<And>q t. (q, t) \<in> dom (delivered h) \<Longrightarrow> unat (tag_u64 t) < next_id s"
    and "\<And>q t k. (q, t) \<in> dom (delivered h) \<Longrightarrow> k \<in> set (keys (cont s q)) \<Longrightarrow> key_id k \<noteq> tag_u64 t"
    and "\<And>p k v. plain_name p \<Longrightarrow> (k, v) \<in> set (cont s (inflight_tree_name p)) \<Longrightarrow>
      delivered h (p, DeliveryTag (from_be_bytes k)) = Some (projr (de_message B v)) \<and>
      (p, DeliveryTag (from_be_bytes k)) \<notin> settled h"
  shows "tags_ok B h s"
  unfolding tags_ok_def using assms by blast

lemma tags_okD:
  assumes "tags_ok B h s"
  shows "lawful h"
    and "(q, t) \<in> dom (delivered h) \<Longrightarrow> plain_name q"
    and "(q, t) \<in> dom (delivered h) \<Longrightarrow> unat (tag_u64 t) < next_id s"
    and "(q, t) \<in> dom (delivered h) \<Longrightarrow> k \<in> set (keys (cont s q)) \<Longrightarrow> key_id k \<noteq> tag_u64 t"
    and "plain_name p \<Longrightarrow> (k, v) \<in> set (cont s (inflight_tree_name p)) \<Longrightarrow>
      delivered h (p, DeliveryTag (from_be_bytes k)) = Some (projr (de_message B v)) \<and>
      (p, DeliveryTag (from_be_bytes k)) \<notin> settled h"
  using assms unfolding tags_ok_def by blast+

lemma lawful_settled: "lawful h \<Longrightarrow> settled h \<subseteq> dom (delivered h)"
  by (induction h rule: lawful.induct) auto

lemma tags_ages:
  assumes "tags_ok B h s" "ages s s'"
  shows "tags_ok B h s'"
proof (rule tags_okI)
  note tr = tags_okD [OF assms(1)] and ag = agesD [OF assms(2)]
  show "lawful h" by (rule tr(1))
  fix q t assume d: "(q, t) \<in> dom (delivered h)"
  show "plain_name q" by (rule tr(2) [OF d])
  show "unat (tag_u64 t) < next_id s'" using tr(3) [OF d] ag(1) by simp
  show "key_id k \<noteq> tag_u64 t" if "k \<in> set (keys (cont s' q))" for k
    using ag(2) [OF tr(2) [OF d] that] tr(3,4) [OF d] by fastforce
next
  fix p k v assume p: "plain_name p" "(k, v) \<in> set (cont s' (inflight_tree_name p))"
  from tags_okD(5) [OF assms(1) p(1) agesD(3) [OF assms(2) p]]
  show "delivered h (p, DeliveryTag (from_be_bytes k)) = Some (projr (de_message B v)) \<and>
      (p, DeliveryTag (from_be_bytes k)) \<notin> settled h" .
qed

lemma tags_settle:
  assumes tr: "tags_ok B h s" and ag: "ages s s'" and wf: "wf_state B s" and q: "q \<in> declared (cont s)"
    and v: "map_of (cont s (inflight_tree_name q)) (to_be_bytes (tag_u64 tag)) = Some v"
    and k: "to_be_bytes (tag_u64 tag) \<notin> set (keys (cont s' (inflight_tree_name q)))"
    and e: "e = Acked q tag \<or> e = Nacked q tag"
  shows "tags_ok B (e # h) s'" and "delivered h (q, tag) = Some (projr (de_message B v))"
proof -
  let ?k = "to_be_bytes (tag_u64 tag)"
  note pl = wf_state_queue(1) [OF wf q]
  note tr' = tags_okD [OF tags_ages [OF tr ag]]
  have "DeliveryTag (from_be_bytes ?k) = tag" by (cases tag) simp
  with tags_okD(5) [OF tr pl map_of_SomeD [OF v]]
  have old: "delivered h (q, tag) = Some (projr (de_message B v))" "(q, tag) \<notin> settled h" by simp_all
  then show "delivered h (q, tag) = Some (projr (de_message B v))" by simp
  have ne: "DeliveryTag (from_be_bytes k') \<noteq> tag" if k': "(k', v') \<in> set (cont s' (inflight_tree_name q))" for k' v'
  proof -
    have "\<forall>kv \<in> set (cont s (inflight_tree_name q)). inflight_entry B (next_id s) kv"
      using wf_state_queue(2) [OF wf q] by (simp add: wf_lists_def)
    then have "k' = to_be_bytes (from_be_bytes k' :: u64)"
      using agesD(3) [OF ag pl k'] by (fastforce elim: inflight_entryE)
    moreover have "k' \<in> set (keys (cont s' (inflight_tree_name q)))" using k' by force
    ultimately show ?thesis using k by (metis delivery_tag.sel)
  qed
  have del: "delivered (e # h) = delivered h" "settled (e # h) = insert (q, tag) (settled h)"
    "lawful (e # h)" using e old tr'(1) by auto
  show "tags_ok B (e # h) s'"
  proof (rule tags_okI, unfold del)
    fix p k v' assume p: "plain_name p" "(k, v') \<in> set (cont s' (inflight_tree_name p))"
    then show "delivered h (p, DeliveryTag (from_be_bytes k)) = Some (projr (de_message B v')) \<and>
       (p, DeliveryTag (from_be_bytes k)) \<notin> insert (q, tag) (settled h)"
      using tr'(5) [OF p] ne by (cases "p = q") auto
  qed (use tr'(2-4) del in simp_all)
qed

lemma tags_deliver:
  assumes tr: "tags_ok B h s" and wf: "wf_state B s" and q: "q \<in> declared (cont s)"
    and hd: "cont s q = (k, v) # rest" and s': "s' = s\<lparr>cont := took_head (cont s) q k v\<rparr>"
    and msg: "de_message B v = Inr msg"
  shows "tags_ok B (Delivered q (DeliveryTag (from_be_bytes (take 8 (drop 1 k)))) msg # h) s'"
proof -
  note l = wf_state_queue [OF wf q] and tr = tags_okD [OF tr]
  have "length k = 9" using wf_no_panic(2) [OF wf q, of "(k, v)"] hd by simp
  then have k: "take 8 (drop 1 k) = drop 1 k" by simp
  have kin: "k \<in> set (keys (cont s q))" by (simp add: hd)
  have main: "set (keys (cont s' p)) = set (keys (cont s p)) - (if p = q then {k} else {})" if "plain_name p" for p
    using that l(1) by (simp add: s' took_head_def del: set_map)
  have infl: "set (cont s' (inflight_tree_name p)) \<subseteq>
      set (cont s (inflight_tree_name p)) \<union> (if p = q then {(drop 1 k, v)} else {})" if "plain_name p" for p
    using that l(1) k set_ot_insert_subset [of "drop 1 k" v] by (auto simp: s' took_head_def)
  have inj: "inj_on key_id (set (keys (cont s q)))" using l(2) by (simp add: wf_lists_def del: set_map)
  have lt: "unat (key_id k) < next_id s"
    using l(2) hd by (auto simp: wf_lists_def main_entry_def split: sum.splits)
  have new: "(q, DeliveryTag (key_id k)) \<notin> dom (delivered h)" using tr(4) [OF _ kin] by force
  then have nset: "(q, DeliveryTag (key_id k)) \<notin> settled h" using lawful_settled [OF tr(1)] by blast
  show ?thesis
    unfolding k key_id_def [symmetric]
  proof (rule tags_okI)
    show "lawful (Delivered q (DeliveryTag (key_id k)) msg # h)" using tr(1) new by simp
    fix p t assume d: "(p, t) \<in> dom (delivered (Delivered q (DeliveryTag (key_id k)) msg # h))"
    show pl: "plain_name p" using d tr(2) l(1) by (auto split: if_splits)
    show "unat (tag_u64 t) < next_id s'" using d tr(3) lt by (auto simp: s' split: if_splits)
    show "key_id k' \<noteq> tag_u64 t" if k': "k' \<in> set (keys (cont s' p))" for k'
    proof (cases "(p, t) \<in> dom (delivered h)")
      case True
      with tr(4) [OF this] k' main [OF pl] show ?thesis by blast
    next
      case False
      then have "p = q" "t = DeliveryTag (key_id k)" using d by auto
      then show ?thesis using k' main [OF pl] inj kin by (auto simp: inj_on_def simp del: set_map)
    qed
  next
    fix p k' v' assume p: "plain_name p" "(k', v') \<in> set (cont s' (inflight_tree_name p))"
    consider "(k', v') \<in> set (cont s (inflight_tree_name p))" | "p = q" "k' = drop 1 k" "v' = v"
      using infl [OF p(1)] p(2) by (auto split: if_splits)
    then show "delivered (Delivered q (DeliveryTag (key_id k)) msg # h) (p, DeliveryTag (from_be_bytes k')) =
          Some (projr (de_message B v')) \<and>
        (p, DeliveryTag (from_be_bytes k')) \<notin> settled (Delivered q (DeliveryTag (key_id k)) msg # h)"
    proof cases
      case 1
      with tr(5) [OF p(1) 1] new show ?thesis by (auto simp: dom_def)
    qed (use nset msg in \<open>simp add: key_id_def\<close>)
  qed
qed

lemma tags_consume:
  assumes tr: "tags_ok B h s" and sp: "consume_spec f B q s r s'" and wf: "wf_state B s"
  shows "tags_ok B (delivery q r @ h) s'"
proof -
  have ser: False if "q \<in> declared (cont s)" "cont s q = (k, v) # rest" "de_message B v = Inl e" for k v rest e
    using wf_no_panic(2) [OF wf that(1), of "(k, v)"] that by simp
  show ?thesis
    using sp tr ser tags_deliver [OF tr wf]
    by (cases r) (auto simp: consume_spec_def split: option.splits pelican_error.splits)
qed

end
