(* ===== verification/Queue_Ledger.thy ===== *)
theory Queue_Ledger
  imports Queue_History
begin

text \<open>
  The messages of a history (\<^verbatim>\<open>Queue_History\<close>): a stored message stays in its queue until a delivery
  of it is acknowledged or the queue is swept, and nothing is stored or delivered that was not published to that queue
  (\<^verbatim>\<open>books\<close>).  With the tags this is the invariant \<^verbatim>\<open>tracks\<close> of every history, restarts included.
  Without a call of \<^verbatim>\<open>promote_scheduled\<close> a delayed message stays delayed (\<^verbatim>\<open>stays_delayed\<close>).
\<close>

section \<open>The invariant of histories\<close>

text \<open>
  The messages of a queue: of those stored into it none is gone unless acknowledged, and all it holds
  come from clients.
\<close>

definition book :: "bincode \<Rightarrow> event list \<Rightarrow> contents \<Rightarrow> string \<Rightarrow> bool" where
  "book B h V p \<longleftrightarrow>
     (Swept p \<notin> set h \<longrightarrow> published_ids h p \<subseteq># msg_ids B V p + acked_ids h p) \<and>
     (\<forall>v \<in># stored V p. from_client h p (projr (de_message B v)))"

definition books :: "bincode \<Rightarrow> event list \<Rightarrow> qstate \<Rightarrow> bool" where
  "books B h s \<longleftrightarrow>
     (\<forall>p \<in> declared (cont s). book B h (cont s) p) \<and>
     (\<forall>p. p \<notin> declared (cont s) \<longrightarrow> published_ids h p = {#}) \<and>
     (\<forall>q t msg. delivered h (q, t) = Some msg \<longrightarrow> from_client h q msg)"

definition tracks :: "bincode \<Rightarrow> event list \<Rightarrow> qstate \<Rightarrow> bool" where
  "tracks B h s \<longleftrightarrow> wf_state B s \<and> tags_ok B h s \<and> books B h s"

fun event_queue :: "event \<Rightarrow> string" where
  "event_queue (Published q msg ok) = q"
| "event_queue (Delivered q t msg) = q"
| "event_queue (Acked q t) = q"
| "event_queue (Nacked q t) = q"
| "event_queue (Swept q) = q"
| "event_queue (Promoted q) = q"

text \<open>A recovery ages the store, and every message it leaves in a queue was there before.\<close>

definition regains :: "qstate \<Rightarrow> qstate \<Rightarrow> bool" where
  "regains s s' \<longleftrightarrow> ages s s' \<and>
     (\<forall>p. plain_name p \<longrightarrow> set_mset (stored (cont s') p) \<subseteq> set_mset (stored (cont s) p)) \<and>
     (\<forall>p. cont s' (scheduled_tree_name p) = cont s (scheduled_tree_name p))"

text \<open>Only \<^verbatim>\<open>promote_scheduled\<close> takes a message out of the delayed ones.\<close>

definition stays_delayed :: "string \<Rightarrow> qstate \<Rightarrow> qstate \<Rightarrow> bool" where
  "stays_delayed p s s' \<longleftrightarrow> set (cont s (scheduled_tree_name p)) \<subseteq> set (cont s' (scheduled_tree_name p))"

section \<open>Books\<close>

lemma same_message_simps [simp]:
  "same_message m m" "same_message (bump a) b = same_message a b" "same_message a b \<Longrightarrow> msg_id a = msg_id b"
proof -
  show "same_message m m" "same_message (bump a) b = same_message a b" by (simp_all add: same_message_def bump_def)
  assume "same_message a b"
  from arg_cong [OF this [unfolded same_message_def], of msg_id] show "msg_id a = msg_id b" by simp
qed

lemma from_client_mono: "from_client h q msg \<Longrightarrow> from_client (es @ h) q msg"
  by (auto simp: from_client_def)

lemma other_events:
  "\<forall>e \<in> set es. event_queue e \<noteq> p \<Longrightarrow> published_ids (es @ h) p = published_ids h p \<and>
     acked_ids (es @ h) p = acked_ids h p \<and> (Swept p \<in> set (es @ h) \<longleftrightarrow> Swept p \<in> set h) \<and>
     (\<forall>t. delivered (es @ h) (p, t) = delivered h (p, t))"
proof (induction es)
  case (Cons e es)
  then show ?case by (cases e) auto
qed simp

lemma book_frame:
  assumes "book B h V p" "stored V' p = stored V p" "\<forall>e \<in> set es. event_queue e \<noteq> p"
  shows "book B (es @ h) V' p"
  using assms other_events [OF assms(3), of h] from_client_mono [of h p _ es] by (simp add: book_def msg_ids_def)

lemma book_quiet:
  assumes "book B h V p" "stored V' p = stored V p" "published_ids (es @ h) p = published_ids h p" "acked_ids (es @ h) p = acked_ids h p"
  shows "book B (es @ h) V' p"
  using assms from_client_mono [of h p _ es] by (auto simp: book_def msg_ids_def)

lemma books_step:
  assumes b: "books B h s" and wf: "wf_state B s" and q: "q \<in> declared (cont s)" and o: "only q s s'"
    and es: "\<forall>e \<in> set es. event_queue e = q" and bq: "book B (es @ h) (cont s') q"
    and del: "\<And>t msg. delivered (es @ h) (q, t) = Some msg \<Longrightarrow> from_client (es @ h) q msg"
  shows "books B (es @ h) s'"
proof -
  note pl = wf_state_queue(1) [OF wf]
  have d: "declared (cont s') = declared (cont s)" using only_declared [OF o pl [OF q]] .
  have ev: "\<forall>e \<in> set es. event_queue e \<noteq> p" if "p \<noteq> q" for p using es that by auto
  have "book B (es @ h) (cont s') p" if "p \<in> declared (cont s)" for p
    using bq that b book_frame [OF _ stored_other [OF o pl [OF q] pl [OF that]] ev]
    by (cases "p = q") (auto simp: books_def)
  moreover have "published_ids (es @ h) p = {#}" if "p \<notin> declared (cont s)" for p
    using that q b other_events [OF ev, of p h] by (auto simp: books_def)
  moreover have "from_client (es @ h) p msg" if "delivered (es @ h) (p, t) = Some msg" for p t msg
    using del that b other_events [OF ev, of p h] from_client_mono by (cases "p = q") (auto simp: books_def)
  ultimately show ?thesis unfolding books_def d by blast
qed

lemma books_same:
  assumes "books B h s" "cont s' = cont s" "\<And>p. published_ids (es @ h) p = published_ids h p \<and> acked_ids (es @ h) p = acked_ids h p"
    and "delivered (es @ h) = delivered h"
  shows "books B (es @ h) s'"
  using assms book_quiet [of B h "cont s" _ "cont s" es] from_client_mono [of h _ _ es] by (auto simp: books_def)

lemma subset_add_mset: "A \<subseteq># C \<Longrightarrow> A \<subseteq># add_mset x C"
  using subset_mset.order_trans [OF _ mset_subset_eq_add_right, of A C "{#x#}"] by simp

lemma booksD:
  assumes "books B h s"
  shows "q \<in> declared (cont s) \<Longrightarrow> book B h (cont s) q" "delivered h (q, t) = Some msg \<Longrightarrow> from_client h q msg"
  using assms by (auto simp: books_def)

lemma books_publish:
  assumes b: "books B h s" and wf: "wf_state B s" and sp: "publish_spec f B clk q msg s r s'"
    and B: "bincode_codec B"
  shows "books B (Published q msg (accepted r) # h) s'"
proof -
  let ?b = "projr (ser_message B msg)"
  let ?e = "Published q msg (accepted r)"
  obtain c where c: "ser_message B msg = Inr c" using bincode_codec.ser_message_total [OF B] by blast
  then have de: "de_message B ?b = Inr msg" using bincode_codec.message_roundtrip [OF B] by simp
  have new: "from_client (?e # h) q msg" by (auto simp: from_client_def)
  have put: "books B (?e # h) s'" if q: "q \<in> declared (cont s)" and o: "only q s s'"
    and st: "stored (cont s') q = add_mset ?b (stored (cont s) q)"
  proof -
    have "msg_ids B (cont s') q = add_mset (msg_id msg) (msg_ids B (cont s) q)" by (simp add: msg_ids_def st de)
    then have "book B ([?e] @ h) (cont s') q"
      using booksD(1) [OF b q] new from_client_mono [of h q _ "[?e]"]
      by (auto simp: book_def st de intro: subset_add_mset)
    from books_step [OF b wf q o _ this] booksD(2) [OF b] from_client_mono [of h _ _ "[?e]"] show ?thesis by auto
  qed
  show ?thesis
  proof (cases "accepted r")
    case True
    then obtain i where r: "r = Ok (Stored i)" by (cases r rule: accepted.cases) auto
    from sp [unfolded r] have q: "q \<in> declared (cont s)" by (auto simp: publish_spec_def Let_def)
    have "cont s' \<noteq> cont s"
    proof -
      from sp [unfolded r] obtain n' where n': "took_id f (next_id s) n'"
        "cont s' = dedup_store (enqueue (cont s) q msg (clk 1) (of_nat (next_id s)) ?b) q (policy_in B (cont s) q) msg (clk 2)"
        by (auto simp: publish_spec_def Let_def)
      have "stored (cont s') q = add_mset ?b (stored (cont s) q)"
        using enqueue_stored [OF wf q n'(1)] dedup_store_stored [OF wf_state_queue(1) [OF wf q]] n'(2) by simp
      then show ?thesis by auto
    qed
    with publish_effect [OF sp wf] put show ?thesis by blast
  next
    case False
    with publish_effect [OF sp wf] put books_same [OF b, of s' "[?e]"] show ?thesis by auto
  qed
qed

lemma books_consume:
  assumes b: "books B h s" and wf: "wf_state B s" and st: "sorted_state s" and sp: "consume_spec f B q s r s'"
  shows "books B (delivery q r @ h) s'"
proof -
  have ids: "published_ids (delivery q r @ h) p = published_ids h p \<and> acked_ids (delivery q r @ h) p = acked_ids h p" for p
    by (cases "(q, r)" rule: delivery.cases) auto
  have ev: "\<forall>e \<in> set (delivery q r). event_queue e = q" by (cases "(q, r)" rule: delivery.cases) auto
  have cl: "from_client h q msg" if "r = Ok (Some (t, msg))" for t msg
  proof -
    from sp that obtain k v rest where q: "q \<in> declared (cont s)" and "cont s q = (k, v) # rest" "de_message B v = Inr msg"
      by (auto simp: consume_spec_def)
    then have "v \<in># stored (cont s) q" "projr (de_message B v) = msg" by (auto simp: stored_def)
    then show ?thesis using booksD(1) [OF b q] by (auto simp: book_def)
  qed
  have del: "from_client (delivery q r @ h) p msg" if "delivered (delivery q r @ h) (p, t) = Some msg" for p t msg
    using that cl booksD(2) [OF b] from_client_mono [of h p msg "delivery q r"]
    by (cases "(q, r)" rule: delivery.cases) (auto split: if_splits)
  from consume_effect [OF sp wf st] consider (same) "cont s' = cont s"
    | (moved) "q \<in> declared (cont s)" "only q s s'" "stored (cont s') q = stored (cont s) q" by blast
  then show ?thesis
  proof cases
    case moved
    show ?thesis
      by (rule books_step [OF b wf moved(1,2) ev book_quiet [OF booksD(1) [OF b moved(1)] moved(3)]])
        (use ids del in auto)
  next
    case same
    have "book B (delivery q r @ h) (cont s') p" if "p \<in> declared (cont s)" for p
      by (rule book_quiet [OF booksD(1) [OF b that]]) (use same ids in simp_all)
    then show ?thesis using b del ids same by (auto simp: books_def)
  qed
qed

lemma books_ack:
  assumes b: "books B h s" and tr: "tags_ok B h s" and wf: "wf_state B s" and st: "sorted_state s" and sp: "ack_spec f q tag s r s'"
  shows "books B (on_success r (Acked q tag) @ h) s'"
proof (cases "r = Ok ()")
  case True
  note ag = ack_ages [OF sp wf]
  from ack_stored [OF sp [unfolded True] wf st] obtain v where o: "only q s s'"
    and v: "map_of (cont s (inflight_tree_name q)) (to_be_bytes (tag_u64 tag)) = Some v"
    and eq: "stored (cont s) q = add_mset v (stored (cont s') q)" by blast
  have q: "q \<in> declared (cont s)" using ag(2) [OF True] by simp
  note del = tags_settle(2) [OF tr ag(1) wf q v _ disjI1 [OF refl]]
  have "msg_ids B (cont s) q = add_mset (msg_id (projr (de_message B v))) (msg_ids B (cont s') q)"
    by (simp add: msg_ids_def eq)
  then have "book B ([Acked q tag] @ h) (cont s') q"
    using booksD(1) [OF b q] del ag(2) [OF True] from_client_mono [of h q _ "[Acked q tag]"] by (auto simp: book_def eq)
  from books_step [OF b wf q o _ this] booksD(2) [OF b] from_client_mono [of h _ _ "[Acked q tag]"] True show ?thesis
    by (auto simp: on_success_def)
next
  case False
  then have "s' = s" using sp by (cases r) (auto simp: ack_spec_def Let_def split: pelican_error.splits)
  with False b show ?thesis by (simp add: on_success_def)
qed

lemma books_nack:
  assumes b: "books B h s" and wf: "wf_state B s" and st: "sorted_state s" and sp: "nack_spec f B q tag s r s'"
    and B: "bincode_codec B"
  shows "books B (on_success r (Nacked q tag) @ h) s'"
proof -
  let ?es = "on_success r (Nacked q tag)"
  have ids: "published_ids (?es @ h) p = published_ids h p \<and> acked_ids (?es @ h) p = acked_ids h p"
    "delivered (?es @ h) = delivered h" "Swept p \<in> set (?es @ h) \<longleftrightarrow> Swept p \<in> set h" for p by (simp_all add: on_success_def)
  from nack_effect [OF sp wf st] consider (same) "cont s' = cont s"
    | (moved) v msg c where "q \<in> declared (cont s)" "only q s s'" "de_message B v = Inr msg" "ser_message B (bump msg) = Inr c"
      "add_mset v (stored (cont s') q) = add_mset c (stored (cont s) q)" by blast
  then show ?thesis
  proof cases
    case moved
    have de: "de_message B c = Inr (bump msg)" using bincode_codec.message_roundtrip [OF B moved(4)] .
    have eq: "msg_ids B (cont s') q = msg_ids B (cont s) q"
      using arg_cong [OF moved(5), of "image_mset (\<lambda>v. msg_id (projr (de_message B v)))"]
      by (simp add: msg_ids_def moved(3) de bump_def)
    have "v \<in># add_mset c (stored (cont s) q)" unfolding moved(5) [symmetric] by simp
    then have vin: "v = c \<or> v \<in># stored (cont s) q" by auto
    have "v \<in># stored (cont s) q"
    proof (cases "v = c")
      case True
      with moved(3) de have "msg = bump msg" by simp
      from arg_cong [OF this, of delivery_attempts] show ?thesis by (simp add: bump_def)
    qed (use vin in blast)
    then have "from_client h q (projr (de_message B v))"
      using booksD(1) [OF b moved(1)] by (simp add: book_def)
    then have "from_client h q (bump msg)" by (simp add: moved(3) from_client_def)
    moreover have "w = c \<or> w \<in># stored (cont s) q" if "w \<in># stored (cont s') q" for w
    proof -
      have "w \<in># add_mset c (stored (cont s) q)" unfolding moved(5) [symmetric] using that by simp
      then show ?thesis by auto
    qed
    ultimately have "book B (?es @ h) (cont s') q"
      using booksD(1) [OF b moved(1)] ids eq from_client_mono [of h q _ ?es] de by (fastforce simp: book_def)
    then show ?thesis
      by (rule books_step [OF b wf moved(1,2), rotated])
        (use ids booksD(2) [OF b] from_client_mono [of h _ _ ?es] in \<open>auto simp: on_success_def split: if_splits\<close>)
  qed (use books_same [OF b] ids in auto)
qed

lemma books_retention:
  assumes b: "books B h s" and wf: "wf_state B s" and sp: "retention_spec f B now q s r s'"
  shows "books B (Swept q # h) s'"
proof -
  let ?es = "[Swept q]"
  from retention_effect [OF sp wf] consider (same) "s' = s"
    | (moved) "q \<in> declared (cont s)" "only q s s'" "stored (cont s') q \<subseteq># stored (cont s) q" by blast
  then have "books B (?es @ h) s'"
  proof cases
    case moved
    have "book B (?es @ h) (cont s') q"
      using booksD(1) [OF b moved(1)] mset_subset_eqD [OF moved(3)] from_client_mono [of h q _ ?es] by (auto simp: book_def)
    then show ?thesis
      by (rule books_step [OF b wf moved(1,2), rotated]) (use booksD(2) [OF b] from_client_mono [of h _ _ ?es] in auto)
  qed (rule books_same [OF b], auto)
  then show ?thesis by simp
qed

lemma books_promote:
  assumes b: "books B h s" and wf: "wf_state B s" and st: "sorted_state s" and sp: "promote_spec f B now q s r s'"
  shows "books B (Promoted q # h) s'"
proof -
  let ?es = "[Promoted q]"
  from promote_effect [OF sp wf st] consider (same) "cont s' = cont s"
    | (moved) "q \<in> declared (cont s)" "only q s s'" "stored (cont s') q = stored (cont s) q" by blast
  then show ?thesis
  proof cases
    case moved
    have "book B (?es @ h) (cont s') q" by (rule book_quiet [OF booksD(1) [OF b moved(1)] moved(3)]) simp_all
    from books_step [OF b wf moved(1,2) _ this] booksD(2) [OF b] from_client_mono [of h _ _ ?es] show ?thesis by simp
  qed (use books_same [OF b, of s' ?es] in simp)
qed

text \<open>Nothing is lost and nothing added: the case of a declaration and of a restart.\<close>

lemma books_grow:
  assumes b: "books B h s" and d: "declared (cont s) \<subseteq> declared (cont s')"
    and lo: "\<And>p. p \<in> declared (cont s) \<Longrightarrow> stored (cont s) p \<subseteq># stored (cont s') p"
    and hi: "\<And>p. p \<in> declared (cont s') \<Longrightarrow> set_mset (stored (cont s') p) \<subseteq> set_mset (stored (cont s) p)"
    and new: "\<And>p. p \<in> declared (cont s') - declared (cont s) \<Longrightarrow> stored (cont s) p = {#}"
  shows "books B h s'"
proof -
  have "book B h (cont s') p" if p: "p \<in> declared (cont s')" for p
  proof (cases "p \<in> declared (cont s)")
    case True
    have "published_ids h p \<subseteq># msg_ids B (cont s') p + acked_ids h p"
      if "published_ids h p \<subseteq># msg_ids B (cont s) p + acked_ids h p"
      using that msg_ids_mono [OF lo [OF True], of B] by (meson subset_mset.add_right_mono subset_mset.order_trans)
    then show ?thesis using booksD(1) [OF b True] hi [OF p] by (auto simp: book_def)
  next
    case False
    then show ?thesis using b hi [OF p] new p by (auto simp: books_def book_def)
  qed
  then show ?thesis using b d by (auto simp: books_def)
qed

lemma books_declare:
  assumes b: "books B h s" and wf: "wf_state B s" and sp: "declare_spec f B q P s r s'" and q: "plain_name q"
  shows "books B h s'"
proof (rule books_grow [OF b])
  have fr: "\<forall>t. t \<noteq> META_QUEUES_TREE \<longrightarrow> t \<noteq> META_RETENTION_TREE \<longrightarrow> cont s' t = cont s t"
    and d: "declared (cont s) \<subseteq> declared (cont s')" "declared (cont s') \<subseteq> insert q (declared (cont s))"
    using sp by (cases r; auto simp: declare_spec_def Let_def declared_def simp del: set_map split: pelican_error.splits)+
  show "declared (cont s) \<subseteq> declared (cont s')" by (rule d)
  have same: "stored (cont s') p = stored (cont s) p" if "p \<in> declared (cont s')" for p
  proof -
    have "plain_name p" using that d(2) q wf_state_queue(1) [OF wf] by auto
    then show ?thesis using fr by (simp add: stored_def)
  qed
  show "stored (cont s) p \<subseteq># stored (cont s') p" if "p \<in> declared (cont s)" for p using that d same by auto
  show "set_mset (stored (cont s') p) \<subseteq> set_mset (stored (cont s) p)" if "p \<in> declared (cont s')" for p using same [OF that] by simp
  show "stored (cont s) p = {#}" if "p \<in> declared (cont s') - declared (cont s)" for p
    using that d(2) q wf by (auto simp: wf_state_def wf_store_def trees_def stored_def)
qed

section \<open>Restarts\<close>

lemma regains_trans: "regains s s1 \<Longrightarrow> regains s1 s' \<Longrightarrow> regains s s'"
  unfolding regains_def using ages_trans by (metis subset_trans)

lemma regains_same: "cont s' = cont s \<Longrightarrow> next_id s \<le> next_id s' \<Longrightarrow> regains s s'"
  by (simp add: regains_def ages_same)

lemma requeue_one_held:
  assumes "plain_name q" "plain_name p"
  shows "set_mset (stored (requeue_one B None q kv i V) p) \<subseteq> insert (snd kv) (set_mset (stored V p))"
    and "p \<noteq> q \<Longrightarrow> stored (requeue_one B None q kv i V) p = stored V p"
  using assms set_ot_insert_subset [of "encode_key (priority (projr (de_message B (snd kv)))) (of_nat i)" "snd kv" "V q"]
  by (auto simp: requeue_one_def stored_def Let_def)

lemma requeues_held:
  assumes "requeues f B None q xs s s'" "plain_name q" "plain_name p"
  shows "set_mset (stored (cont s') p) \<subseteq> (if p = q then set (vals xs) else {}) \<union> set_mset (stored (cont s) p)"
  using assms
proof (induction rule: requeues.induct)
  case (requeues_Cons s n' kv xs s')
  then show ?case using requeue_one_held [OF requeues_Cons.prems, of B kv "next_id s" "cont s"] by (cases "p = q") auto
qed simp

lemma requeue_fails_held:
  assumes "requeue_fails f B None q xs s e s'" "plain_name q" "plain_name p"
  shows "set_mset (stored (cont s') p) \<subseteq> (if p = q then set (vals xs) else {}) \<union> set_mset (stored (cont s) p)"
  using assms
proof (induction rule: requeue_fails.induct)
  case (fails_later s n' kv xs e s')
  then show ?case using requeue_one_held [OF fails_later.prems, of B kv "next_id s" "cont s"] by (cases "p = q") auto
qed simp_all

lemma requeues_scheduled:
  "requeues f B None q xs s s' \<Longrightarrow> plain_name q \<Longrightarrow> cont s' (scheduled_tree_name p) = cont s (scheduled_tree_name p)"
  by (induction rule: requeues.induct) (simp_all add: requeue_one_def Let_def)

lemma requeue_fails_scheduled:
  "requeue_fails f B None q xs s e s' \<Longrightarrow> plain_name q \<Longrightarrow> cont s' (scheduled_tree_name p) = cont s (scheduled_tree_name p)"
  by (induction rule: requeue_fails.induct) (simp_all add: requeue_one_def Let_def)

lemma recover_queue_regains:
  assumes sp: "recover_queue_spec f B q s r s'" and q: "plain_name q"
  shows "regains s s'"
proof -
  from sp obtain es where es: "subseq es (cont s (inflight_tree_name q))"
    and r: "case r of
           Ok _ \<Rightarrow> (\<not> f \<longrightarrow> es = cont s (inflight_tree_name q)) \<and> recovered f B q es (keys es) s s'
         | Err e \<Rightarrow> requeue_fails f B None q es s e s' \<or>
             f \<and> (\<exists>x. e = Storage x) \<and> (\<exists>ks. set ks \<subseteq> set (keys es) \<and> recovered f B q es ks s s')
         | _ \<Rightarrow> False" unfolding recover_queue_spec_def by blast
  have vals: "(if p = q then set (vals es) else {}) \<union> set_mset (stored (cont s) p) \<subseteq> set_mset (stored (cont s) p)" for p
    using subseq_subset [OF es] by (auto simp: stored_def)
  have rec: "set_mset (stored (cont s') p) \<subseteq> set_mset (stored (cont s) p)" if "recovered f B q es ks s s'" "plain_name p" for ks p
  proof -
    from that(1) obtain s1 where r: "requeues f B None q es s s1"
      and s': "s' = s1\<lparr>cont := (cont s1)(inflight_tree_name q := without ks (cont s1 (inflight_tree_name q)))\<rparr>"
      by (auto simp: recovered_def)
    have "set_mset (stored (cont s') p) \<subseteq> set_mset (stored (cont s1) p)"
      using that(2) by (auto simp: s' stored_def without_def split: if_splits)
    then show ?thesis using requeues_held [OF r q that(2)] vals [of p] by (rule subset_trans [OF subset_trans])
  qed
  have fail: "set_mset (stored (cont s') p) \<subseteq> set_mset (stored (cont s) p)"
    if "requeue_fails f B None q es s e s'" "plain_name p" for e p
    using requeue_fails_held [OF that(1) q that(2)] vals [of p] by (rule subset_trans)
  have "cont s' (scheduled_tree_name p) = cont s (scheduled_tree_name p)" if "recovered f B q es ks s s'" for ks p
    using that requeues_scheduled [OF _ q, of f B es s _ p] by (auto simp: recovered_def)
  with r requeue_fails_scheduled [OF _ q] have "\<forall>p. cont s' (scheduled_tree_name p) = cont s (scheduled_tree_name p)"
    by (cases r) (simp_all, blast+)
  then show ?thesis
    unfolding regains_def using recover_queue_ages [OF sp q] r rec fail by (cases r) (simp_all, blast+)
qed

context engine
begin

lemma recover_inflight_regains:
  assumes wf: "wf_state B (abs m)"
  shows "wp (recover_inflight S B) (\<lambda>r m'. regains (abs m) (abs m')) m"
proof -
  let ?I = "\<lambda>names m'. (\<forall>q \<in> set names. plain_name q) \<and> regains (abs m) (abs m')"
  have "wp (for_each (recover_queue S B) names) (\<lambda>r m'. regains (abs m) (abs m')) m"
    if "\<forall>q \<in> set names. plain_name q" for names
  proof (rule wp_for_each [where I = ?I])
    fix q names m1 assume I: "?I (q # names) m1"
    show "wp (recover_queue S B q) (on_ok (\<lambda>_. ?I names) (\<lambda>r m'. regains (abs m) (abs m'))) m1"
    proof (rule wp_mono [OF recover_queue_refines], goal_cases)
      case (1 r m2)
      with I have "regains (abs m) (abs m2)" using recover_queue_regains regains_trans by (meson list.set_intros(1))
      with I show ?case by (cases r) simp_all
    qed
  qed (use that regains_same in auto)
  moreover have "\<forall>q \<in> set names. plain_name q" if "set names \<subseteq> declared (cont (abs m))" for names
    using that wf_state_queue(1) [OF wf] by auto
  ultimately show ?thesis
    unfolding recover_inflight_def wp_bnd
    by (intro wp_mono [OF list_queues_wp]) (auto split: outcome.splits)
qed

lemma open_manager_regains:
  assumes op: "open_manager S B (Inr (mgr_db m)) mx = (r, Some m')" and wf: "wf_state B (abs m)"
  shows "regains (abs m) (abs m')"
proof -
  let ?m = "\<lparr>mgr_db = mgr_db m, current_bytes = 0, max_bytes = mx\<rparr>"
  let ?Q = "\<lambda>r m'. regains (abs m) (abs m')"
  let ?c = "bnd (q_open_tree S META_QUEUES_TREE) (\<lambda>_.
             bnd (q_open_tree S META_RETENTION_TREE) (\<lambda>_.
             bnd (recalculate_bytes S) (\<lambda>tot.
             bnd (modify (\<lambda>m. m\<lparr>current_bytes := tot\<rparr>)) (\<lambda>_.
             recover_inflight S B))))"
  have run: "?c ?m = (r, m')" using op by (auto simp: open_manager_def split: prod.splits)
  have rec: "wp (recover_inflight S B) ?Q m1"
    if "cont (abs m1) = cont (abs m)" "next_id (abs m1) = next_id (abs m)" for m1
    by (rule wp_mono [OF recover_inflight_regains [of m1]])
      (use that wf in \<open>auto simp: wf_state_def regains_def ages_def\<close>)
  have recalc: "wp (bnd (recalculate_bytes S) (\<lambda>tot. bnd (modify (\<lambda>m. m\<lparr>current_bytes := tot\<rparr>)) (\<lambda>_.
      recover_inflight S B))) ?Q m2"
    if "cont (abs m2) = cont (abs m)" "next_id (abs m2) = next_id (abs m)" for m2
    unfolding wp_bnd [of "recalculate_bytes S"]
  proof (rule wp_mono [OF recalculate_refines], goal_cases)
    case (1 x m3)
    then show ?case
      using that by (cases x) (auto simp: recalculate_spec_def wp_simps abs_state_eq intro!: rec regains_same)
  qed
  have "wp ?c ?Q ?m"
    unfolding wp_bnd [of "on_db c" for c] wp_on_db
    by (auto intro!: wp_open_tree recalc regains_same)
  from wpD [OF this run] show ?thesis .
qed

lemma tracks_restart:
  assumes tr: "tracks B h (abs m)" and op: "open_manager S B (Inr (mgr_db m)) mx = (r, Some m')"
  shows "tracks B h (abs m')"
proof -
  have wf: "wf_state B (abs m)" using tr by (simp add: tracks_def)
  note k = open_manager_kept [OF op wf] and g = open_manager_regains [OF op wf]
  have "books B h (abs m')"
  proof (rule books_grow)
    show "books B h (abs m)" using tr by (simp add: tracks_def)
    show "set_mset (stored (cont (abs m')) p) \<subseteq> set_mset (stored (cont (abs m)) p)" if "p \<in> declared (cont (abs m'))" for p
      using g k wf_state_queue(1) [of B "abs m'" p] that by (auto simp: regains_def keeps_def)
  qed (use k in \<open>auto simp: keeps_def\<close>)
  then show ?thesis using tr k tags_ages g by (auto simp: tracks_def keeps_def regains_def)
qed

section \<open>Every history is tracked\<close>

lemma query_same_abs: "wp (query_prog S c) (\<lambda>r m'. abs m' = abs m) m"
  by (cases c) (auto simp: wp_discard intro!: on_ok_const [where P = "\<lambda>m'. abs m' = abs m"]
      wp_mono [OF count_refines(1)] wp_mono [OF count_refines(2)] wp_mono [OF count_refines(3)] wp_mono [OF list_queues_wp]
      dest: query_same)

lemma run_tracks:
  assumes "run S B m h m'" "tracks B h0 (abs m)"
  shows "tracks B (h @ h0) (abs m')"
  using assms
proof (induction rule: run.induct)
  case (run_publish m h m1 clk q msg r m')
  then have tr: "wf_state B (abs m1)" "tags_ok B (h @ h0) (abs m1)" "books B (h @ h0) (abs m1)" by (simp_all add: tracks_def)
  note sp = wpD [OF publish_refines run_publish.hyps(3)]
  show ?case
    using books_publish [OF tr(3,1) sp bincode_codec_axioms] tags_ages [OF tr(2) publish_ages [OF sp tr(1)]]
      publish_wf [OF bincode_codec_axioms sp tr(1) run_publish.hyps(2)]
    by (simp add: tracks_def tags_ok_def)
next
  case (run_consume m h m1 q r m')
  then have tr: "wf_state B (abs m1)" "tags_ok B (h @ h0) (abs m1)" "books B (h @ h0) (abs m1)" by (simp_all add: tracks_def)
  note sp = wpD [OF consume_refines run_consume.hyps(2)]
  show ?case
    using books_consume [OF tr(3,1) sorted_abs sp] tags_consume [OF tr(2) sp tr(1)] consume_wf [OF sp tr(1)]
    by (simp add: tracks_def)
next
  case (run_ack m h m1 q t r m')
  then have tr: "wf_state B (abs m1)" "tags_ok B (h @ h0) (abs m1)" "books B (h @ h0) (abs m1)" by (simp_all add: tracks_def)
  note sp = wpD [OF ack_refines run_ack.hyps(2)]
  note ag = ack_ages [OF sp tr(1)]
  have "tags_ok B (on_success r (Acked q t) @ h @ h0) (abs m')"
    using tags_ages [OF tr(2) ag(1)] ag(2) tags_settle(1) [OF tr(2) ag(1) tr(1)] by (auto simp: on_success_def)
  then show ?case
    using books_ack [OF tr(3,2,1) sorted_abs sp] ack_wf [OF sp tr(1)] by (simp add: tracks_def)
next
  case (run_nack m h m1 q t r m')
  then have tr: "wf_state B (abs m1)" "tags_ok B (h @ h0) (abs m1)" "books B (h @ h0) (abs m1)" by (simp_all add: tracks_def)
  note sp = wpD [OF nack_refines run_nack.hyps(2)]
  note ag = nack_ages [OF sp tr(1)]
  have "tags_ok B (on_success r (Nacked q t) @ h @ h0) (abs m')"
    using tags_ages [OF tr(2) ag(1)] ag(2) tags_settle(1) [OF tr(2) ag(1) tr(1)] by (auto simp: on_success_def)
  then show ?case
    using books_nack [OF tr(3,1) sorted_abs sp bincode_codec_axioms] nack_wf [OF bincode_codec_axioms sp tr(1)] by (simp add: tracks_def)
next
  case (run_retain m h m1 now q r m')
  then have tr: "wf_state B (abs m1)" "tags_ok B (h @ h0) (abs m1)" "books B (h @ h0) (abs m1)" by (simp_all add: tracks_def)
  note sp = wpD [OF retention_refines run_retain.hyps(2)]
  show ?case
    using books_retention [OF tr(3,1) sp] tags_ages [OF tr(2) retention_ages [OF sp tr(1)]] retention_wf [OF sp tr(1)]
    by (simp add: tracks_def tags_ok_def)
next
  case (run_promote m h m1 now q r m')
  then have tr: "wf_state B (abs m1)" "tags_ok B (h @ h0) (abs m1)" "books B (h @ h0) (abs m1)" by (simp_all add: tracks_def)
  note sp = wpD [OF promote_refines run_promote.hyps(2)]
  show ?case
    using books_promote [OF tr(3,1) sorted_abs sp] tags_ages [OF tr(2) promote_ages [OF sp tr(1)]] promote_wf [OF sp tr(1)]
    by (simp add: tracks_def tags_ok_def)
next
  case (run_declare m h m1 q P r m')
  then have tr: "wf_state B (abs m1)" "tags_ok B (h @ h0) (abs m1)" "books B (h @ h0) (abs m1)" by (simp_all add: tracks_def)
  note sp = wpD [OF declare_refines run_declare.hyps(4)]
  show ?case
    using books_declare [OF tr(3,1) sp run_declare.hyps(2)] tags_ages [OF tr(2) declare_ages [OF sp]]
      declare_wf [OF sp tr(1) run_declare.hyps(2,3)]
    by (simp add: tracks_def)
next
  case (run_query m h m1 c r m')
  then show ?case using wpD [OF query_same_abs run_query.hyps(2)] by simp
qed simp

lemma history_tracks: "history S B view h m \<Longrightarrow> tracks B h (abs m)"
proof (induction rule: history.induct)
  case (history_fresh m)
  then show ?case by (simp add: tracks_def tags_ok_def books_def wf_state_def wf_fresh_store declared_def)
qed (simp_all add: run_tracks tracks_restart)

end

lemma acked_delivered:
  assumes "lawful h" "i \<in># acked_ids h q"
  shows "\<exists>t msg. Acked q t \<in> set h \<and> delivered h (q, t) = Some msg \<and> msg_id msg = i"
  using assms
proof (induction h rule: lawful.induct)
  case (2 p t msg h)
  then show ?case by (auto simp: dom_def)
next
  case (3 p t h)
  then show ?case by (auto split: if_splits)
qed auto

lemma published_id: "Published q msg True \<in> set h \<Longrightarrow> msg_id msg \<in># published_ids h q"
  by (induction h q rule: published_ids.induct) auto

lemma run_trans: "run S B m1 h' m' \<Longrightarrow> run S B m h m1 \<Longrightarrow> run S B m (h' @ h) m'"
  by (induction rule: run.induct) (auto intro: run.intros)

section \<open>Delayed messages\<close>

lemma publish_delayed:
  assumes sp: "publish_spec f B clk q msg s r s'" and wf: "wf_state B s" and p: "plain_name p"
  shows "stays_delayed p s s'"
proof -
  let ?b = "projr (ser_message B msg)"
  let ?V1 = "enqueue (cont s) q msg (clk 1) (of_nat (next_id s)) ?b"
  consider (same) "cont s' = cont s"
    | (put) n' where "q \<in> declared (cont s)" "took_id f (next_id s) n'"
      "cont s' = ?V1 \<or> cont s' = dedup_store ?V1 q (policy_in B (cont s) q) msg (clk 2)"
    using sp by (cases r) (auto simp: publish_spec_def Let_def split: publish_outcome.splits pelican_error.splits)
  then show ?thesis
  proof cases
    case put
    note pl = wf_state_queue(1) [OF wf put(1)] and fresh = wf_fresh(3) [OF wf put(1,2)]
    have "cont s' (scheduled_tree_name p) = ?V1 (scheduled_tree_name p)"
      using put(3) by (auto simp: dedup_store_def split: option.splits)
    moreover have "set (cont s (scheduled_tree_name p)) \<subseteq> set (?V1 (scheduled_tree_name p))"
    proof (cases "due_later msg (clk 1)")
      case (Some at)
      then show ?thesis
        using set_ot_insert_fresh [OF fresh, of at ?b] by (cases "p = q") (auto simp: enqueue_def)
    qed (use pl in \<open>simp add: enqueue_def\<close>)
    ultimately show ?thesis by (simp add: stays_delayed_def)
  qed (simp add: stays_delayed_def)
qed

lemma others_delayed:
  assumes wf: "wf_state B s"
  shows "consume_spec f B q s r1 s' \<Longrightarrow> stays_delayed p s s'"
    and "ack_spec f q tag s r2 s' \<Longrightarrow> stays_delayed p s s'"
    and "nack_spec f B q tag s r2 s' \<Longrightarrow> stays_delayed p s s'"
    and "declare_spec f B q P s r2 s' \<Longrightarrow> stays_delayed p s s'"
proof -
  note pl = wf_state_queue(1) [OF wf]
  show "consume_spec f B q s r1 s' \<Longrightarrow> stays_delayed p s s'"
    using pl by (cases r1) (auto simp: consume_spec_def stays_delayed_def took_head_def split: option.splits pelican_error.splits)
  show "ack_spec f q tag s r2 s' \<Longrightarrow> stays_delayed p s s'"
    by (cases r2) (auto simp: ack_spec_def stays_delayed_def Let_def split: pelican_error.splits)
  show "nack_spec f B q tag s r2 s' \<Longrightarrow> stays_delayed p s s'"
    using pl by (cases r2) (auto simp: nack_spec_def stays_delayed_def Let_def put_back_def reject_tree_def split: pelican_error.splits)
  show "declare_spec f B q P s r2 s' \<Longrightarrow> stays_delayed p s s'"
    by (cases r2) (auto simp: declare_spec_def stays_delayed_def Let_def split: pelican_error.splits)
qed

lemma retention_delayed:
  assumes sp: "retention_spec f B now q s r s'" and wf: "wf_state B s"
  shows "stays_delayed p s s'"
proof -
  have "stays_delayed p s s'" if "cont s' = (cont s)(q := ys)" "q \<in> declared (cont s)" for ys
    using that wf_state_queue(1) [OF wf that(2)] by (simp add: stays_delayed_def)
  moreover have "cont s' = (cont s)(q := cont s' q)" if "s' = s\<lparr>cont := (cont s)(q := cont s' q)\<rparr>"
    using arg_cong [OF that, of cont] by simp
  ultimately show ?thesis
    using sp by (cases r) (auto simp: retention_spec_def Let_def stays_delayed_def [of p s s] split: pelican_error.splits)
qed

context engine
begin

lemma run_delayed:
  assumes "run S B m h m'" "wf_state B (abs m)" "Promoted p \<notin> set h" "plain_name p"
  shows "wf_state B (abs m') \<and> stays_delayed p (abs m) (abs m')"
  using assms
proof (induction rule: run.induct)
  case (run_start m)
  then show ?case by (simp add: stays_delayed_def)
next
  case (run_publish m h m1 clk q msg r m')
  then have IH: "wf_state B (abs m1)" "stays_delayed p (abs m) (abs m1)" by simp_all
  note sp = wpD [OF publish_refines run_publish.hyps(3)]
  show ?case
    using IH(2) publish_delayed [OF sp IH(1) assms(4)] publish_wf [OF bincode_codec_axioms sp IH(1) run_publish.hyps(2)]
    by (auto simp: stays_delayed_def)
next
  case (run_consume m h m1 q r m')
  then have IH: "wf_state B (abs m1)" "stays_delayed p (abs m) (abs m1)" by simp_all
  note sp = wpD [OF consume_refines run_consume.hyps(2)]
  show ?case using IH(2) others_delayed(1) [OF IH(1) sp, of p] consume_wf [OF sp IH(1)] by (auto simp: stays_delayed_def)
next
  case (run_ack m h m1 q t r m')
  then have IH: "wf_state B (abs m1)" "stays_delayed p (abs m) (abs m1)" by simp_all
  note sp = wpD [OF ack_refines run_ack.hyps(2)]
  show ?case using IH(2) others_delayed(2) [OF IH(1) sp, of p] ack_wf [OF sp IH(1)] by (auto simp: stays_delayed_def)
next
  case (run_nack m h m1 q t r m')
  then have IH: "wf_state B (abs m1)" "stays_delayed p (abs m) (abs m1)" by simp_all
  note sp = wpD [OF nack_refines run_nack.hyps(2)]
  show ?case
    using IH(2) others_delayed(3) [OF IH(1) sp, of p] nack_wf [OF bincode_codec_axioms sp IH(1)] by (auto simp: stays_delayed_def)
next
  case (run_retain m h m1 now q r m')
  then have IH: "wf_state B (abs m1)" "stays_delayed p (abs m) (abs m1)" by simp_all
  note sp = wpD [OF retention_refines run_retain.hyps(2)]
  show ?case using IH(2) retention_delayed [OF sp IH(1), of p] retention_wf [OF sp IH(1)] by (auto simp: stays_delayed_def)
next
  case (run_promote m h m1 now q r m')
  then have IH: "wf_state B (abs m1)" "stays_delayed p (abs m) (abs m1)" "p \<noteq> q" by simp_all
  note sp = wpD [OF promote_refines run_promote.hyps(2)]
  have "stays_delayed p (abs m1) (abs m')"
    using promote_effect [OF sp IH(1) sorted_abs] only_trees [of q "abs m1" "abs m'" p "scheduled_tree_name p"]
      wf_state_queue(1) [OF IH(1), of q] IH(3) assms(4) by (auto simp: stays_delayed_def trees_def)
  then show ?case using IH(2) promote_wf [OF sp IH(1)] by (auto simp: stays_delayed_def)
next
  case (run_declare m h m1 q P r m')
  then have IH: "wf_state B (abs m1)" "stays_delayed p (abs m) (abs m1)" by simp_all
  note sp = wpD [OF declare_refines run_declare.hyps(4)]
  show ?case
    using IH(2) others_delayed(4) [OF IH(1) sp, of p] declare_wf [OF sp IH(1) run_declare.hyps(2,3)] by (auto simp: stays_delayed_def)
next
  case (run_query m h m1 c r m')
  then show ?case using wpD [OF query_same_abs run_query.hyps(2)] by simp
qed

end

end
