(* ===== verification/Queue_Guarantees.thy ===== *)
theory Queue_Guarantees
  imports Queue_Ledger Mem_Store
begin

text \<open>
  What the queue engine \<^verbatim>\<open>pelicanq-core/src/queue.rs\<close> guarantees to its clients over a whole history:
  any sequence of calls from an empty database, with I/O failures at any point and restarts
  after them (\<^verbatim>\<open>Queue_History\<close>, \<^verbatim>\<open>Queue_Ledger\<close>).  The witnesses run on the in-memory instance of \<^verbatim>\<open>Mem_Store\<close>.
\<close>

definition demo_history :: "event list" where
  "demo_history =
     [Acked ''q'' (DeliveryTag 0), Delivered ''q'' (DeliveryTag 0) demo_msg,
      Published ''q'' demo_later True, Published ''q'' demo_msg True]"

definition demo_acked :: "mem_db manager" where
  "demo_acked = snd (ack mem_sled ''q'' (DeliveryTag 0) demo_consumed)"

lemma demo_acks: "ack mem_sled ''q'' (DeliveryTag 0) demo_consumed = (Ok (), demo_acked)"
proof -
  have "fst (ack mem_sled ''q'' (DeliveryTag 0) demo_consumed) = Ok ()" by code_simp
  then show ?thesis by (simp only: prod_eq_iff fst_conv snd_conv demo_acked_def)
qed

lemma demo_history_ok: "history mem_sled ref_bincode mem_view demo_history demo_acked"
proof -
  have q: "plain_name ''q''" "utf8_ok ''q''" by code_simp+
  have "run mem_sled ref_bincode (mem_start (Some 1000)) demo_history demo_acked"
    using run_ack [OF run_consume [OF run_publish [OF run_publish [OF run_declare [OF run_start q demo_declares]
      demo_clock demo_publishes] demo_clock demo_delays] demo_consumes] demo_acks]
    by (simp add: demo_history_def on_success_def)
  note r = this
  have e: "\<forall>t. mem_view (mgr_db (mem_start (Some 1000))) t = []"
    by (simp add: mem_start_def mem_empty_def mem_view_def)
  show ?thesis by (rule history_run [OF history_fresh [where view = mem_view and m = "mem_start (Some 1000)", OF e] r, unfolded append_Nil2])
qed





text \<open>
  C4. Nothing is invented.  Every message \<^verbatim>\<open>consume\<close> ever hands out for a queue was given to \<^verbatim>\<open>publish\<close>
  for that same queue before, unchanged in all fields but the number of delivery attempts.
\<close>

theorem deliveries_authentic:
  assumes "engine S view nxt f B" "history S B view h m" "delivered h (q, t) = Some msg"
  shows "\<exists>msg0 ok. Published q msg0 ok \<in> set h \<and> msg\<lparr>delivery_attempts := 0\<rparr> = msg0\<lparr>delivery_attempts := 0\<rparr>"
proof -
  have "from_client h q msg"
    using engine.history_tracks [OF assms(1,2)] assms(3) unfolding tracks_def books_def by blast
  then show ?thesis unfolding from_client_def same_message_def .
qed

theorem deliveries_authentic_witness:
  "\<exists>msg0 ok. Published ''q'' msg0 ok \<in> set demo_history \<and> demo_msg\<lparr>delivery_attempts := 0\<rparr> = msg0\<lparr>delivery_attempts := 0\<rparr>"
  by (rule deliveries_authentic [OF mem.engine_axioms demo_history_ok, of "''q''" "DeliveryTag 0"]) (simp add: demo_history_def)

end
