(* ===== verification/Snapshot.thy ===== *)
theory Snapshot
  imports Queue_Behaviour
begin

text \<open>
  \<^verbatim>\<open>pelicanq-core/src/snapshot.rs\<close>: the export of all queues into a \<^verbatim>\<open>QueueManagerSnapshot\<close> and its
  restoration into a database.  A \<^verbatim>\<open>BTreeMap\<close> is a strictly sorted association list; \<open>clk i\<close> is the
  clock reading for the \<open>i\<close>-th scheduled message of a queue, which the code takes only when the message has no
  \<^verbatim>\<open>deliver_at\<close>.
\<close>

section \<open>Snapshots\<close>

record queue_snapshot =
  qs_policy :: retention_policy
  qs_messages :: "message list"
  qs_scheduled :: "message list"
  qs_inflight :: "(u64 \<times> message) list"
  qs_dead_letter :: "message list"

type_synonym manager_snapshot = "(string \<times> queue_snapshot) list"

section \<open>Export\<close>

fun decode_entries :: "bincode \<Rightarrow> (string + bytes \<times> bytes) list \<Rightarrow> ('db, message list) mprog" where
  "decode_entries B [] = ret []"
| "decode_entries B (Inl e # es) = throw (Storage e)"
| "decode_entries B (Inr (_, value) # es) =
     (case de_message B value of
        Inl e \<Rightarrow> throw (Serialization e)
      | Inr msg \<Rightarrow> bnd (decode_entries B es) (\<lambda>msgs. ret (msg # msgs)))"

fun decode_inflight :: "bincode \<Rightarrow> (string + bytes \<times> bytes) list \<Rightarrow> ('db, (u64 \<times> message) list) mprog" where
  "decode_inflight B [] = ret []"
| "decode_inflight B (Inl e # es) = throw (Storage e)"
| "decode_inflight B (Inr (key, value) # es) =
     (if length key < 8 then panic
      else
        (case de_message B value of
           Inl e \<Rightarrow> throw (Serialization e)
         | Inr msg \<Rightarrow>
             bnd (decode_inflight B es) (\<lambda>rest. ret ((from_be_bytes (take 8 key), msg) # rest))))"

definition export_tree :: "'db sled \<Rightarrow> bincode \<Rightarrow> bytes \<Rightarrow> ('db, message list) mprog" where
  "export_tree S B t = bnd (q_open_tree S t) (\<lambda>_. bnd (q_iter S t) (decode_entries B))"

definition export_inflight :: "'db sled \<Rightarrow> bincode \<Rightarrow> bytes \<Rightarrow> ('db, (u64 \<times> message) list) mprog" where
  "export_inflight S B t = bnd (q_open_tree S t) (\<lambda>_. bnd (q_iter S t) (decode_inflight B))"

definition export_queue :: "'db sled \<Rightarrow> bincode \<Rightarrow> string \<Rightarrow> ('db, queue_snapshot) mprog" where
  "export_queue S B name =
     bnd (read_policy S B name) (\<lambda>policy.
     bnd (export_tree S B name) (\<lambda>messages.
     bnd (export_tree S B (scheduled_tree_name name)) (\<lambda>scheduled.
     bnd (export_inflight S B (inflight_tree_name name)) (\<lambda>inflight.
     bnd (export_tree S B (dlq_tree_name name)) (\<lambda>dead_letter.
     ret \<lparr>qs_policy = policy, qs_messages = messages, qs_scheduled = scheduled, qs_inflight = inflight,
          qs_dead_letter = dead_letter\<rparr>)))))"

fun export_queues :: "'db sled \<Rightarrow> bincode \<Rightarrow> string list \<Rightarrow> manager_snapshot \<Rightarrow> ('db, manager_snapshot) mprog"
  where
  "export_queues S B [] queues = ret queues"
| "export_queues S B (name # names) queues =
     bnd (export_queue S B name) (\<lambda>qs. export_queues S B names (ot_insert name qs queues))"

definition export_snapshot :: "'db sled \<Rightarrow> bincode \<Rightarrow> ('db, manager_snapshot) mprog" where
  "export_snapshot S B = bnd (list_queues S) (\<lambda>names. export_queues S B names [])"

section \<open>Restore\<close>

fun restore_messages :: "'db sled \<Rightarrow> bincode \<Rightarrow> bytes \<Rightarrow> message list \<Rightarrow> ('db, unit) mprog" where
  "restore_messages S B t [] = ret ()"
| "restore_messages S B t (msg # msgs) =
     (case ser_message B msg of
        Inl e \<Rightarrow> throw (Serialization e)
      | Inr value \<Rightarrow>
          bnd (q_generate_id S) (\<lambda>i.
          bnd (q_insert S t (encode_key (priority msg) i) value) (\<lambda>_.
          restore_messages S B t msgs)))"

fun restore_scheduled :: "'db sled \<Rightarrow> bincode \<Rightarrow> (nat \<Rightarrow> i64) \<Rightarrow> bytes \<Rightarrow> nat \<Rightarrow> message list \<Rightarrow> ('db, unit) mprog" where
  "restore_scheduled S B clk t n [] = ret ()"
| "restore_scheduled S B clk t n (msg # msgs) =
     (case ser_message B msg of
        Inl e \<Rightarrow> throw (Serialization e)
      | Inr value \<Rightarrow>
          bnd (q_generate_id S) (\<lambda>i.
          let at = (case deliver_at msg of None \<Rightarrow> clk n | Some at \<Rightarrow> at) in
          bnd (q_insert S t (encode_scheduled_key at i) value) (\<lambda>_.
          restore_scheduled S B clk t (Suc n) msgs)))"

fun restore_inflight :: "'db sled \<Rightarrow> bincode \<Rightarrow> bytes \<Rightarrow> (u64 \<times> message) list \<Rightarrow> ('db, unit) mprog" where
  "restore_inflight S B t [] = ret ()"
| "restore_inflight S B t ((tag, msg) # rest) =
     (case ser_message B msg of
        Inl e \<Rightarrow> throw (Serialization e)
      | Inr value \<Rightarrow> bnd (q_insert S t (to_be_bytes tag) value) (\<lambda>_. restore_inflight S B t rest))"

definition restore_queue :: "'db sled \<Rightarrow> bincode \<Rightarrow> (nat \<Rightarrow> i64) \<Rightarrow> string \<Rightarrow> queue_snapshot \<Rightarrow> ('db, unit) mprog"
  where
  "restore_queue S B clk name qs =
     bnd (q_insert S META_QUEUES_TREE name []) (\<lambda>_.
     case ser_policy B (qs_policy qs) of
       Inl e \<Rightarrow> throw (Serialization e)
     | Inr policy_bytes \<Rightarrow>
         bnd (q_insert S META_RETENTION_TREE name policy_bytes) (\<lambda>_.
         bnd (q_open_tree S name) (\<lambda>_.
         bnd (q_open_tree S (inflight_tree_name name)) (\<lambda>_.
         bnd (q_open_tree S (dlq_tree_name name)) (\<lambda>_.
         bnd (q_open_tree S (scheduled_tree_name name)) (\<lambda>_.
         bnd (q_open_tree S (dedup_tree_name name)) (\<lambda>_.
         bnd (q_open_tree S name) (\<lambda>_.
         bnd (restore_messages S B name (qs_messages qs)) (\<lambda>_.
         bnd (q_open_tree S (scheduled_tree_name name)) (\<lambda>_.
         bnd (restore_scheduled S B clk (scheduled_tree_name name) 0 (qs_scheduled qs)) (\<lambda>_.
         bnd (q_open_tree S (inflight_tree_name name)) (\<lambda>_.
         bnd (restore_inflight S B (inflight_tree_name name) (qs_inflight qs)) (\<lambda>_.
         bnd (q_open_tree S (dlq_tree_name name)) (\<lambda>_.
         restore_messages S B (dlq_tree_name name) (qs_dead_letter qs)))))))))))))))"

definition restore_from_snapshot ::
    "'db sled \<Rightarrow> bincode \<Rightarrow> (nat \<Rightarrow> i64) \<Rightarrow> manager_snapshot \<Rightarrow> ('db, unit) mprog" where
  "restore_from_snapshot S B clk snapshot =
     bnd (for_each (\<lambda>(name, qs). restore_queue S B clk name qs) snapshot) (\<lambda>_.
     bnd (recalculate_bytes S) (\<lambda>tot.
     modify (\<lambda>m. m\<lparr>current_bytes := tot\<rparr>)))"

section \<open>Abstract snapshots\<close>

definition tagged :: "bincode \<Rightarrow> otree \<Rightarrow> (u64 \<times> message) list" where
  "tagged B xs = map (\<lambda>kv. (from_be_bytes (take 8 (fst kv)), projr (de_message B (snd kv)))) xs"

definition queue_snapshot_of :: "bincode \<Rightarrow> contents \<Rightarrow> string \<Rightarrow> queue_snapshot" where
  "queue_snapshot_of B V q =
     \<lparr>qs_policy = policy_in B V q, qs_messages = decoded B (V q), qs_scheduled = decoded B (V (scheduled_tree_name q)),
      qs_inflight = tagged B (V (inflight_tree_name q)), qs_dead_letter = decoded B (V (dlq_tree_name q))\<rparr>"

definition snapshot_of :: "bincode \<Rightarrow> contents \<Rightarrow> manager_snapshot" where
  "snapshot_of B V = map (\<lambda>q. (q, queue_snapshot_of B V q)) (queue_names V)"

definition snapshot_ids :: "manager_snapshot \<Rightarrow> nat" where
  "snapshot_ids snap = sum_list (map (\<lambda>(_, qs). length (qs_messages qs) + length (qs_scheduled qs) + length (qs_dead_letter qs)) snap)"

text \<open>The effect of the three loops of the restore on a healthy database.\<close>

definition fill_one :: "bytes \<Rightarrow> bytes \<Rightarrow> bytes \<Rightarrow> qstate \<Rightarrow> qstate" where
  "fill_one t k v s = s\<lparr>cont := (cont s)(t := ot_insert k v (cont s t))\<rparr>"

fun fill_main :: "bincode \<Rightarrow> bytes \<Rightarrow> message list \<Rightarrow> qstate \<Rightarrow> qstate" where
  "fill_main B t [] s = s"
| "fill_main B t (msg # msgs) s =
     fill_main B t msgs (fill_one t (encode_key (priority msg) (of_nat (next_id s))) (projr (ser_message B msg)) s
       \<lparr>next_id := Suc (next_id s)\<rparr>)"

fun fill_scheduled :: "bincode \<Rightarrow> (nat \<Rightarrow> i64) \<Rightarrow> bytes \<Rightarrow> nat \<Rightarrow> message list \<Rightarrow> qstate \<Rightarrow> qstate" where
  "fill_scheduled B clk t n [] s = s"
| "fill_scheduled B clk t n (msg # msgs) s =
     fill_scheduled B clk t (Suc n) msgs
       (fill_one t (encode_scheduled_key (case deliver_at msg of None \<Rightarrow> clk n | Some at \<Rightarrow> at) (of_nat (next_id s)))
          (projr (ser_message B msg)) s\<lparr>next_id := Suc (next_id s)\<rparr>)"

fun fill_inflight :: "bincode \<Rightarrow> bytes \<Rightarrow> (u64 \<times> message) list \<Rightarrow> qstate \<Rightarrow> qstate" where
  "fill_inflight B t [] s = s"
| "fill_inflight B t ((tag, msg) # rest) s =
     fill_inflight B t rest (fill_one t (to_be_bytes tag) (projr (ser_message B msg)) s)"

definition fill_queue :: "bincode \<Rightarrow> (nat \<Rightarrow> i64) \<Rightarrow> string \<Rightarrow> queue_snapshot \<Rightarrow> qstate \<Rightarrow> qstate" where
  "fill_queue B clk q qs s =
     fill_main B (dlq_tree_name q) (qs_dead_letter qs)
       (fill_inflight B (inflight_tree_name q) (qs_inflight qs)
         (fill_scheduled B clk (scheduled_tree_name q) 0 (qs_scheduled qs)
           (fill_main B q (qs_messages qs)
             (fill_one META_RETENTION_TREE q (projr (ser_policy B (qs_policy qs)))
               (fill_one META_QUEUES_TREE q [] s)))))"

section \<open>The export is exact\<close>

lemma decode_entries_wp:
  fixes m :: "'db manager"
  assumes "\<forall>kv \<in> set xs. \<not> isl (de_message B (snd kv))"
  shows "wp (decode_entries B (map Inr xs)) (\<lambda>r m'. m' = m \<and> r = Ok (decoded B xs)) m"
  using assms
proof (induction xs)
  case (Cons kv xs)
  then obtain k v msg where kv: "kv = (k, v)" "de_message B v = Inr msg"
    by (metis isl_def list.set_intros(1) sum.collapse(2) prod.collapse)
  have "wp (decode_entries B (map Inr xs)) (\<lambda>r m'. m' = m \<and> r = Ok (decoded B xs)) m" using Cons by simp
  then show ?case
    by (simp add: kv wp_bnd) (erule wp_mono, auto simp: wp_simps)
qed (simp add: wp_simps)

lemma decode_inflight_wp:
  fixes m :: "'db manager"
  assumes "\<forall>kv \<in> set xs. \<not> isl (de_message B (snd kv)) \<and> length (fst kv) = 8"
  shows "wp (decode_inflight B (map Inr xs)) (\<lambda>r m'. m' = m \<and> r = Ok (tagged B xs)) m"
  using assms
proof (induction xs)
  case (Cons kv xs)
  then obtain k v msg where kv: "kv = (k, v)" "de_message B v = Inr msg" "length k = 8"
    by (metis fst_conv isl_def list.set_intros(1) sum.collapse(2) prod.collapse)
  have "wp (decode_inflight B (map Inr xs)) (\<lambda>r m'. m' = m \<and> r = Ok (tagged B xs)) m" using Cons by simp
  then show ?case
    by (simp add: kv wp_bnd) (erule wp_mono, auto simp: wp_simps tagged_def kv)
qed (simp add: wp_simps tagged_def)

lemma wf_tags:
  assumes wf: "wf_state B s" and q: "q \<in> declared (cont s)" and kv: "kv \<in> set (cont s (inflight_tree_name q))"
  shows "\<not> isl (de_message B (snd kv)) \<and> length (fst kv) = 8"
proof -
  have "inflight_entry B (next_id s) kv" using wf_state_queue(2) [OF wf q] kv by (simp add: wf_lists_def)
  then show ?thesis by (cases kv) (auto elim!: inflight_entryE)
qed

lemma wf_dead:
  assumes wf: "wf_state B s" and q: "q \<in> declared (cont s)" and kv: "kv \<in> set (cont s (dlq_tree_name q))"
  shows "\<not> isl (de_message B (snd kv))"
proof -
  have "main_entry B (next_id s) kv" using wf_state_queue(2) [OF wf q] kv by (simp add: wf_lists_def)
  then show ?thesis by (cases kv) (auto elim!: main_entryE)
qed

context engine
begin

lemma export_tree_wp:
  assumes "\<not> faulty" "\<forall>kv \<in> set (view (mgr_db m) t). \<not> isl (de_message B (snd kv))"
    and "\<And>m'. abs m' = abs m \<Longrightarrow> view (mgr_db m') = view (mgr_db m) \<Longrightarrow> Q (Ok (decoded B (view (mgr_db m) t))) m'"
  shows "wp (export_tree S B t) Q m"
proof -
  have "wp (decode_entries B es) Q m'"
    if "entries_ok False es (view (mgr_db m) t)" "abs m' = abs m" "view (mgr_db m') = view (mgr_db m)" for es m'
    using that(1) unfolding entries_ok_healthy
    by (auto intro!: wp_mono [OF decode_entries_wp [OF assms(2)]] assms(3) that(2,3))
  then show ?thesis
    using assms(1) unfolding export_tree_def by (auto simp: wp_simps abs_db_eq intro!: wp_rules)
qed

lemma export_inflight_wp:
  assumes "\<not> faulty" "\<forall>kv \<in> set (view (mgr_db m) t). \<not> isl (de_message B (snd kv)) \<and> length (fst kv) = 8"
    and "\<And>m'. abs m' = abs m \<Longrightarrow> view (mgr_db m') = view (mgr_db m) \<Longrightarrow> Q (Ok (tagged B (view (mgr_db m) t))) m'"
  shows "wp (export_inflight S B t) Q m"
proof -
  have "wp (decode_inflight B es) Q m'"
    if "entries_ok False es (view (mgr_db m) t)" "abs m' = abs m" "view (mgr_db m') = view (mgr_db m)" for es m'
    using that(1) unfolding entries_ok_healthy
    by (auto intro!: wp_mono [OF decode_inflight_wp [OF assms(2)]] assms(3) that(2,3))
  then show ?thesis
    using assms(1) unfolding export_inflight_def by (auto simp: wp_simps abs_db_eq intro!: wp_rules)
qed

lemma export_queue_wp:
  assumes nf: "\<not> faulty" and wf: "wf_state B (abs m)" and q: "q \<in> declared (view (mgr_db m))"
  shows "wp (export_queue S B q) (\<lambda>r m'. abs m' = abs m \<and> r = Ok (queue_snapshot_of B (view (mgr_db m)) q)) m"
proof -
  note ok = wf_no_panic(2-4) [OF wf, of q, simplified, OF q] wf_dead [OF wf, of q, simplified, OF q]
    wf_tags [OF wf, of q, simplified, OF q]
  show ?thesis
    unfolding export_queue_def wp_bnd
    using nf ok
    by (auto simp: wp_simps queue_snapshot_of_def intro!: wp_read_policy export_tree_wp export_inflight_wp)
qed

lemma export_queues_wp:
  assumes nf: "\<not> faulty" and "wf_state B (abs m)" "set names \<subseteq> declared (view (mgr_db m))"
    and "sorted_wrt (<) (keys queues @ names)"
  shows "wp (export_queues S B names queues) (\<lambda>r m'. abs m' = abs m \<and>
     r = Ok (queues @ map (\<lambda>q. (q, queue_snapshot_of B (view (mgr_db m)) q)) names)) m"
  using assms(2-)
proof (induction names arbitrary: queues m)
  case Nil
  then show ?case by (simp add: wp_simps)
next
  case (Cons q names)
  have q: "q \<in> declared (view (mgr_db m))" using Cons.prems(2) by simp
  show ?case
    unfolding export_queues.simps wp_bnd
  proof (rule wp_mono [OF export_queue_wp [OF nf Cons.prems(1) q]], goal_cases)
    case (1 r m1)
    let ?qs = "queue_snapshot_of B (view (mgr_db m)) q"
    have v: "view (mgr_db m1) = view (mgr_db m)" using 1 by (simp add: abs_state_eq)
    have ins: "ot_insert q ?qs queues = queues @ [(q, ?qs)]"
      using Cons.prems(3) by (intro ot_insert_last) (auto simp: sorted_wrt_append)
    have "wp (export_queues S B names (queues @ [(q, ?qs)])) (\<lambda>r m'. abs m' = abs m1 \<and>
       r = Ok ((queues @ [(q, ?qs)]) @ map (\<lambda>q. (q, queue_snapshot_of B (view (mgr_db m1)) q)) names)) m1"
      using Cons.prems 1 v by (intro Cons.IH) (auto simp: sorted_wrt_append)
    then show ?case using 1 ins v by simp
  qed
qed

lemma export_exact:
  assumes nf: "\<not> faulty" and wf: "wf_state B (abs m)"
  shows "wp (export_snapshot S B) (\<lambda>r m'. abs m' = abs m \<and> r = Ok (snapshot_of B (view (mgr_db m)))) m"
  unfolding export_snapshot_def wp_bnd
proof (rule wp_mono [OF list_queues_wp], goal_cases)
  case (1 r m1)
  then have m1: "m1 = m" and r: "r = Ok (queue_names (view (mgr_db m)))" using nf by (auto split: outcome.splits)
  have "sorted_wrt (<) (queue_names (view (mgr_db m)))"
    using view_sorted by (auto simp: queue_names_def ot_sorted_def intro: sorted_wrt_filter)
  moreover have "set (queue_names (view (mgr_db m))) \<subseteq> declared (view (mgr_db m))"
    by (auto simp: queue_names_def declared_def)
  ultimately show ?case
    using export_queues_wp [OF nf wf, of "queue_names (view (mgr_db m))" "[]"] by (simp add: m1 r snapshot_of_def)
qed

end

end
