(* ===== verification/Snapshot_Restore.thy ===== *)
theory Snapshot_Restore
  imports Snapshot
begin

text \<open>
  Restoring an exported snapshot into an empty database reproduces every queue: the ready messages in
  delivery order, the delayed messages, the in-flight messages under their tags, the dead letters
  and the policy.  The recently seen deduplication keys are not part of a snapshot.
\<close>

text \<open>One queue of a snapshot, restored into empty trees; then the state in the middle of the loop over the queues.\<close>

definition copied :: "bincode \<Rightarrow> contents \<Rightarrow> contents \<Rightarrow> string \<Rightarrow> bool" where
  "copied B V V' q \<longleftrightarrow> queue_of B V' q = (queue_of B V q)\<lparr>recent := \<lambda>_. None\<rparr> \<and> policy_in B V' q = policy_in B V q"

definition half_copied :: "bincode \<Rightarrow> qstate \<Rightarrow> string list \<Rightarrow> qstate \<Rightarrow> bool" where
  "half_copied B s0 todo s \<longleftrightarrow>
     set todo \<subseteq> declared (cont s0) \<and> distinct todo \<and>
     declared (cont s) = declared (cont s0) - set todo \<and>
     next_id s + snapshot_ids (map (\<lambda>q. (q, queue_snapshot_of B (cont s0) q)) todo) \<le> 2 ^ 64 \<and>
     (\<forall>q \<in> declared (cont s0).
        if q \<in> set todo then \<forall>t \<in> trees q. cont s t = [] else copied B (cont s0) (cont s) q)"

section \<open>The restore loops\<close>

lemma fill_one_simps [simp]:
  "cont (fill_one t k v s) = (cont s)(t := ot_insert k v (cont s t))"
  "next_id (fill_one t k v s) = next_id s" "used (fill_one t k v s) = used s" "budget (fill_one t k v s) = budget s"
  by (simp_all add: fill_one_def)

context engine
begin

lemma insert_fill:
  assumes "\<not> faulty" "\<And>m'. abs m' = fill_one t k v (abs m) \<Longrightarrow> Q (Ok ()) m'"
  shows "wp (q_insert S t k v) Q m"
  using assms by (auto simp: wp_simps abs_state_def fill_one_def intro!: wp_rules)

lemma insert_fresh:
  assumes "\<not> faulty" "next_id (abs m) < 2 ^ 64"
    and "\<And>m'. abs m' = fill_one t (k (of_nat (next_id (abs m)))) v (abs m)\<lparr>next_id := Suc (next_id (abs m))\<rparr> \<Longrightarrow> Q (Ok ()) m'"
  shows "wp (bnd (q_generate_id S) (\<lambda>i. q_insert S t (k i) v)) Q m"
  using assms by (auto simp: wp_simps abs_state_def fill_one_def intro!: wp_rules)

lemma bnd_assoc: "bnd (bnd c f) g = bnd c (\<lambda>x. bnd (f x) g)"
  by (simp add: bnd_def fun_eq_iff split: prod.splits outcome.splits)

lemma restore_messages_wp:
  assumes nf: "\<not> faulty" and "next_id (abs m) + length msgs \<le> 2 ^ 64"
  shows "wp (restore_messages S B t msgs) (\<lambda>r m'. r = Ok () \<and> abs m' = fill_main B t msgs (abs m)) m"
  using assms(2)
proof (induction msgs arbitrary: m)
  case (Cons msg msgs)
  obtain b where ser: "ser_message B msg = Inr b" using ser_message_total by blast
  have eq: "restore_messages S B t (msg # msgs) =
      bnd (bnd (q_generate_id S) (\<lambda>i. q_insert S t (encode_key (priority msg) i) b)) (\<lambda>_. restore_messages S B t msgs)"
    by (simp add: ser bnd_assoc)
  show ?case
    unfolding eq wp_bnd [of "bnd c f" for c f]
  proof (rule insert_fresh [OF nf], goal_cases)
    case (2 m')
    then have "next_id (abs m') + length msgs \<le> 2 ^ 64" using Cons.prems by simp
    from Cons.IH [OF this] 2 show ?case by (simp add: ser)
  qed (use Cons.prems in simp)
qed (simp add: wp_simps)

lemma restore_scheduled_wp:
  assumes nf: "\<not> faulty" and "next_id (abs m) + length msgs \<le> 2 ^ 64"
  shows "wp (restore_scheduled S B clk t n msgs) (\<lambda>r m'. r = Ok () \<and> abs m' = fill_scheduled B clk t n msgs (abs m)) m"
  using assms(2)
proof (induction msgs arbitrary: m n)
  case (Cons msg msgs)
  obtain b where ser: "ser_message B msg = Inr b" using ser_message_total by blast
  let ?at = "case deliver_at msg of None \<Rightarrow> clk n | Some at \<Rightarrow> at"
  have eq: "restore_scheduled S B clk t n (msg # msgs) =
      bnd (bnd (q_generate_id S) (\<lambda>i. q_insert S t (encode_scheduled_key ?at i) b)) (\<lambda>_. restore_scheduled S B clk t (Suc n) msgs)"
    by (simp add: ser bnd_assoc)
  show ?case
    unfolding eq wp_bnd [of "bnd c f" for c f]
  proof (rule insert_fresh [OF nf], goal_cases)
    case (2 m')
    then have "next_id (abs m') + length msgs \<le> 2 ^ 64" using Cons.prems by simp
    from Cons.IH [OF this, of "Suc n"] 2 show ?case by (simp add: ser)
  qed (use Cons.prems in simp)
qed (simp add: wp_simps)

lemma restore_inflight_wp:
  assumes nf: "\<not> faulty"
  shows "wp (restore_inflight S B t xs) (\<lambda>r m'. r = Ok () \<and> abs m' = fill_inflight B t xs (abs m)) m"
proof (induction xs arbitrary: m)
  case (Cons x xs)
  obtain tag msg where x: "x = (tag, msg)" by force
  obtain b where ser: "ser_message B msg = Inr b" using ser_message_total by blast
  show ?case
    unfolding x restore_inflight.simps ser sum.case wp_bnd
  proof (rule insert_fill [OF nf], goal_cases)
    case (1 m')
    then show ?case using Cons.IH [of m'] by (simp add: ser)
  qed
qed (simp add: wp_simps)

end

lemma fill_main_simps [simp]:
  "next_id (fill_main B t msgs s) = next_id s + length msgs"
  "used (fill_main B t msgs s) = used s" "budget (fill_main B t msgs s) = budget s"
  "t' \<noteq> t \<Longrightarrow> cont (fill_main B t msgs s) t' = cont s t'"
  by (induction msgs arbitrary: s) simp_all

lemma fill_scheduled_simps [simp]:
  "next_id (fill_scheduled B clk t n msgs s) = next_id s + length msgs"
  "used (fill_scheduled B clk t n msgs s) = used s" "budget (fill_scheduled B clk t n msgs s) = budget s"
  "t' \<noteq> t \<Longrightarrow> cont (fill_scheduled B clk t n msgs s) t' = cont s t'"
  by (induction msgs arbitrary: s n) simp_all

lemma fill_inflight_simps [simp]:
  "next_id (fill_inflight B t xs s) = next_id s"
  "used (fill_inflight B t xs s) = used s" "budget (fill_inflight B t xs s) = budget s"
  "t' \<noteq> t \<Longrightarrow> cont (fill_inflight B t xs s) t' = cont s t'"
  by (induction xs arbitrary: s) auto

context engine
begin

lemma restore_queue_wp:
  assumes nf: "\<not> faulty"
    and ids: "next_id (abs m) + length (qs_messages qs) + length (qs_scheduled qs) + length (qs_dead_letter qs) \<le> 2 ^ 64"
  shows "wp (restore_queue S B clk q qs) (\<lambda>r m'. r = Ok () \<and> abs m' = fill_queue B clk q qs (abs m)) m"
proof -
  obtain b where ser: "ser_policy B (qs_policy qs) = Inr b" using ser_policy_total by blast
  have open_same: "wp (q_open_tree S t) Q m'" if "\<And>m''. abs m'' = abs m' \<Longrightarrow> Q (Ok ()) m''" for t Q m'
    using that nf by (auto simp: wp_simps abs_db_eq intro!: wp_rules)
  have main: "wp (restore_messages S B t msgs) Q m'"
    if "next_id (abs m') + length msgs \<le> 2 ^ 64" "\<And>m''. abs m'' = fill_main B t msgs (abs m') \<Longrightarrow> Q (Ok ()) m''" for t msgs Q m'
    by (rule wp_mono [OF restore_messages_wp [OF nf that(1)]]) (use that(2) in blast)
  have sched: "wp (restore_scheduled S B clk t n msgs) Q m'"
    if "next_id (abs m') + length msgs \<le> 2 ^ 64" "\<And>m''. abs m'' = fill_scheduled B clk t n msgs (abs m') \<Longrightarrow> Q (Ok ()) m''"
    for t msgs n Q m'
    by (rule wp_mono [OF restore_scheduled_wp [OF nf that(1)]]) (use that(2) in blast)
  have infl: "wp (restore_inflight S B t xs) Q m'"
    if "\<And>m''. abs m'' = fill_inflight B t xs (abs m') \<Longrightarrow> Q (Ok ()) m''" for t xs Q m'
    by (rule wp_mono [OF restore_inflight_wp [OF nf]]) (use that in blast)
  show ?thesis
    unfolding restore_queue_def ser sum.case wp_bnd
    using ids
    by (auto simp: fill_queue_def ser simp del: abs_state_simps intro!: insert_fill [OF nf] open_same main sched infl)
qed

end

section \<open>What the loops write\<close>

lemma put_last: "\<forall>x \<in> set xs. rank x \<le> rank m \<Longrightarrow> put m xs = xs @ [m]"
  by (induction xs) auto

lemma put_delayed_last: "\<forall>x \<in> set xs. due_time x \<le> due_time m \<Longrightarrow> put_delayed m xs = xs @ [m]"
  by (induction xs) auto

lemma fill_main_decoded:
  assumes B: "bincode_codec B" and "\<forall>kv \<in> set (cont s t). main_entry B (next_id s) kv" "next_id s + length msgs \<le> 2 ^ 64"
    and "sorted (map rank (decoded B (cont s t) @ msgs))"
  shows "decoded B (cont (fill_main B t msgs s) t) = decoded B (cont s t) @ msgs"
  using assms(2-)
proof (induction msgs arbitrary: s)
  case (Cons msg msgs)
  obtain b where ser: "ser_message B msg = Inr b" using bincode_codec.ser_message_total [OF B] by blast
  then have de: "de_message B b = Inr msg" using bincode_codec.message_roundtrip [OF B] by blast
  let ?i = "of_nat (next_id s) :: u64"
  let ?s = "fill_one t (encode_key (priority msg) ?i) b s\<lparr>next_id := Suc (next_id s)\<rparr>"
  have id: "unat ?i = next_id s" using Cons.prems(2) by simp
  have "decoded B (cont ?s t) = put msg (decoded B (cont s t))"
    using put_insert [OF Cons.prems(1) _ de, of ?i] id by simp
  also have "\<dots> = decoded B (cont s t) @ [msg]"
    using Cons.prems(3) by (intro put_last) (auto simp: sorted_append)
  finally have d: "decoded B (cont ?s t) = decoded B (cont s t) @ [msg]" .
  have "\<forall>kv \<in> set (cont ?s t). main_entry B (next_id ?s) kv"
    using Cons.prems(1) id main_entryI [OF de ser, of ?i "Suc (next_id s)"] entry_mono
    by (auto dest!: in_ot_insert)
  from Cons.IH [OF this] d Cons.prems(2,3) show ?case by (simp add: ser)
qed simp

lemma fill_scheduled_decoded:
  assumes B: "bincode_codec B" and "\<forall>kv \<in> set (cont s t). scheduled_entry B (next_id s) kv" "next_id s + length msgs \<le> 2 ^ 64"
    and "sorted (map due_time (decoded B (cont s t) @ msgs))"
    and "\<forall>msg \<in> set msgs. \<exists>at. deliver_at msg = Some at \<and> 0 \<le> sint at"
  shows "decoded B (cont (fill_scheduled B clk t n msgs s) t) = decoded B (cont s t) @ msgs"
  using assms(2-)
proof (induction msgs arbitrary: s n)
  case (Cons msg msgs)
  obtain b where ser: "ser_message B msg = Inr b" using bincode_codec.ser_message_total [OF B] by blast
  then have de: "de_message B b = Inr msg" using bincode_codec.message_roundtrip [OF B] by blast
  from Cons.prems(4) obtain at where at: "deliver_at msg = Some at" "0 \<le> sint at" by auto
  let ?i = "of_nat (next_id s) :: u64"
  let ?s = "fill_one t (encode_scheduled_key at ?i) b s\<lparr>next_id := Suc (next_id s)\<rparr>"
  have id: "unat ?i = next_id s" using Cons.prems(2) by simp
  have "decoded B (cont ?s t) = put_delayed msg (decoded B (cont s t))"
    using put_delayed_insert [OF Cons.prems(1) _ de at, of ?i] id by simp
  also have "\<dots> = decoded B (cont s t) @ [msg]"
    using Cons.prems(3) by (intro put_delayed_last) (auto simp: sorted_append)
  finally have d: "decoded B (cont ?s t) = decoded B (cont s t) @ [msg]" .
  have "\<forall>kv \<in> set (cont ?s t). scheduled_entry B (next_id ?s) kv"
    using Cons.prems(1) id scheduled_entryI [OF de ser at, of ?i "Suc (next_id s)"] entry_mono
    by (auto dest!: in_ot_insert)
  from Cons.IH [OF this] d Cons.prems(2,3,4) at show ?case by (simp add: ser)
qed simp

lemma fill_inflight_tree:
  assumes "ot_sorted (cont s t @ xs)" "\<forall>kv \<in> set xs. inflight_entry B n kv"
  shows "cont (fill_inflight B t (tagged B xs) s) t = cont s t @ xs"
  using assms
proof (induction xs arbitrary: s)
  case (Cons kv xs)
  obtain k v where kv: "kv = (k, v)" by force
  with Cons.prems(2) have "inflight_entry B n (k, v)" by simp
  then obtain i msg where e: "de_message B v = Inr msg" "ser_message B msg = Inr v" "k = to_be_bytes (i :: u64)"
    by (rule inflight_entryE)
  have "ot_insert k v (cont s t) = cont s t @ [(k, v)]"
    using Cons.prems(1) by (intro ot_insert_last) (auto simp: kv ot_sorted_append)
  then show ?case
    using Cons.IH [of "fill_one t k v s"] Cons.prems e by (simp add: kv tagged_def)
qed (simp add: tagged_def)

lemma fill_queue_frame:
  "t \<notin> trees q \<Longrightarrow> t \<noteq> META_QUEUES_TREE \<Longrightarrow> t \<noteq> META_RETENTION_TREE \<Longrightarrow> cont (fill_queue B clk q qs s) t = cont s t"
  by (simp add: fill_queue_def trees_def)

lemma fill_queue_meta:
  "plain_name q \<Longrightarrow> cont (fill_queue B clk q qs s) META_QUEUES_TREE = ot_insert q [] (cont s META_QUEUES_TREE)"
  "plain_name q \<Longrightarrow> cont (fill_queue B clk q qs s) META_RETENTION_TREE =
     ot_insert q (projr (ser_policy B (qs_policy qs))) (cont s META_RETENTION_TREE)"
  by (simp_all add: fill_queue_def)

lemma fill_queue_next [simp]:
  "next_id (fill_queue B clk q qs s) =
     next_id s + length (qs_messages qs) + length (qs_scheduled qs) + length (qs_dead_letter qs)"
  by (simp add: fill_queue_def)

lemma wf_sorted_due:
  assumes "ot_sorted xs" "\<forall>kv \<in> set xs. scheduled_entry B n kv"
  shows "sorted (map due_time (decoded B xs))"
  using assms
proof (induction xs)
  case (Cons kv xs)
  obtain k b where kv: "kv = (k, b)" by force
  have "due_time (projr (de_message B b)) \<le> due_time (projr (de_message B b'))" if "(k', b') \<in> set xs" for k' b'
  proof -
    have "scheduled_entry B n (k, b)" "scheduled_entry B n (k', b')" using Cons.prems(2) that kv by auto
    then obtain i m at j m' at' where "de_message B b = Inr m" "k = encode_scheduled_key at i" "deliver_at m = Some at" "0 \<le> sint at"
      "de_message B b' = Inr m'" "k' = encode_scheduled_key at' j" "deliver_at m' = Some at'" "0 \<le> sint at'"
      by (elim scheduled_entryE) blast
    moreover have "k < k'" using Cons.prems(1) that kv by (auto simp: ot_simps)
    ultimately show ?thesis using scheduled_key_less [of at at' i j] by (simp add: due_time_def)
  qed
  with Cons show ?case by (auto simp: kv ot_simps decoded_def)
qed simp

lemma fill_queue_copied:
  assumes B: "bincode_codec B" and wf: "wf_state B s0" and st: "sorted_state s0" and q: "q \<in> declared (cont s0)"
    and empty: "\<forall>t \<in> trees q. cont s t = []"
    and ids: "next_id s + length (cont s0 q) + length (cont s0 (scheduled_tree_name q)) + length (cont s0 (dlq_tree_name q)) \<le> 2 ^ 64"
  shows "copied B (cont s0) (cont (fill_queue B clk q (queue_snapshot_of B (cont s0) q) s)) q"
proof -
  let ?qs = "queue_snapshot_of B (cont s0) q"
  define s1 where "s1 = fill_one META_RETENTION_TREE q (projr (ser_policy B (qs_policy ?qs))) (fill_one META_QUEUES_TREE q [] s)"
  define s2 where "s2 = fill_main B q (qs_messages ?qs) s1"
  define s3 where "s3 = fill_scheduled B clk (scheduled_tree_name q) 0 (qs_scheduled ?qs) s2"
  define s4 where "s4 = fill_inflight B (inflight_tree_name q) (qs_inflight ?qs) s3"
  define s5 where "s5 = fill_main B (dlq_tree_name q) (qs_dead_letter ?qs) s4"
  have s5: "fill_queue B clk q ?qs s = s5"
    by (simp add: fill_queue_def s1_def s2_def s3_def s4_def s5_def)
  note l = wf_state_queue [OF wf q]
  have e: "cont s q = []" "cont s (scheduled_tree_name q) = []" "cont s (inflight_tree_name q) = []"
    "cont s (dlq_tree_name q) = []" "cont s (dedup_tree_name q) = []" using empty by (simp_all add: trees_def)
  have me: "\<forall>kv \<in> set (cont s0 q). main_entry B (next_id s0) kv" and de: "\<forall>kv \<in> set (cont s0 (dlq_tree_name q)). main_entry B (next_id s0) kv"
    and se: "\<forall>kv \<in> set (cont s0 (scheduled_tree_name q)). scheduled_entry B (next_id s0) kv"
    and ie: "\<forall>kv \<in> set (cont s0 (inflight_tree_name q)). inflight_entry B (next_id s0) kv"
    using l(2) by (simp_all add: wf_lists_def)
  have lens: "length (qs_messages ?qs) = length (cont s0 q)" "length (qs_scheduled ?qs) = length (cont s0 (scheduled_tree_name q))"
    "length (qs_dead_letter ?qs) = length (cont s0 (dlq_tree_name q))"
    by (simp_all add: queue_snapshot_of_def decoded_def)
  have at: "\<exists>at. deliver_at msg = Some at \<and> 0 \<le> sint at" if "msg \<in> set (decoded B (cont s0 (scheduled_tree_name q)))" for msg
  proof -
    from that obtain kv where "kv \<in> set (cont s0 (scheduled_tree_name q))" "msg = projr (de_message B (snd kv))"
      by (auto simp: decoded_def)
    with se show ?thesis by (cases kv) (fastforce elim!: scheduled_entryE)
  qed
  have r: "decoded B (cont s2 q) = decoded B (cont s0 q)"
    using fill_main_decoded [OF B, of s1 q "decoded B (cont s0 q)"] wf_sorted_rank [OF _ me] st ids lens l(1) e
    by (simp add: s2_def s1_def queue_snapshot_of_def)
  have d: "decoded B (cont s3 (scheduled_tree_name q)) = decoded B (cont s0 (scheduled_tree_name q))"
    using fill_scheduled_decoded [OF B, of s2 "scheduled_tree_name q" "decoded B (cont s0 (scheduled_tree_name q))" clk 0]
      wf_sorted_due [OF _ se] st ids lens l(1) e at
    by (simp add: s3_def s2_def s1_def queue_snapshot_of_def)
  have i: "cont s4 (inflight_tree_name q) = cont s0 (inflight_tree_name q)"
    using fill_inflight_tree [of s3 "inflight_tree_name q" "cont s0 (inflight_tree_name q)" B "next_id s0"] ie st e l(1)
    by (simp add: s4_def s3_def s2_def s1_def queue_snapshot_of_def)
  have dl: "decoded B (cont s5 (dlq_tree_name q)) = decoded B (cont s0 (dlq_tree_name q))"
    using fill_main_decoded [OF B, of s4 "dlq_tree_name q" "decoded B (cont s0 (dlq_tree_name q))"] wf_sorted_rank [OF _ de] st ids lens l(1) e
    by (simp add: s5_def s4_def s3_def s2_def s1_def queue_snapshot_of_def)
  obtain b where "ser_policy B (policy_in B (cont s0) q) = Inr b" using bincode_codec.ser_policy_total [OF B] by blast
  then have pol: "de_policy B (projr (ser_policy B (policy_in B (cont s0) q))) = Inr (policy_in B (cont s0) q)"
    using bincode_codec.policy_roundtrip [OF B] by simp
  have ret: "map_of (cont s5 META_RETENTION_TREE) q = Some (projr (ser_policy B (policy_in B (cont s0) q)))"
    using fill_queue_meta(2) [OF l(1), of B clk ?qs s, unfolded s5] by (simp add: queue_snapshot_of_def)
  have "policy_in B (cont s5) q = policy_in B (cont s0) q"
    unfolding policy_in_def [of B "cont s5"] ret by (simp add: policy_of_def pol)
  moreover have "cont s5 q = cont s2 q" "cont s5 (scheduled_tree_name q) = cont s3 (scheduled_tree_name q)"
    "cont s5 (inflight_tree_name q) = cont s4 (inflight_tree_name q)" "cont s5 (dedup_tree_name q) = []"
    using l(1) e by (simp_all add: s5_def s4_def s3_def s2_def s1_def)
  ultimately show ?thesis
    unfolding copied_def s5 using r d i dl by (simp add: queue_of_def)
qed


section \<open>The loop over the queues\<close>

lemma copied_frame:
  assumes "copied B V V1 p" "\<And>t. t \<in> trees p \<Longrightarrow> V2 t = V1 t"
    and "map_of (V2 META_RETENTION_TREE) p = map_of (V1 META_RETENTION_TREE) p"
  shows "copied B V V2 p"
  using assms queue_of_frame [of p V2 V1 B] by (simp add: copied_def policy_in_def)

lemma snapshot_ids_Cons:
  "snapshot_ids ((q, qs) # xs) =
     length (qs_messages qs) + length (qs_scheduled qs) + length (qs_dead_letter qs) + snapshot_ids xs"
  by (simp add: snapshot_ids_def)

lemma half_copied_step:
  assumes B: "bincode_codec B" and wf: "wf_state B s0" and st: "sorted_state s0" and h: "half_copied B s0 (q # todo) s"
  shows "half_copied B s0 todo (fill_queue B clk q (queue_snapshot_of B (cont s0) q) s)"
proof -
  let ?s = "fill_queue B clk q (queue_snapshot_of B (cont s0) q) s"
  have q: "q \<in> declared (cont s0)" "q \<notin> set todo" and e: "\<forall>t \<in> trees q. cont s t = []"
    using h by (auto simp: half_copied_def)
  have pl: "plain_name p" if "p \<in> declared (cont s0)" for p using wf_state_queue(1) [OF wf that] .
  have ids: "next_id s + length (cont s0 q) + length (cont s0 (scheduled_tree_name q)) + length (cont s0 (dlq_tree_name q)) \<le> 2 ^ 64"
    and ids': "next_id ?s + snapshot_ids (map (\<lambda>q. (q, queue_snapshot_of B (cont s0) q)) todo) \<le> 2 ^ 64"
    using h by (auto simp: half_copied_def snapshot_ids_Cons queue_snapshot_of_def decoded_def)
  have new: "copied B (cont s0) (cont ?s) q" by (rule fill_queue_copied [OF B wf st q(1) e ids])
  have fr: "cont ?s t = cont s t" if "p \<in> declared (cont s0)" "p \<noteq> q" "t \<in> trees p" for p t
    using that trees_disjoint [of p q t] pl q(1) trees_meta [of p] by (intro fill_queue_frame) auto
  have pol: "map_of (cont ?s META_RETENTION_TREE) p = map_of (cont s META_RETENTION_TREE) p" if "p \<noteq> q" for p
    using that fill_queue_meta(2) [OF pl [OF q(1)]] by simp
  have "if p \<in> set todo then \<forall>t \<in> trees p. cont ?s t = [] else copied B (cont s0) (cont ?s) p"
    if p: "p \<in> declared (cont s0)" for p
  proof (cases "p = q")
    case True
    then show ?thesis using new q(2) by simp
  next
    case False
    have old: "if p \<in> set todo then \<forall>t \<in> trees p. cont s t = [] else copied B (cont s0) (cont s) p"
      using h p False by (auto simp: half_copied_def)
    show ?thesis
    proof (cases "p \<in> set todo")
      case True
      with old fr [OF p False] show ?thesis by simp
    next
      case f: False
      with old copied_frame [of B "cont s0" "cont s" p "cont ?s"] fr [OF p False] pol [OF False] show ?thesis by simp
    qed
  qed
  moreover have "declared (cont ?s) = insert q (declared (cont s))"
    unfolding declared_def fill_queue_meta(1) [OF pl [OF q(1)]] by simp
  ultimately show ?thesis
    using h ids' q by (auto simp: half_copied_def)
qed

context engine
begin

lemma restore_exact:
  assumes nf: "\<not> faulty" and wf: "wf_state B s0" and st: "sorted_state s0"
    and fresh: "\<forall>t. view (mgr_db m) t = []" and ids: "nxt (mgr_db m) + snapshot_ids (snapshot_of B (cont s0)) \<le> 2 ^ 64"
  shows "wp (restore_from_snapshot S B clk (snapshot_of B (cont s0))) (\<lambda>r m'. r = Ok () \<and>
     declared (view (mgr_db m')) = declared (cont s0) \<and>
     (\<forall>q \<in> declared (cont s0). copied B (cont s0) (view (mgr_db m')) q) \<and>
     current_bytes m' = of_nat (stored_bytes (view (mgr_db m')))) m"
proof -
  let ?names = "queue_names (cont s0)"
  have names: "set ?names = declared (cont s0)" "distinct ?names"
    using wf st by (auto simp: queue_names_def declared_def wf_state_def wf_store_def sorted_state_def ot_sorted_distinct)
  have start: "half_copied B s0 ?names (abs m)"
    using fresh ids names by (auto simp: half_copied_def snapshot_of_def declared_def)
  have loop: "wp (for_each (\<lambda>(name, qs). restore_queue S B clk name qs) (map (\<lambda>q. (q, queue_snapshot_of B (cont s0) q)) todo))
      (\<lambda>r m'. r = Ok () \<and> half_copied B s0 [] (abs m')) m1" if "half_copied B s0 todo (abs m1)" for todo m1
    using that
  proof (induction todo arbitrary: m1)
    case (Cons q todo)
    let ?qs = "queue_snapshot_of B (cont s0) q"
    have "next_id (abs m1) + length (qs_messages ?qs) + length (qs_scheduled ?qs) + length (qs_dead_letter ?qs) \<le> 2 ^ 64"
      using Cons.prems by (simp add: half_copied_def snapshot_ids_Cons)
    note step = restore_queue_wp [OF nf this, of clk q]
    show ?case
      unfolding list.map for_each.simps wp_bnd prod.case
    proof (rule wp_mono [OF step], goal_cases)
      case (1 r m2)
      then have "half_copied B s0 todo (abs m2)"
        using half_copied_step [OF bincode_codec_axioms wf st Cons.prems, of clk] by simp
      from Cons.IH [OF this] 1 show ?case by simp
    qed
  qed (simp add: wp_simps)
  show ?thesis
    unfolding restore_from_snapshot_def wp_bnd snapshot_of_def
  proof (rule wp_mono [OF loop [OF start]], goal_cases)
    case (1 r m1)
    then have h: "half_copied B s0 [] (abs m1)" and r: "r = Ok ()" by auto
    have "wp (recalculate_bytes S) (on_ok (\<lambda>tot. wp (modify (\<lambda>m. m\<lparr>current_bytes := tot\<rparr>)) (\<lambda>r m'. r = Ok () \<and>
       declared (view (mgr_db m')) = declared (cont s0) \<and>
       (\<forall>q \<in> declared (cont s0). copied B (cont s0) (view (mgr_db m')) q) \<and>
       current_bytes m' = of_nat (stored_bytes (view (mgr_db m')))))
      (\<lambda>r m'. r = Ok () \<and> declared (view (mgr_db m')) = declared (cont s0) \<and>
       (\<forall>q \<in> declared (cont s0). copied B (cont s0) (view (mgr_db m')) q) \<and>
       current_bytes m' = of_nat (stored_bytes (view (mgr_db m'))))) m1"
    proof (rule wp_mono [OF recalculate_refines], goal_cases)
      case (1 x m2)
      then show ?case
        using h nf by (cases x)
          (auto simp: recalculate_spec_def wp_simps half_copied_def abs_state_eq split: pelican_error.splits)
    qed
    then show ?case using r by simp
  qed
qed

end

end
