(* ===== verification/State_Machine.thy ===== *)
theory State_Machine
  imports Snapshot_Restore
begin

text \<open>
  The replicated state machine of \<^verbatim>\<open>pelicanq-raft\<close>: the operations and responses of \<^verbatim>\<open>requests.rs\<close>,
  \<^verbatim>\<open>apply_operation\<close>, \<^verbatim>\<open>build_snapshot\<close>, \<^verbatim>\<open>install_snapshot\<close> and \<^verbatim>\<open>open_queue_manager\<close> of
  \<^verbatim>\<open>state_machine.rs\<close>, and the \<^verbatim>\<open>FlockHandle\<close> of \<^verbatim>\<open>lib.rs\<close>.

  The JSON encoding of snapshots (\<^verbatim>\<open>serde_json\<close>) is a parameter with the locale \<^verbatim>\<open>snapshot_json\<close>; the
  consensus library \<^verbatim>\<open>openraft\<close> is a parameter of \<^verbatim>\<open>client_write\<close>.  Clock readings are arguments:
  \<open>clk i j\<close> is the \<open>j\<close>-th reading of the \<open>i\<close>-th publish of an operation.
\<close>

section \<open>Requests and responses\<close>

datatype queue_operation =
    OpDeclareQueue string retention_policy
  | OpPublish string message
  | OpPublishBatch string "message list"
  | OpConsume string
  | OpConsumeBatch string nat
  | OpAck string delivery_tag
  | OpNack string delivery_tag
  | OpApplyRetention string
  | OpPromoteScheduled string

datatype queue_operation_response =
    RespDeclareQueue "pelican_error + unit"
  | RespPublish "pelican_error + publish_outcome"
  | RespPublishBatch "pelican_error + publish_outcome list"
  | RespConsume "pelican_error + (delivery_tag \<times> message) option"
  | RespConsumeBatch "pelican_error + (delivery_tag \<times> message) list"
  | RespAck "pelican_error + unit"
  | RespNack "pelican_error + unit"
  | RespApplyRetention "pelican_error + nat"
  | RespPromoteScheduled "pelican_error + nat"

fun queue_operation_to_string :: "queue_operation \<Rightarrow> string" where
  "queue_operation_to_string (OpDeclareQueue name _) = ''DeclareQueue('' @ name @ '')''"
| "queue_operation_to_string (OpPublish queue _) = ''Publish('' @ queue @ '')''"
| "queue_operation_to_string (OpPublishBatch queue messages) =
     ''PublishBatch('' @ queue @ '', count='' @ show_nat (length messages) @ '')''"
| "queue_operation_to_string (OpConsume queue) = ''Consume('' @ queue @ '')''"
| "queue_operation_to_string (OpConsumeBatch queue mx) =
     ''ConsumeBatch('' @ queue @ '', max='' @ show_nat mx @ '')''"
| "queue_operation_to_string (OpAck queue tag) = ''Ack('' @ queue @ '', '' @ show_delivery_tag tag @ '')''"
| "queue_operation_to_string (OpNack queue tag) = ''Nack('' @ queue @ '', '' @ show_delivery_tag tag @ '')''"
| "queue_operation_to_string (OpApplyRetention queue) = ''ApplyRetention('' @ queue @ '')''"
| "queue_operation_to_string (OpPromoteScheduled queue) = ''PromoteScheduled('' @ queue @ '')''"

section \<open>Applying an operation\<close>

text \<open>The \<^verbatim>\<open>Result\<close> of a call as a value: the caller stores it in the response instead of returning early.\<close>

definition attempt :: "('s, 'e, 'a) prog \<Rightarrow> ('s, 'e2, 'e + 'a) prog" where
  "attempt c s = (case c s of
       (Ok a, s') \<Rightarrow> (Ok (Inr a), s')
     | (Err e, s') \<Rightarrow> (Ok (Inl e), s')
     | (Panic, s') \<Rightarrow> (Panic, s')
     | (Diverge, s') \<Rightarrow> (Diverge, s'))"

fun publish_batch_loop ::
    "'db sled \<Rightarrow> bincode \<Rightarrow> (nat \<Rightarrow> nat \<Rightarrow> i64) \<Rightarrow> string \<Rightarrow> nat \<Rightarrow> publish_outcome list \<Rightarrow> message list \<Rightarrow>
       ('db, queue_operation_response) mprog" where
  "publish_batch_loop S B clk queue i outcomes [] = ret (RespPublishBatch (Inr outcomes))"
| "publish_batch_loop S B clk queue i outcomes (msg # msgs) =
     bnd (attempt (publish S B (clk i) queue msg)) (\<lambda>r.
     case r of
       Inr outcome \<Rightarrow> publish_batch_loop S B clk queue (Suc i) (outcomes @ [outcome]) msgs
     | Inl e \<Rightarrow> ret (RespPublishBatch (Inl e)))"

fun consume_batch_loop ::
    "'db sled \<Rightarrow> bincode \<Rightarrow> string \<Rightarrow> (delivery_tag \<times> message) list \<Rightarrow> nat \<Rightarrow> ('db, queue_operation_response) mprog"
  where
  "consume_batch_loop S B queue results 0 = ret (RespConsumeBatch (Inr results))"
| "consume_batch_loop S B queue results (Suc n) =
     bnd (attempt (consume S B queue)) (\<lambda>r.
     case r of
       Inr (Some pair) \<Rightarrow> consume_batch_loop S B queue (results @ [pair]) n
     | Inr None \<Rightarrow> ret (RespConsumeBatch (Inr results))
     | Inl e \<Rightarrow> ret (RespConsumeBatch (Inl e)))"

fun apply_operation ::
    "'db sled \<Rightarrow> bincode \<Rightarrow> (nat \<Rightarrow> nat \<Rightarrow> i64) \<Rightarrow> queue_operation \<Rightarrow> ('db, queue_operation_response) mprog" where
  "apply_operation S B clk (OpDeclareQueue name policy) =
     bnd (attempt (if policy = RetentionPolicy_default then declare_queue S B name
                   else declare_queue_with_retention S B name policy)) (\<lambda>r. ret (RespDeclareQueue r))"
| "apply_operation S B clk (OpPublish queue msg) =
     bnd (attempt (publish S B (clk 0) queue msg)) (\<lambda>r. ret (RespPublish r))"
| "apply_operation S B clk (OpPublishBatch queue msgs) = publish_batch_loop S B clk queue 0 [] msgs"
| "apply_operation S B clk (OpConsume queue) = bnd (attempt (consume S B queue)) (\<lambda>r. ret (RespConsume r))"
| "apply_operation S B clk (OpConsumeBatch queue mx) = consume_batch_loop S B queue [] mx"
| "apply_operation S B clk (OpAck queue tag) = bnd (attempt (ack S queue tag)) (\<lambda>r. ret (RespAck r))"
| "apply_operation S B clk (OpNack queue tag) = bnd (attempt (nack S B queue tag)) (\<lambda>r. ret (RespNack r))"
| "apply_operation S B clk (OpApplyRetention queue) =
     bnd (attempt (apply_retention S B (clk 0 0) queue)) (\<lambda>r. ret (RespApplyRetention r))"
| "apply_operation S B clk (OpPromoteScheduled queue) =
     bnd (attempt (promote_scheduled S B (clk 0 0) queue)) (\<lambda>r. ret (RespPromoteScheduled r))"

section \<open>Snapshots of the state machine\<close>

record snapshot_codec =
  snap_to_vec :: "manager_snapshot \<Rightarrow> string + bytes"
  snap_from_slice :: "bytes \<Rightarrow> string + manager_snapshot"

locale snapshot_json =
  fixes JS :: snapshot_codec
  assumes snap_total: "\<exists>b. snap_to_vec JS s = Inr b"
    and snap_roundtrip: "snap_to_vec JS s = Inr b \<Longrightarrow> snap_from_slice JS b = Inr s"

definition build_snapshot :: "'db sled \<Rightarrow> bincode \<Rightarrow> snapshot_codec \<Rightarrow> ('db, bytes) mprog" where
  "build_snapshot S B J =
     bnd (export_snapshot S B) (\<lambda>snapshot.
     case snap_to_vec J snapshot of
       Inl e \<Rightarrow> throw (Serialization e)
     | Inr data \<Rightarrow> ret data)"

definition install_snapshot ::
    "'db sled \<Rightarrow> bincode \<Rightarrow> snapshot_codec \<Rightarrow> (nat \<Rightarrow> i64) \<Rightarrow> bytes \<Rightarrow> ('db, unit) mprog" where
  "install_snapshot S B J clk data =
     (case snap_from_slice J data of
        Inl e \<Rightarrow> throw (Serialization e)
      | Inr snapshot \<Rightarrow> restore_from_snapshot S B clk snapshot)"

definition open_queue_manager ::
    "'db sled \<Rightarrow> bincode \<Rightarrow> string + 'db \<Rightarrow> (pelican_error, unit) outcome \<times> 'db manager option" where
  "open_queue_manager S B opened = open_manager S B opened None"

section \<open>Writes through consensus\<close>

record node =
  raft_addr :: string
  client_addr :: string

text \<open>What the code observes of an \<^verbatim>\<open>openraft\<close> error: \<^verbatim>\<open>forward_to_leader()\<close> and \<^verbatim>\<open>to_string()\<close>.\<close>

record raft_error =
  forward_to_leader :: "node option option"
  raft_error_string :: string

datatype write_result =
    WriteOk queue_operation_response
  | NotLeader "node option"
  | WriteError string

definition client_write ::
    "('w \<Rightarrow> queue_operation \<Rightarrow> (raft_error + queue_operation_response) \<times> 'w) \<Rightarrow> 'w \<Rightarrow> queue_operation \<Rightarrow>
       write_result \<times> 'w" where
  "client_write raft w op =
     (case raft w op of
        (Inr data, w') \<Rightarrow> (WriteOk data, w')
      | (Inl e, w') \<Rightarrow>
          ((case forward_to_leader e of
              Some leader_node \<Rightarrow> NotLeader leader_node
            | None \<Rightarrow> WriteError (raft_error_string e)), w'))"

text \<open>The identifiers an operation may take, and the operations whose names and clocks are regular.\<close>

fun op_ids :: "bincode \<Rightarrow> contents \<Rightarrow> queue_operation \<Rightarrow> nat" where
  "op_ids B V (OpPublish q msg) = 1"
| "op_ids B V (OpPublishBatch q msgs) = length msgs"
| "op_ids B V (OpNack q tag) = 1"
| "op_ids B V (OpPromoteScheduled q) = length (delayed (queue_of B V q))"
| "op_ids B V _ = 0"

fun legal_op :: "(nat \<Rightarrow> nat \<Rightarrow> i64) \<Rightarrow> queue_operation \<Rightarrow> bool" where
  "legal_op clk (OpDeclareQueue q P) = (plain_name q \<and> utf8_ok q)"
| "legal_op clk (OpPublish q msg) = (0 \<le> sint (clk 0 1))"
| "legal_op clk (OpPublishBatch q msgs) = list_all (\<lambda>i. 0 \<le> sint (clk i 1)) [0..<length msgs]"
| "legal_op clk _ = True"

section \<open>Reachability and totality\<close>

lemma wp_attempt: "wp (attempt c) Q s = wp c (\<lambda>r s'. case r of
     Ok a \<Rightarrow> Q (Ok (Inr a)) s' | Err e \<Rightarrow> Q (Ok (Inl e)) s' | Panic \<Rightarrow> Q Panic s' | Diverge \<Rightarrow> Q Diverge s') s"
  by (simp add: wp_def attempt_def split: prod.splits outcome.splits)

context engine
begin

lemma call_reach:
  assumes "reach S B view m" "legal c"
  shows "wp (call_prog S B c) (\<lambda>r m'. reach S B view m' \<and> returns r) m"
proof (rule wpI)
  fix r m' assume e: "call_prog S B c m = (r, m')"
  show "reach S B view m' \<and> returns r"
    using reach_call [OF assms e] wpD [OF call_ok [OF reach_wf_state [OF assms(1)] assms(2)] e] by simp
qed

lemma discard_reach:
  assumes "wp (discard c) (\<lambda>r m'. reach S B view m' \<and> returns r) m"
  shows "wp c (\<lambda>r m'. reach S B view m' \<and> returns r) m"
  using assms unfolding wp_discard by (rule wp_mono) (auto simp: on_ok_def split: outcome.splits)

lemma ops_reach:
  assumes "reach S B view m"
  shows "plain_name q \<Longrightarrow> utf8_ok q \<Longrightarrow> wp (declare_queue_with_retention S B q P) (\<lambda>r m'. reach S B view m' \<and> returns r) m"
    and "0 \<le> sint (clk 1) \<Longrightarrow> wp (publish S B clk q msg) (\<lambda>r m'. reach S B view m' \<and> returns r) m"
    and "wp (consume S B q) (\<lambda>r m'. reach S B view m' \<and> returns r) m"
    and "wp (ack S q tag) (\<lambda>r m'. reach S B view m' \<and> returns r) m"
    and "wp (nack S B q tag) (\<lambda>r m'. reach S B view m' \<and> returns r) m"
    and "wp (promote_scheduled S B now q) (\<lambda>r m'. reach S B view m' \<and> returns r) m"
    and "wp (apply_retention S B now q) (\<lambda>r m'. reach S B view m' \<and> returns r) m"
  using call_reach [OF assms, of "CDeclare q P"] call_reach [OF assms, of "CPublish clk q msg"]
    call_reach [OF assms, of "CConsume q"] call_reach [OF assms, of "CAck q tag"] call_reach [OF assms, of "CNack q tag"]
    call_reach [OF assms, of "CPromote now q"] call_reach [OF assms, of "CRetain now q"]
  by (simp_all add: discard_reach)

lemma attempt_reach:
  assumes "wp c (\<lambda>r m'. reach S B view m' \<and> returns r) m"
    and "\<And>r m'. reach S B view m' \<Longrightarrow> Q (Ok r) m'"
  shows "wp (attempt c) Q m"
  unfolding wp_attempt by (rule wp_mono [OF assms(1)]) (auto simp: assms(2) split: outcome.splits)

lemma publish_batch_reach:
  assumes "reach S B view m" "\<forall>i < length msgs. 0 \<le> sint (clk (k + i) 1)"
  shows "wp (publish_batch_loop S B clk q k os msgs) (\<lambda>r m'. reach S B view m' \<and> (\<exists>x. r = Ok (RespPublishBatch x))) m"
  using assms
proof (induction msgs arbitrary: m k os)
  case (Cons msg msgs)
  have clk: "0 \<le> sint (clk k 1)" using Cons.prems(2) by force
  have rest: "\<forall>i < length msgs. 0 \<le> sint (clk (Suc k + i) 1)" using Cons.prems(2) by force
  show ?case
    unfolding publish_batch_loop.simps wp_bnd
    by (rule attempt_reach [OF ops_reach(2) [where clk = "clk k", OF Cons.prems(1) clk]])
      (auto simp: wp_simps split: sum.splits intro!: Cons.IH rest)
qed (simp add: wp_simps)

lemma consume_batch_reach:
  assumes "reach S B view m"
  shows "wp (consume_batch_loop S B q xs n) (\<lambda>r m'. reach S B view m' \<and> (\<exists>x. r = Ok (RespConsumeBatch x))) m"
  using assms
proof (induction n arbitrary: m xs)
  case (Suc n)
  show ?case
    unfolding consume_batch_loop.simps wp_bnd
    by (rule attempt_reach [OF ops_reach(3) [OF Suc.prems]])
      (auto simp: wp_simps split: sum.splits option.splits intro!: Suc.IH)
qed (simp add: wp_simps)

lemma attempt_one:
  assumes "wp c (\<lambda>r m'. reach S B view m' \<and> returns r) m"
  shows "wp (bnd (attempt c) (\<lambda>r. ret (F r))) (\<lambda>r m'. reach S B view m' \<and> (\<exists>resp. r = Ok resp)) m"
  unfolding wp_bnd by (rule attempt_reach [OF assms]) (simp add: wp_simps)

lemma apply_operation_reach:
  assumes m: "reach S B view m" and op: "legal_op clk op"
  shows "wp (apply_operation S B clk op) (\<lambda>r m'. reach S B view m' \<and> (\<exists>resp. r = Ok resp)) m"
proof (cases op)
  case (OpDeclareQueue q P)
  have "wp (if P = RetentionPolicy_default then declare_queue S B q else declare_queue_with_retention S B q P)
      (\<lambda>r m'. reach S B view m' \<and> returns r) m"
    using ops_reach(1) [OF m] op OpDeclareQueue by (simp add: declare_queue_def)
  then show ?thesis unfolding OpDeclareQueue apply_operation.simps by (rule attempt_one)
next
  case (OpPublish q msg)
  with op have "0 \<le> sint (clk 0 1)" by simp
  from attempt_one [OF ops_reach(2) [where clk = "clk 0", OF m this]] show ?thesis by (simp add: OpPublish)
next
  case (OpPublishBatch q msgs)
  then show ?thesis
    using publish_batch_reach [OF m, of msgs clk 0 q "[]"] op by (auto simp: list_all_iff elim!: wp_mono)
next
  case (OpConsumeBatch q n)
  then show ?thesis using consume_batch_reach [OF m, of q "[]" n] by (auto elim!: wp_mono)
qed (auto intro!: attempt_one ops_reach [OF m])

end

end
