(* ===== verification/Replication.thy ===== *)
theory Replication
  imports State_Machine
begin

text \<open>
  Determinism of the replicated state machine: on healthy databases, two replicas in the same abstract
  state that apply the same operation with the same clock readings give the same response and end
  in the same abstract state.  \<^verbatim>\<open>unique\<close> says that a specification leaves one outcome only.
\<close>

definition unique :: "('a \<Rightarrow> 's \<Rightarrow> bool) \<Rightarrow> bool" where
  "unique P \<longleftrightarrow> (\<exists>R S'. \<forall>r s'. P r s' \<longrightarrow> r = R \<and> s' = S')"

definition agree ::
    "('db manager \<Rightarrow> qstate) \<Rightarrow> ('db, 'a) mprog \<Rightarrow> 'db manager \<Rightarrow> 'db manager \<Rightarrow> bool" where
  "agree st c m1 m2 \<longleftrightarrow> fst (c m1) = fst (c m2) \<and> st (snd (c m1)) = st (snd (c m2))"

section \<open>Specifications with one outcome\<close>

lemma uniqueI: "(\<And>r s'. P r s' \<Longrightarrow> r = R \<and> s' = S') \<Longrightarrow> unique P"
  by (auto simp: unique_def)

lemma declare_unique: "unique (declare_spec False B q P s)"
proof (cases "q \<in> declared (cont s)")
  case True
  show ?thesis
    by (rule uniqueI [where R = "Err (QueueAlreadyExists q)" and S' = s], unfold declare_spec_def Let_def)
      (use True in \<open>auto split: outcome.splits pelican_error.splits\<close>)
next
  case False
  show ?thesis
    by (rule uniqueI [where R = "Ok ()" and S' = "s\<lparr>cont := (cont s)(META_QUEUES_TREE := ot_insert q [] (cont s META_QUEUES_TREE),
          META_RETENTION_TREE := ot_insert q (projr (ser_policy B P)) (cont s META_RETENTION_TREE))\<rparr>"], unfold declare_spec_def Let_def)
      (use False in \<open>auto split: outcome.splits pelican_error.splits\<close>)
qed

lemma publish_unique:
  assumes wf: "wf_state B s" and id: "next_id s < 2 ^ 64"
  shows "unique (publish_spec False B clk q msg s)"
proof -
  let ?P = "policy_in B (cont s) q"
  let ?hit = "dedup_hit (cont s) q ?P msg (clk 0)"
  let ?b = "projr (ser_message B msg)"
  let ?lim = "storage_limit (budget s) (used s) (of_nat (length ?b))"
  let ?s = "s\<lparr>cont := dedup_store (enqueue (cont s) q msg (clk 1) (of_nat (next_id s)) ?b) q ?P msg (clk 2),
              next_id := Suc (next_id s), used := used s + of_nat (length ?b)\<rparr>"
  let ?R = "if q \<notin> declared (cont s) then Err (QueueNotFound q) else if ?hit then Ok Deduplicated
            else (case ?lim of Some e \<Rightarrow> Err e | None \<Rightarrow> Ok (Stored (msg_id msg)))"
  let ?S = "if q \<notin> declared (cont s) \<or> ?hit \<or> ?lim \<noteq> None then s else ?s"
  note np = wf_no_panic(1) [OF wf]
  show ?thesis
  proof (rule uniqueI [where R = ?R and S' = ?S])
    fix r s' assume sp: "publish_spec False B clk q msg s r s'"
    show "r = ?R \<and> s' = ?S"
    proof (cases r)
      case (Ok x)
      with sp show ?thesis by (cases x) (auto simp: publish_spec_def Let_def took_id_def)
    next
      case (Err e)
      with sp id show ?thesis by (cases e) (auto simp: publish_spec_def Let_def)
    qed (use sp np in \<open>auto simp: publish_spec_def Let_def\<close>)
  qed
qed

lemma consume_unique:
  assumes wf: "wf_state B s"
  shows "unique (consume_spec False B q s)"
proof (cases "q \<in> declared (cont s) \<and> cont s q \<noteq> []")
  case True
  then obtain k v rest where hd: "cont s q = (k, v) # rest" by (metis neq_Nil_conv surj_pair)
  obtain msg where de: "de_message B v = Inr msg" "length k = 9"
    using wf_no_panic(2) [OF wf, of q "(k, v)"] True hd by (cases "de_message B v") auto
  show ?thesis
    by (rule uniqueI [where R = "Ok (Some (DeliveryTag (from_be_bytes (take 8 (drop 1 k))), msg))"
          and S' = "s\<lparr>cont := took_head (cont s) q k v\<rparr>"], unfold consume_spec_def)
      (use True hd de in \<open>auto split: outcome.splits option.splits pelican_error.splits\<close>)
next
  case False
  show ?thesis
    by (rule uniqueI [where R = "if q \<in> declared (cont s) then Ok None else Err (QueueNotFound q)" and S' = s], unfold consume_spec_def)
      (use False in \<open>auto split: outcome.splits option.splits pelican_error.splits\<close>)
qed

lemma ack_unique: "unique (ack_spec False q tag s)"
proof (cases "map_of (cont s (inflight_tree_name q)) (to_be_bytes (tag_u64 tag))")
  case None
  show ?thesis
    by (rule uniqueI [where R = "Err (if q \<in> declared (cont s) then InvalidDeliveryTag tag else QueueNotFound q)" and S' = s], unfold ack_spec_def Let_def)
      (use None in \<open>auto split: outcome.splits pelican_error.splits\<close>)
next
  case (Some v)
  let ?t = "inflight_tree_name q"
  let ?s = "s\<lparr>cont := (cont s)(?t := ot_remove (to_be_bytes (tag_u64 tag)) (cont s ?t)), used := sat_sub (used s) (of_nat (length v))\<rparr>"
  show ?thesis
    by (rule uniqueI [where R = "if q \<in> declared (cont s) then Ok () else Err (QueueNotFound q)"
          and S' = "if q \<in> declared (cont s) then ?s else s"], unfold ack_spec_def Let_def)
      (use Some in \<open>auto split: outcome.splits pelican_error.splits\<close>)
qed

lemma nack_unique:
  assumes wf: "wf_state B s" and id: "next_id s < 2 ^ 64"
  shows "unique (nack_spec False B q tag s)"
proof (cases "q \<in> declared (cont s)")
  case False
  show ?thesis
    by (rule uniqueI [where R = "Err (QueueNotFound q)" and S' = s], unfold nack_spec_def Let_def)
      (use False id in \<open>auto split: outcome.splits pelican_error.splits\<close>)
next
  case q: True
  show ?thesis
  proof (cases "map_of (cont s (inflight_tree_name q)) (to_be_bytes (tag_u64 tag))")
    case None
    show ?thesis
      by (rule uniqueI [where R = "Err (InvalidDeliveryTag tag)" and S' = "s\<lparr>next_id := Suc (next_id s)\<rparr>"], unfold nack_spec_def Let_def)
        (use None q id in \<open>auto simp: took_id_def split: outcome.splits pelican_error.splits\<close>)
  next
    case (Some v)
    obtain msg where de: "de_message B v = Inr msg"
      using wf_no_panic(3) [OF wf q] map_of_SomeD [OF Some] by (cases "de_message B v") fastforce+
    show ?thesis
      by (rule uniqueI [where R = "Ok ()" and S' = "s\<lparr>cont := put_back (cont s) q (reject_tree (policy_in B (cont s) q) q (bump msg))
            (to_be_bytes (tag_u64 tag)) (encode_key (priority msg) (of_nat (next_id s))) (projr (ser_message B (bump msg))),
            next_id := Suc (next_id s)\<rparr>"], unfold nack_spec_def Let_def)
        (use Some de q id in \<open>auto simp: took_id_def split: outcome.splits pelican_error.splits\<close>)
  qed
qed

inductive_cases requeues_NilE: "requeues f B src q [] s s'"
inductive_cases requeues_ConsE: "requeues f B src q (kv # xs) s s'"

lemma requeues_det: "requeues False B src q xs s s1 \<Longrightarrow> requeues False B src q xs s s2 \<Longrightarrow> s1 = s2"
proof (induction arbitrary: s2 rule: requeues.induct)
  case (requeues_Nil s)
  then show ?case by (auto elim: requeues_NilE)
next
  case (requeues_Cons s n' kv xs s')
  from requeues_Cons.prems obtain n2 where "took_id False (next_id s) n2"
    "requeues False B src q xs (s\<lparr>cont := requeue_one B src q kv (next_id s) (cont s), next_id := n2\<rparr>) s2"
    by (rule requeues_ConsE)
  moreover have "n2 = n'" if "took_id False (next_id s) n2" for n2
    using that requeues_Cons.hyps(1) by (simp add: took_id_def)
  ultimately show ?case using requeues_Cons.IH by blast
qed

lemma promote_unique:
  assumes wf: "wf_state B s" and ids: "next_id s + length (delayed (queue_of B (cont s) q)) \<le> 2 ^ 64"
  shows "unique (promote_spec False B now q s)"
proof (cases "q \<in> declared (cont s)")
  case False
  show ?thesis
    by (rule uniqueI [where R = "Err (QueueNotFound q)" and S' = s], unfold promote_spec_def Let_def)
      (use False in \<open>auto split: outcome.splits pelican_error.splits\<close>)
next
  case q: True
  let ?due = "takeWhile (is_due now) (cont s (scheduled_tree_name q))"
  have ok: "r = Ok (length ?due) \<and> requeues False B (Some (scheduled_tree_name q)) q ?due s s'"
    if sp: "promote_spec False B now q s r s'" for r s'
  proof -
    from promote_outcome [OF sp wf q ids] obtain n where "r = Ok n" ..
    with sp show ?thesis by (simp add: promote_spec_def Let_def)
  qed
  show ?thesis
  proof (cases "\<exists>r s'. promote_spec False B now q s r s'")
    case True
    then obtain r0 s0 where 0: "promote_spec False B now q s r0 s0" by blast
    show ?thesis by (rule uniqueI [where R = r0 and S' = s0]) (use ok ok [OF 0] requeues_det in metis)
  qed (simp add: unique_def)
qed

lemma retention_unique:
  assumes wf: "wf_state B s"
  shows "unique (retention_spec False B now q s)"
proof (cases "q \<in> declared (cont s)")
  case False
  show ?thesis
  proof (rule uniqueI [where R = "Err (QueueNotFound q)" and S' = s])
    fix r s' assume sp: "retention_spec False B now q s r s'"
    show "r = Err (QueueNotFound q) \<and> s' = s"
    proof (cases r)
      case (Err e)
      with sp False show ?thesis by (cases e) (auto simp: retention_spec_def Let_def)
    qed (use sp False in \<open>auto simp: retention_spec_def Let_def\<close>)
  qed
next
  case q: True
  let ?ys = "retained B now (policy_in B (cont s) q) (cont s q)"
  let ?n = "length (cont s q) - length ?ys"
  let ?V = "(cont s)(q := ?ys)"
  show ?thesis
  proof (rule uniqueI [where R = "Ok ?n" and S' = "s\<lparr>cont := ?V, used := if ?n = 0 then used s else of_nat (stored_bytes ?V)\<rparr>"])
    fix r s' assume sp: "retention_spec False B now q s r s'"
    from retention_outcome [OF sp wf q] obtain n where "r = Ok n" by blast
    with sp show "r = Ok ?n \<and> s' = s\<lparr>cont := ?V, used := if ?n = 0 then used s else of_nat (stored_bytes ?V)\<rparr>"
      by (auto simp: retention_spec_def Let_def)
  qed
qed

section \<open>Programs that agree\<close>

lemma agree_unique:
  assumes "wp c (\<lambda>r m'. P r (st m')) m1" "wp c (\<lambda>r m'. P r (st m')) m2" "unique P"
  shows "agree st c m1 m2"
  using assms unfolding wp_def agree_def unique_def by (auto simp: case_prod_beta)

lemma agree_bnd:
  assumes "agree st c m1 m2"
    and "\<And>a m1' m2'. c m1 = (Ok a, m1') \<Longrightarrow> c m2 = (Ok a, m2') \<Longrightarrow> st m1' = st m2' \<Longrightarrow> agree st (f a) m1' m2'"
  shows "agree st (bnd c f) m1 m2"
proof -
  obtain r1 s1 r2 s2 where c: "c m1 = (r1, s1)" "c m2 = (r2, s2)" by force
  with assms(1) have "r1 = r2" "st s1 = st s2" by (simp_all add: agree_def)
  with c assms(2) show ?thesis by (cases r1) (auto simp: agree_def bnd_def)
qed

lemma agree_attempt:
  assumes "agree st c m1 m2"
  shows "agree st (attempt c) m1 m2"
  using assms unfolding agree_def attempt_def by (auto simp: case_prod_beta split: outcome.splits)

lemma agree_ret: "st m1 = st m2 \<Longrightarrow> agree st (ret x) m1 m2"
  by (simp add: agree_def ret_def)

lemma agree_one: "agree st c m1 m2 \<Longrightarrow> agree st (bnd (attempt c) (\<lambda>r. ret (F r))) m1 m2"
  by (rule agree_bnd [OF agree_attempt]) (auto intro: agree_ret)

context engine
begin

lemma ops_agree:
  assumes nf: "\<not> faulty" and wf: "wf_state B (abs m1)" and eq: "abs m1 = abs m2"
  shows "agree abs (declare_queue_with_retention S B q P) m1 m2"
    and "nxt (mgr_db m1) < 2 ^ 64 \<Longrightarrow> agree abs (publish S B clk q msg) m1 m2"
    and "agree abs (consume S B q) m1 m2"
    and "agree abs (ack S q tag) m1 m2"
    and "nxt (mgr_db m1) < 2 ^ 64 \<Longrightarrow> agree abs (nack S B q tag) m1 m2"
    and "nxt (mgr_db m1) + length (delayed (queue_of B (view (mgr_db m1)) q)) \<le> 2 ^ 64 \<Longrightarrow>
      agree abs (promote_scheduled S B now q) m1 m2"
    and "agree abs (apply_retention S B now q) m1 m2"
proof -
  have f: "faulty = False" using nf by simp
  note u = agree_unique [where st = abs]
  show "agree abs (declare_queue_with_retention S B q P) m1 m2"
    using u [OF declare_refines declare_refines [of q P m2, folded eq]] declare_unique by (simp add: f)
  show "agree abs (publish S B clk q msg) m1 m2" if "nxt (mgr_db m1) < 2 ^ 64"
    using u [OF publish_refines publish_refines [of clk q msg m2, folded eq]] publish_unique [OF wf] that by (simp add: f)
  show "agree abs (consume S B q) m1 m2"
    using u [OF consume_refines consume_refines [of q m2, folded eq]] consume_unique [OF wf] by (simp add: f)
  show "agree abs (ack S q tag) m1 m2"
    using u [OF ack_refines ack_refines [of q tag m2, folded eq]] ack_unique by (simp add: f)
  show "agree abs (nack S B q tag) m1 m2" if "nxt (mgr_db m1) < 2 ^ 64"
    using u [OF nack_refines nack_refines [of q tag m2, folded eq]] nack_unique [OF wf] that by (simp add: f)
  show "agree abs (promote_scheduled S B now q) m1 m2"
    if "nxt (mgr_db m1) + length (delayed (queue_of B (view (mgr_db m1)) q)) \<le> 2 ^ 64"
    using u [OF promote_refines promote_refines [of now q m2, folded eq]] promote_unique [OF wf] that by (simp add: f)
  show "agree abs (apply_retention S B now q) m1 m2"
    using u [OF retention_refines retention_refines [of now q m2, folded eq]] retention_unique [OF wf] by (simp add: f)
qed

lemma publish_next:
  assumes nf: "\<not> faulty" and e: "publish S B clk q msg m = (r, m')"
  shows "nxt (mgr_db m') \<le> Suc (nxt (mgr_db m))"
proof -
  have "publish_spec False B clk q msg (abs m) r (abs m')" using wpD [OF publish_refines e] nf by simp
  then show ?thesis
    by (cases r) (auto simp: publish_spec_def Let_def took_id_def abs_state_eq split: publish_outcome.splits pelican_error.splits)
qed

lemma publish_batch_agree:
  assumes nf: "\<not> faulty" and "wf_state B (abs m1)" "abs m1 = abs m2" "nxt (mgr_db m1) + length msgs \<le> 2 ^ 64"
    "\<forall>i < length msgs. 0 \<le> sint (clk (k + i) 1)"
  shows "agree abs (publish_batch_loop S B clk q k os msgs) m1 m2"
  using assms(2-)
proof (induction msgs arbitrary: m1 m2 k os)
  case Nil
  then show ?case by (simp add: agree_ret)
next
  case (Cons msg msgs)
  have clk: "0 \<le> sint (clk k 1)" "\<forall>i < length msgs. 0 \<le> sint (clk (Suc k + i) 1)" using Cons.prems(4) by force+
  have one: "agree abs (publish S B (clk k) q msg) m1 m2"
    using ops_agree(2) [OF nf Cons.prems(1,2)] Cons.prems(3) by simp
  show ?case
    unfolding publish_batch_loop.simps
  proof (rule agree_bnd [OF agree_attempt [OF one]])
    fix r n1 n2 assume e: "attempt (publish S B (clk k) q msg) m1 = (Ok r, n1)" "abs n1 = abs n2"
    then obtain r0 where p: "publish S B (clk k) q msg m1 = (r0, n1)"
      by (auto simp: attempt_def split: prod.splits outcome.splits)
    have "wf_state B (abs n1)"
      using publish_wf [OF bincode_codec_axioms wpD [OF publish_refines p] Cons.prems(1) clk(1)] .
    moreover have "nxt (mgr_db n1) + length msgs \<le> 2 ^ 64"
      using publish_next [OF nf p] Cons.prems(3) by simp
    ultimately show "agree abs (case r of Inl e \<Rightarrow> ret (RespPublishBatch (Inl e))
      | Inr outcome \<Rightarrow> publish_batch_loop S B clk q (Suc k) (os @ [outcome]) msgs) n1 n2"
      using Cons.IH e(2) clk(2) by (auto intro!: agree_ret split: sum.splits)
  qed
qed

lemma consume_batch_agree:
  assumes nf: "\<not> faulty" and "wf_state B (abs m1)" "abs m1 = abs m2"
  shows "agree abs (consume_batch_loop S B q xs n) m1 m2"
  using assms(2-)
proof (induction n arbitrary: m1 m2 xs)
  case 0
  then show ?case by (simp add: agree_ret)
next
  case (Suc n)
  show ?case
    unfolding consume_batch_loop.simps
  proof (rule agree_bnd [OF agree_attempt [OF ops_agree(3) [OF nf Suc.prems]]])
    fix r n1 n2 assume e: "attempt (consume S B q) m1 = (Ok r, n1)" "abs n1 = abs n2"
    then obtain r0 where p: "consume S B q m1 = (r0, n1)"
      by (auto simp: attempt_def split: prod.splits outcome.splits)
    have "wf_state B (abs n1)" using consume_wf [OF wpD [OF consume_refines p] Suc.prems(1)] .
    then show "agree abs (case r of Inl e \<Rightarrow> ret (RespConsumeBatch (Inl e))
      | Inr None \<Rightarrow> ret (RespConsumeBatch (Inr xs))
      | Inr (Some pair) \<Rightarrow> consume_batch_loop S B q (xs @ [pair]) n) n1 n2"
      using Suc.IH e(2) by (auto intro!: agree_ret split: sum.splits option.splits)
  qed
qed

lemma apply_agree:
  assumes nf: "\<not> faulty" and wf: "wf_state B (abs m1)" and eq: "abs m1 = abs m2" and op: "legal_op clk op"
    and ids: "nxt (mgr_db m1) + op_ids B (view (mgr_db m1)) op \<le> 2 ^ 64"
  shows "agree abs (apply_operation S B clk op) m1 m2"
proof (cases op)
  case (OpDeclareQueue q P)
  have "agree abs (if P = RetentionPolicy_default then declare_queue S B q else declare_queue_with_retention S B q P) m1 m2"
    using ops_agree(1) [OF nf wf eq] by (simp add: declare_queue_def)
  then show ?thesis unfolding OpDeclareQueue apply_operation.simps by (rule agree_one)
next
  case (OpPublishBatch q msgs)
  then show ?thesis using publish_batch_agree [OF nf wf eq, of msgs clk 0] op ids by (simp add: list_all_iff)
next
  case (OpConsumeBatch q n)
  then show ?thesis using consume_batch_agree [OF nf wf eq] by simp
qed (use ids in \<open>auto intro!: agree_one ops_agree [OF nf wf eq]\<close>)

end

end
