(* ===== verification/Raft_Storage.thy ===== *)
theory Raft_Storage
  imports Replication
begin

text \<open>
  The persistent Raft storage of \<^verbatim>\<open>pelicanq-raft/src/storage.rs\<close>: the log, the votes, the applied
  state and the snapshots that \<^verbatim>\<open>openraft\<close> reads and writes.  The store holds its own database with
  the trees \<^verbatim>\<open>log\<close> and \<^verbatim>\<open>meta\<close>, the queue manager as the state machine, and the current snapshot
  in memory.  Each method of the trait is a program over \<^verbatim>\<open>raft_store\<close>, run under the store's
  lock.

  The types of \<^verbatim>\<open>openraft\<close> that the code only stores and returns are type variables (\<open>'m\<close> for a
  membership, \<open>'v\<close> for a vote); its \<^verbatim>\<open>serde_json\<close> encodings are the record \<^verbatim>\<open>raft_codec\<close> with the
  locale \<^verbatim>\<open>raft_json\<close>.
\<close>

section \<open>Data\<close>

record log_id =
  leader_term :: u64
  leader_node :: u64
  log_index :: u64

datatype 'm entry_payload = Blank | Normal queue_operation | Membership 'm

record 'm entry =
  entry_log_id :: log_id
  entry_payload :: "'m entry_payload"

type_synonym 'm stored_membership = "log_id option \<times> 'm"

record 'm snapshot_meta =
  last_log_id :: "log_id option"
  last_membership :: "'m stored_membership"
  snapshot_id :: string

record 'm stored_snapshot =
  ss_meta :: "'m snapshot_meta"
  ss_data :: bytes

record ('db, 'm) raft_store =
  rs_db :: 'db
  state_machine :: "'db manager"
  current_snapshot :: "'m stored_snapshot option"

datatype error_verb = VRead | VWrite
datatype storage_error = StorageErr error_verb string

type_synonym ('db, 'm, 'a) rprog = "(('db, 'm) raft_store, storage_error, 'a) prog"

record ('m, 'v) raft_codec =
  entry_to_vec :: "'m entry \<Rightarrow> string + bytes"
  entry_from_slice :: "bytes \<Rightarrow> string + 'm entry"
  logid_to_vec :: "log_id \<Rightarrow> string + bytes"
  logid_opt_to_vec :: "log_id option \<Rightarrow> string + bytes"
  logid_from_slice :: "bytes \<Rightarrow> string + log_id"
  vote_to_vec :: "'v \<Rightarrow> string + bytes"
  vote_from_slice :: "bytes \<Rightarrow> string + 'v"
  membership_to_vec :: "'m stored_membership \<Rightarrow> string + bytes"
  membership_from_slice :: "bytes \<Rightarrow> string + 'm stored_membership"
  u64_to_vec :: "u64 \<Rightarrow> string + bytes"
  show_leader_id :: "log_id \<Rightarrow> string"
  membership_default :: 'm

section \<open>Access to the databases\<close>

definition on_raft :: "('db, storage_error, 'a) prog \<Rightarrow> ('db, 'm, 'a) rprog" where
  "on_raft c s = (case c (rs_db s) of (r, d) \<Rightarrow> (r, s\<lparr>rs_db := d\<rparr>))"

definition on_state_machine :: "('db, 'a) mprog \<Rightarrow> ('db, 'm, 'a) rprog" where
  "on_state_machine c s =
     (case c (state_machine s) of
        (Ok a, m) \<Rightarrow> (Ok a, s\<lparr>state_machine := m\<rparr>)
      | (Err e, m) \<Rightarrow> (Err (StorageErr VWrite (pelican_error_to_string e)), s\<lparr>state_machine := m\<rparr>)
      | (Panic, m) \<Rightarrow> (Panic, s\<lparr>state_machine := m\<rparr>)
      | (Diverge, m) \<Rightarrow> (Diverge, s\<lparr>state_machine := m\<rparr>))"

definition LOG_TREE :: bytes where "LOG_TREE = ''log''"
definition META_TREE :: bytes where "META_TREE = ''meta''"

definition be64 :: "u64 \<Rightarrow> bytes" where
  "be64 index = to_be_bytes index"

definition raft_flush :: "'db sled \<Rightarrow> ('db, 'm, unit) rprog" where
  "raft_flush S = on_raft (db_flush (StorageErr VWrite) S)"

definition meta_set :: "'db sled \<Rightarrow> string \<Rightarrow> string + bytes \<Rightarrow> ('db, 'm, unit) rprog" where
  "meta_set S key value =
     (case value of
        Inl e \<Rightarrow> throw (StorageErr VWrite e)
      | Inr data \<Rightarrow>
          bnd (on_raft (db_insert (StorageErr VWrite) S META_TREE key data)) (\<lambda>_. raft_flush S))"

definition meta_get_single :: "'db sled \<Rightarrow> (bytes \<Rightarrow> string + 'a) \<Rightarrow> string \<Rightarrow> ('db, 'm, 'a option) rprog" where
  "meta_get_single S from_slice key =
     bnd (on_raft (db_get (StorageErr VRead) S META_TREE key)) (\<lambda>r.
     case r of
       Some val \<Rightarrow> (case from_slice val of Inl e \<Rightarrow> throw (StorageErr VRead e) | Inr t \<Rightarrow> ret (Some t))
     | None \<Rightarrow> ret None)"

definition open_raft_store ::
    "'db sled \<Rightarrow> bincode \<Rightarrow> string + 'db \<Rightarrow> string + 'db \<Rightarrow> (pelican_error, ('db, 'm) raft_store) outcome" where
  "open_raft_store S B opened raft_opened =
     (case open_manager S B opened None of
        (Ok _, Some qm) \<Rightarrow>
          (case raft_opened of
             Inl e \<Rightarrow> Err (Storage e)
           | Inr d \<Rightarrow>
               (case bnd (db_open_tree Storage S LOG_TREE) (\<lambda>_. db_open_tree Storage S META_TREE) d of
                  (Ok _, d') \<Rightarrow> Ok \<lparr>rs_db = d', state_machine = qm, current_snapshot = None\<rparr>
                | (Err e, _) \<Rightarrow> Err e
                | (Panic, _) \<Rightarrow> Panic
                | (Diverge, _) \<Rightarrow> Diverge))
      | (Err e, _) \<Rightarrow> Err e
      | (Diverge, _) \<Rightarrow> Diverge
      | (_, _) \<Rightarrow> Panic)"

text \<open>
  \<^verbatim>\<open>start_node\<close> of \<^verbatim>\<open>lib.rs\<close>: the timing configuration, the store, and the Raft node over it.  The validation of the
  configuration and \<^verbatim>\<open>Raft::new\<close> are openraft's; the RPC server it spawns is \<^verbatim>\<open>Raft_Network\<close>.
\<close>

record raft_config =
  heartbeat_interval :: u64
  election_timeout_min :: u64
  election_timeout_max :: u64

definition node_raft_config :: raft_config where
  "node_raft_config = \<lparr>heartbeat_interval = 250, election_timeout_min = 750, election_timeout_max = 1500\<rparr>"

definition start_node ::
    "'db sled \<Rightarrow> bincode \<Rightarrow> (raft_config \<Rightarrow> bool) \<Rightarrow>
       (u64 \<Rightarrow> raft_config \<Rightarrow> ('db, 'm) raft_store \<Rightarrow> string + 'raft) \<Rightarrow> u64 \<Rightarrow> string + 'db \<Rightarrow> string + 'db \<Rightarrow>
       (string, 'raft \<times> ('db, 'm) raft_store) outcome" where
  "start_node S B valid new_raft node_id opened raft_opened =
     (if \<not> valid node_raft_config then Panic
      else
        (case open_raft_store S B opened raft_opened of
           Ok store \<Rightarrow>
             (case new_raft node_id node_raft_config store of
                Inr raft \<Rightarrow> Ok (raft, store)
              | Inl e \<Rightarrow> Err e)
         | Err e \<Rightarrow> Err (pelican_error_to_string e)
         | Panic \<Rightarrow> Panic
         | Diverge \<Rightarrow> Diverge))"

section \<open>The log\<close>

datatype bound = Included u64 | Excluded u64 | Unbounded

definition sat_add1 :: "u64 \<Rightarrow> u64" where
  "sat_add1 i = (if i = - 1 then - 1 else i + 1)"

fun start_bound :: "bound \<Rightarrow> u64" where
  "start_bound (Included i) = i"
| "start_bound (Excluded i) = sat_add1 i"
| "start_bound Unbounded = 0"

fun end_bound :: "bound \<Rightarrow> u64" where
  "end_bound (Included i) = sat_add1 i"
| "end_bound (Excluded i) = i"
| "end_bound Unbounded = - 1"

fun decode_log :: "('m, 'v) raft_codec \<Rightarrow> (string + bytes \<times> bytes) list \<Rightarrow> ('db, 'm, 'm entry list) rprog" where
  "decode_log J [] = ret []"
| "decode_log J (Inl e # es) = throw (StorageErr VRead e)"
| "decode_log J (Inr (_, value) # es) =
     (case entry_from_slice J value of
        Inl e \<Rightarrow> throw (StorageErr VRead e)
      | Inr entry \<Rightarrow> bnd (decode_log J es) (\<lambda>entries. ret (entry # entries)))"

definition try_get_log_entries ::
    "'db sled \<Rightarrow> ('m, 'v) raft_codec \<Rightarrow> bound \<Rightarrow> bound \<Rightarrow> ('db, 'm, 'm entry list) rprog" where
  "try_get_log_entries S J lo hi =
     (let start_u64 = start_bound lo; end_u64 = end_bound hi in
      if end_u64 \<le> start_u64 then ret []
      else bnd (on_raft (db_range S LOG_TREE (be64 start_u64) False (be64 end_u64))) (decode_log J))"

definition get_log_state ::
    "'db sled \<Rightarrow> ('m, 'v) raft_codec \<Rightarrow> ('db, 'm, log_id option \<times> log_id option) rprog" where
  "get_log_state S J =
     bnd (meta_get_single S (logid_from_slice J) ''last_purged'') (\<lambda>last_purged.
     bnd (on_raft (db_last (StorageErr VRead) S LOG_TREE)) (\<lambda>l.
     case l of
       Some (_, value) \<Rightarrow>
         (case entry_from_slice J value of
            Inl e \<Rightarrow> throw (StorageErr VRead e)
          | Inr entry \<Rightarrow> ret (last_purged, Some (entry_log_id entry)))
     | None \<Rightarrow> ret (last_purged, last_purged)))"

definition save_vote :: "'db sled \<Rightarrow> ('m, 'v) raft_codec \<Rightarrow> 'v \<Rightarrow> ('db, 'm, unit) rprog" where
  "save_vote S J vote = meta_set S ''vote'' (vote_to_vec J vote)"

definition read_vote :: "'db sled \<Rightarrow> ('m, 'v) raft_codec \<Rightarrow> ('db, 'm, 'v option) rprog" where
  "read_vote S J = meta_get_single S (vote_from_slice J) ''vote''"

fun append_loop :: "'db sled \<Rightarrow> ('m, 'v) raft_codec \<Rightarrow> 'm entry list \<Rightarrow> ('db, 'm, unit) rprog" where
  "append_loop S J [] = ret ()"
| "append_loop S J (entry # entries) =
     (case entry_to_vec J entry of
        Inl e \<Rightarrow> throw (StorageErr VWrite e)
      | Inr value \<Rightarrow>
          bnd (on_raft (db_insert (StorageErr VWrite) S LOG_TREE (be64 (log_index (entry_log_id entry))) value)) (\<lambda>_.
          append_loop S J entries))"

definition append_to_log :: "'db sled \<Rightarrow> ('m, 'v) raft_codec \<Rightarrow> 'm entry list \<Rightarrow> ('db, 'm, unit) rprog" where
  "append_to_log S J entries = bnd (append_loop S J entries) (\<lambda>_. raft_flush S)"

fun collect_keys :: "(string + bytes \<times> bytes) list \<Rightarrow> ('db, 'm, bytes list) rprog" where
  "collect_keys [] = ret []"
| "collect_keys (Inl e # es) = throw (StorageErr VWrite e)"
| "collect_keys (Inr (k, _) # es) = bnd (collect_keys es) (\<lambda>ks. ret (k # ks))"

definition remove_log :: "'db sled \<Rightarrow> bytes \<Rightarrow> bytes \<Rightarrow> ('db, 'm, unit) rprog" where
  "remove_log S start_key end_key =
     bnd (on_raft (db_range S LOG_TREE start_key True end_key)) (\<lambda>es.
     bnd (collect_keys es) (\<lambda>ks.
     for_each (\<lambda>key. bnd (on_raft (db_remove (StorageErr VWrite) S LOG_TREE key)) (\<lambda>_. ret ())) ks))"

definition delete_conflict_logs_since :: "'db sled \<Rightarrow> log_id \<Rightarrow> ('db, 'm, unit) rprog" where
  "delete_conflict_logs_since S lid =
     bnd (remove_log S (be64 (log_index lid)) (be64 (- 1))) (\<lambda>_. raft_flush S)"

definition purge_logs_upto :: "'db sled \<Rightarrow> ('m, 'v) raft_codec \<Rightarrow> log_id \<Rightarrow> ('db, 'm, unit) rprog" where
  "purge_logs_upto S J lid =
     bnd (remove_log S (be64 0) (be64 (log_index lid))) (\<lambda>_.
     bnd (meta_set S ''last_purged'' (logid_to_vec J lid)) (\<lambda>_. raft_flush S))"

section \<open>The state machine\<close>

definition read_membership :: "'db sled \<Rightarrow> ('m, 'v) raft_codec \<Rightarrow> ('db, 'm, 'm stored_membership) rprog" where
  "read_membership S J =
     bnd (meta_get_single S (membership_from_slice J) ''last_membership'') (\<lambda>r.
     ret (case r of None \<Rightarrow> (None, membership_default J) | Some mem \<Rightarrow> mem))"

definition last_applied_state ::
    "'db sled \<Rightarrow> ('m, 'v) raft_codec \<Rightarrow> ('db, 'm, log_id option \<times> 'm stored_membership) rprog" where
  "last_applied_state S J =
     bnd (meta_get_single S (logid_from_slice J) ''last_applied'') (\<lambda>last_applied.
     bnd (read_membership S J) (\<lambda>last_membership. ret (last_applied, last_membership)))"

definition apply_entry ::
    "'db sled \<Rightarrow> bincode \<Rightarrow> ('m, 'v) raft_codec \<Rightarrow> (nat \<Rightarrow> nat \<Rightarrow> i64) \<Rightarrow> 'm entry \<Rightarrow>
       ('db, 'm, queue_operation_response) rprog" where
  "apply_entry S B J clk entry =
     bnd (case entry_payload entry of
            Blank \<Rightarrow> ret (RespAck (Inr ()))
          | Normal op \<Rightarrow> on_state_machine (apply_operation S B clk op)
          | Membership mem \<Rightarrow>
              bnd (meta_set S ''last_membership'' (membership_to_vec J (Some (entry_log_id entry), mem))) (\<lambda>_.
              ret (RespAck (Inr ())))) (\<lambda>qm_resp.
     bnd (meta_set S ''last_applied'' (logid_to_vec J (entry_log_id entry))) (\<lambda>_. ret qm_resp))"

fun apply_to_state_machine ::
    "'db sled \<Rightarrow> bincode \<Rightarrow> ('m, 'v) raft_codec \<Rightarrow> (nat \<Rightarrow> nat \<Rightarrow> nat \<Rightarrow> i64) \<Rightarrow> 'm entry list \<Rightarrow>
       ('db, 'm, queue_operation_response list) rprog" where
  "apply_to_state_machine S B J clk [] = ret []"
| "apply_to_state_machine S B J clk (entry # entries) =
     bnd (apply_entry S B J (clk 0) entry) (\<lambda>qm_resp.
     bnd (apply_to_state_machine S B J (\<lambda>n. clk (Suc n)) entries) (\<lambda>resps. ret (qm_resp # resps)))"

section \<open>Snapshots\<close>

definition next_snapshot_idx :: "bytes option \<Rightarrow> ('db, 'm, u64) rprog" where
  "next_snapshot_idx idx_bytes =
     (case idx_bytes of
        Some v \<Rightarrow> if length v < 8 then panic else ret (from_be_bytes (take 8 v) + 1)
      | None \<Rightarrow> ret (0 + 1))"

definition snapshot_name :: "('m, 'v) raft_codec \<Rightarrow> log_id option \<Rightarrow> u64 \<Rightarrow> string" where
  "snapshot_name J last_applied snapshot_idx =
     (case last_applied of
        Some lid \<Rightarrow> show_leader_id J lid @ ''-'' @ show_nat (unat (log_index lid)) @ ''-'' @ show_nat (unat snapshot_idx)
      | None \<Rightarrow> ''--'' @ show_nat (unat snapshot_idx))"

definition raft_build_snapshot ::
    "'db sled \<Rightarrow> bincode \<Rightarrow> snapshot_codec \<Rightarrow> ('m, 'v) raft_codec \<Rightarrow> ('db, 'm, 'm stored_snapshot) rprog" where
  "raft_build_snapshot S B JS J =
     bnd (on_state_machine (build_snapshot S B JS)) (\<lambda>data.
     bnd (meta_get_single S (logid_from_slice J) ''last_applied'') (\<lambda>last_applied.
     bnd (read_membership S J) (\<lambda>last_membership.
     bnd (on_raft (db_get (StorageErr VRead) S META_TREE ''snapshot_idx'')) (\<lambda>idx_bytes.
     bnd (next_snapshot_idx idx_bytes) (\<lambda>snapshot_idx.
     bnd (meta_set S ''snapshot_idx'' (u64_to_vec J snapshot_idx)) (\<lambda>_.
     let meta = \<lparr>last_log_id = last_applied, last_membership = last_membership,
                 snapshot_id = snapshot_name J last_applied snapshot_idx\<rparr>;
         snap = \<lparr>ss_meta = meta, ss_data = data\<rparr>
     in bnd (modify (\<lambda>s. s\<lparr>current_snapshot := Some snap\<rparr>)) (\<lambda>_. ret snap)))))))"

definition raft_install_snapshot ::
    "'db sled \<Rightarrow> bincode \<Rightarrow> snapshot_codec \<Rightarrow> ('m, 'v) raft_codec \<Rightarrow> (nat \<Rightarrow> i64) \<Rightarrow> 'm snapshot_meta \<Rightarrow> bytes \<Rightarrow>
       ('db, 'm, unit) rprog" where
  "raft_install_snapshot S B JS J clk meta data =
     bnd (on_state_machine (install_snapshot S B JS clk data)) (\<lambda>_.
     bnd (meta_set S ''last_applied'' (logid_opt_to_vec J (last_log_id meta))) (\<lambda>_.
     bnd (meta_set S ''last_membership'' (membership_to_vec J (last_membership meta))) (\<lambda>_.
     bnd (modify (\<lambda>s. s\<lparr>current_snapshot := Some \<lparr>ss_meta = meta, ss_data = data\<rparr>\<rparr>)) (\<lambda>_.
     raft_flush S))))"

definition get_current_snapshot :: "('db, 'm, 'm stored_snapshot option) rprog" where
  "get_current_snapshot = gets current_snapshot"

section \<open>The encodings\<close>

text \<open>
  \<^verbatim>\<open>serde_json\<close> writes and reads back every value; an \<^verbatim>\<open>Option\<close> is written as its content or as
  \<^verbatim>\<open>null\<close>, which is not a log id; a \<^verbatim>\<open>u64\<close> is written in decimal.
\<close>

locale raft_json =
  fixes J :: "('m, 'v) raft_codec"
  assumes entry_total: "\<exists>b. entry_to_vec J e = Inr b"
    and entry_roundtrip: "entry_to_vec J e = Inr b \<Longrightarrow> entry_from_slice J b = Inr e"
    and logid_total: "\<exists>b. logid_to_vec J l = Inr b"
    and logid_roundtrip: "logid_to_vec J l = Inr b \<Longrightarrow> logid_from_slice J b = Inr l"
    and logid_some: "logid_opt_to_vec J (Some l) = logid_to_vec J l"
    and logid_none: "logid_opt_to_vec J None = Inr ''null''"
    and null_logid: "isl (logid_from_slice J ''null'')"
    and vote_total: "\<exists>b. vote_to_vec J v = Inr b"
    and vote_roundtrip: "vote_to_vec J v = Inr b \<Longrightarrow> vote_from_slice J b = Inr v"
    and membership_total: "\<exists>b. membership_to_vec J mem = Inr b"
    and membership_roundtrip: "membership_to_vec J mem = Inr b \<Longrightarrow> membership_from_slice J b = Inr mem"
    and u64_decimal: "u64_to_vec J n = Inr (show_nat (unat n))"

section \<open>Abstract state\<close>

definition log_entries :: "('m, 'v) raft_codec \<Rightarrow> contents \<Rightarrow> 'm entry list" where
  "log_entries J V = map (\<lambda>kv. projr (entry_from_slice J (snd kv))) (V LOG_TREE)"

definition wf_log :: "('m, 'v) raft_codec \<Rightarrow> contents \<Rightarrow> bool" where
  "wf_log J V \<longleftrightarrow> (\<forall>kv \<in> set (V LOG_TREE). \<exists>e. entry_from_slice J (snd kv) = Inr e \<and>
     fst kv = be64 (log_index (entry_log_id e)))"

abbreviation entry_index :: "'m entry \<Rightarrow> u64" where
  "entry_index e \<equiv> log_index (entry_log_id e)"

text \<open>Writing one entry into a log in order of index, replacing the entry of that index.\<close>

fun log_put :: "'m entry \<Rightarrow> 'm entry list \<Rightarrow> 'm entry list" where
  "log_put e [] = [e]"
| "log_put e (x # xs) =
     (if entry_index e < entry_index x then e # x # xs
      else if entry_index e = entry_index x then e # xs
      else x # log_put e xs)"

section \<open>Reading and writing on a healthy database\<close>

lemma wp_on_raft [wp_simps]: "wp (on_raft c) Q s = wp c (\<lambda>r d. Q r (s\<lparr>rs_db := d\<rparr>)) (rs_db s)"
  by (simp add: wp_def on_raft_def split: prod.splits)

lemma be64_simps [simp]: "be64 i < be64 j \<longleftrightarrow> i < j" "be64 i = be64 j \<longleftrightarrow> i = j" "be64 i \<le> be64 j \<longleftrightarrow> i \<le> j"
  by (auto simp: be64_def simp flip: not_less)

lemma log_tree_neq [simp]: "LOG_TREE \<noteq> META_TREE" "META_TREE \<noteq> LOG_TREE"
  by (simp_all add: LOG_TREE_def META_TREE_def)

lemma log_cong:
  assumes "V LOG_TREE = V' LOG_TREE"
  shows "wf_log J V = wf_log J V'" "log_entries J V = log_entries J V'"
  using assms by (simp_all add: wf_log_def log_entries_def)

text \<open>The contents of the log and of one key of the meta tree.\<close>

lemma log_put_insert:
  assumes "\<forall>kv \<in> set xs. \<exists>x. entry_from_slice J (snd kv) = Inr x \<and> fst kv = be64 (entry_index x)"
    and "entry_from_slice J b = Inr e"
  shows "map (\<lambda>kv. projr (entry_from_slice J (snd kv))) (ot_insert (be64 (entry_index e)) b xs) =
     log_put e (map (\<lambda>kv. projr (entry_from_slice J (snd kv))) xs)"
  using assms by (induction xs) fastforce+

lemma log_put_index: "set (map entry_index (log_put e xs)) = insert (entry_index e) (set (map entry_index xs))"
  by (induction xs) auto

lemma log_put_sorted:
  "sorted_wrt (<) (map entry_index xs) \<Longrightarrow> sorted_wrt (<) (map entry_index (log_put e xs))"
proof (induction xs)
  case (Cons x xs)
  then have "\<forall>y \<in> set (map entry_index (log_put e xs)). entry_index x < y"
    if "\<not> entry_index e < entry_index x" "entry_index e \<noteq> entry_index x"
    using that unfolding log_put_index by auto
  with Cons show ?case by auto
qed simp

lemma log_put_set:
  "sorted_wrt (<) (map entry_index xs) \<Longrightarrow> set (log_put e xs) = insert e {x \<in> set xs. entry_index x \<noteq> entry_index e}"
  by (induction xs) (auto simp: less_le)

locale raft_log = sled_store + raft_json
begin

lemma wp_meta_set:
  assumes "\<not> faulty" "value = Inr data"
    and "\<And>d. view d = (view (rs_db s))(META_TREE := ot_insert key data (view (rs_db s) META_TREE)) \<Longrightarrow> nxt d = nxt (rs_db s) \<Longrightarrow>
       Q (Ok ()) (s\<lparr>rs_db := d\<rparr>)"
  shows "wp (meta_set S key value) Q s"
  unfolding meta_set_def raft_flush_def using assms by (auto simp: wp_simps intro!: wp_rules)

lemma wp_meta_get:
  assumes "\<not> faulty"
    and "case map_of (view (rs_db s) META_TREE) key of
       None \<Rightarrow> Q (Ok None) s
     | Some b \<Rightarrow> (case from_slice b of Inl e \<Rightarrow> Q (Err (StorageErr VRead e)) s | Inr x \<Rightarrow> Q (Ok (Some x)) s)"
  shows "wp (meta_get_single S from_slice key) Q s"
  unfolding meta_get_single_def using assms by (auto simp: wp_simps intro!: wp_rules split: option.splits sum.splits)

lemma log_entries_sorted: "wf_log J (view d) \<Longrightarrow> sorted_wrt (<) (map entry_index (log_entries J (view d)))"
proof -
  assume wf: "wf_log J (view d)"
  have "sorted_wrt (<) (map entry_index (map (\<lambda>kv. projr (entry_from_slice J (snd kv))) xs))"
    if "ot_sorted xs" "\<forall>kv \<in> set xs. \<exists>e. entry_from_slice J (snd kv) = Inr e \<and> fst kv = be64 (entry_index e)" for xs
    using that
  proof (induction xs)
    case (Cons kv xs)
    obtain k v where kv: "kv = (k, v)" by force
    from Cons.prems(2) kv obtain e where e: "entry_from_slice J v = Inr e" "k = be64 (entry_index e)" by auto
    have "entry_index e < entry_index (projr (entry_from_slice J v'))" if "(k', v') \<in> set xs" for k' v'
    proof -
      from Cons.prems(2) that obtain e' where "entry_from_slice J v' = Inr e'" "k' = be64 (entry_index e')" by fastforce
      moreover have "k < k'" using Cons.prems(1) that kv by (auto simp: ot_simps)
      ultimately show ?thesis using e by simp
    qed
    with Cons e show ?case by (auto simp: kv ot_simps)
  qed simp
  from this [OF view_sorted] wf show ?thesis by (simp add: log_entries_def wf_log_def)
qed

lemma append_loop_wp:
  assumes nf: "\<not> faulty" and "wf_log J (view (rs_db s))"
  shows "wp (append_loop S J es) (\<lambda>r s'. r = Ok () \<and> wf_log J (view (rs_db s')) \<and>
     log_entries J (view (rs_db s')) = foldl (\<lambda>l e. log_put e l) (log_entries J (view (rs_db s))) es \<and>
     view (rs_db s') META_TREE = view (rs_db s) META_TREE \<and>
     state_machine s' = state_machine s \<and> current_snapshot s' = current_snapshot s) s"
  using assms(2)
proof (induction es arbitrary: s)
  case (Cons e es)
  obtain b where ser: "entry_to_vec J e = Inr b" using entry_total by blast
  have de: "entry_from_slice J b = Inr e" using entry_roundtrip [OF ser] .
  show ?case
    unfolding append_loop.simps ser sum.case wp_bnd wp_on_raft
  proof (rule wp_insert, goal_cases)
    case (2 d)
    let ?s = "s\<lparr>rs_db := d\<rparr>"
    have wf: "wf_log J (view (rs_db ?s))"
      using Cons.prems de unfolding wf_log_def by (auto simp: 2 dest!: in_ot_insert)
    have le: "log_entries J (view (rs_db ?s)) = log_put e (log_entries J (view (rs_db s)))"
      using log_put_insert [OF _ de, of "view (rs_db s) LOG_TREE"] Cons.prems by (simp add: log_entries_def 2 wf_log_def)
    have me: "view (rs_db ?s) META_TREE = view (rs_db s) META_TREE" by (simp add: 2)
    show ?case using Cons.IH [OF wf, unfolded le me] by simp
  qed (use nf in simp)
qed (simp add: wp_simps)

lemma append_to_log_wp:
  assumes nf: "\<not> faulty" and wf: "wf_log J (view (rs_db s))"
  shows "wp (append_to_log S J es) (\<lambda>r s'. r = Ok () \<and> wf_log J (view (rs_db s')) \<and>
     log_entries J (view (rs_db s')) = foldl (\<lambda>l e. log_put e l) (log_entries J (view (rs_db s))) es \<and>
     view (rs_db s') META_TREE = view (rs_db s) META_TREE \<and>
     state_machine s' = state_machine s \<and> current_snapshot s' = current_snapshot s) s"
  unfolding append_to_log_def wp_bnd raft_flush_def
  by (rule wp_mono [OF append_loop_wp [OF nf wf]])
    (use nf in \<open>auto simp: wp_simps log_entries_def wf_log_def intro!: wp_rules\<close>)

lemma decode_log_wp:
  assumes "\<forall>kv \<in> set xs. \<not> isl (entry_from_slice J (snd kv))"
  shows "wp (decode_log J (map Inr xs)) (\<lambda>r s'. s' = s \<and> r = Ok (map (\<lambda>kv. projr (entry_from_slice J (snd kv))) xs)) s"
  using assms
proof (induction xs)
  case (Cons kv xs)
  obtain k v where kv: "kv = (k, v)" by force
  with Cons.prems obtain e where e: "entry_from_slice J v = Inr e" by (cases "entry_from_slice J v") auto
  have "wp (decode_log J (map Inr xs)) (\<lambda>r s'. s' = s \<and> r = Ok (map (\<lambda>kv. projr (entry_from_slice J (snd kv))) xs)) s"
    using Cons by simp
  then show ?case by (simp add: kv e wp_bnd) (erule wp_mono, auto simp: wp_simps e)
qed (simp add: wp_simps)

lemma filter_range:
  assumes "\<forall>kv \<in> set xs. \<exists>e. entry_from_slice J (snd kv) = Inr e \<and> fst kv = be64 (entry_index e)"
  shows "map (\<lambda>kv. projr (entry_from_slice J (snd kv))) (filter (in_range (be64 a) incl (be64 b)) xs) =
     filter (\<lambda>e. a \<le> entry_index e \<and> (if incl then entry_index e \<le> b else entry_index e < b))
       (map (\<lambda>kv. projr (entry_from_slice J (snd kv))) xs)"
  using assms by (induction xs) (auto simp: in_range_def)

lemma try_get_wp:
  assumes nf: "\<not> faulty" and wf: "wf_log J (view (rs_db s))"
  shows "wp (try_get_log_entries S J lo hi) (\<lambda>r s'. s' = s \<and>
     r = Ok (filter (\<lambda>e. start_bound lo \<le> entry_index e \<and> entry_index e < end_bound hi) (log_entries J (view (rs_db s))))) s"
proof (cases "end_bound hi \<le> start_bound lo")
  case True
  then have "filter (\<lambda>e. start_bound lo \<le> entry_index e \<and> entry_index e < end_bound hi) (log_entries J (view (rs_db s))) = []"
    by (auto simp: filter_empty_conv)
  with True show ?thesis by (simp add: try_get_log_entries_def wp_simps)
next
  case False
  let ?xs = "filter (in_range (be64 (start_bound lo)) False (be64 (end_bound hi))) (view (rs_db s) LOG_TREE)"
  have ok: "\<forall>kv \<in> set ?xs. \<not> isl (entry_from_slice J (snd kv))" using wf by (auto simp: wf_log_def)
  have "map (\<lambda>kv. projr (entry_from_slice J (snd kv))) ?xs =
      filter (\<lambda>e. start_bound lo \<le> entry_index e \<and> entry_index e < end_bound hi) (log_entries J (view (rs_db s)))"
    using filter_range [of "view (rs_db s) LOG_TREE" "start_bound lo" False "end_bound hi"] wf
    by (simp add: log_entries_def wf_log_def)
  with decode_log_wp [OF ok, of s] False nf show ?thesis
    unfolding try_get_log_entries_def Let_def
    by (auto simp: wp_simps entries_ok_healthy intro!: wp_range)
qed

lemma collect_keys_wp:
  "wp (collect_keys (map Inr xs)) (\<lambda>r s'. s' = s \<and> r = Ok (keys xs)) s"
proof (induction xs)
  case (Cons kv xs)
  obtain k v where kv: "kv = (k, v)" by force
  from Cons show ?case by (simp add: kv wp_bnd) (erule wp_mono, auto simp: wp_simps)
qed (simp add: wp_simps)

lemma remove_keys_loop_wp:
  assumes nf: "\<not> faulty"
  shows "wp (for_each (\<lambda>key. bnd (on_raft (db_remove (StorageErr VWrite) S LOG_TREE key)) (\<lambda>_. ret ())) ks)
     (\<lambda>r s'. r = Ok () \<and> view (rs_db s') = (view (rs_db s))(LOG_TREE := without ks (view (rs_db s) LOG_TREE)) \<and>
        state_machine s' = state_machine s \<and> current_snapshot s' = current_snapshot s) s"
proof (induction ks arbitrary: s)
  case (Cons k ks)
  have wo: "without ks (ot_remove k xs) = without (k # ks) xs" for xs
    by (auto simp: without_def ot_remove_def)
  show ?case
    unfolding for_each.simps wp_bnd wp_on_raft
  proof (rule wp_remove, goal_cases)
    case (2 d)
    have eq: "(view d)(LOG_TREE := without ks (view d LOG_TREE)) =
        (view (rs_db s))(LOG_TREE := without (k # ks) (view (rs_db s) LOG_TREE))"
      unfolding 2 by (simp add: wo)
    from Cons.IH [of "s\<lparr>rs_db := d\<rparr>"] show ?case
      unfolding eq [symmetric] by (simp add: wp_simps fun_upd_def)
  qed (use nf in simp)
qed (simp add: wp_simps)

lemma remove_log_wp:
  assumes nf: "\<not> faulty" and wf: "wf_log J (view (rs_db s))"
  shows "wp (remove_log S (be64 a) (be64 b)) (\<lambda>r s'. r = Ok () \<and> wf_log J (view (rs_db s')) \<and>
     log_entries J (view (rs_db s')) = filter (\<lambda>e. \<not> (a \<le> entry_index e \<and> entry_index e \<le> b)) (log_entries J (view (rs_db s))) \<and>
     view (rs_db s') META_TREE = view (rs_db s) META_TREE \<and>
     state_machine s' = state_machine s \<and> current_snapshot s' = current_snapshot s) s"
proof -
  let ?xs = "view (rs_db s) LOG_TREE"
  let ?P = "in_range (be64 a) True (be64 b)"
  have wo: "without (keys (filter ?P ?xs)) ?xs = filter (\<lambda>kv. \<not> ?P kv) ?xs"
    using without_filter [of ?xs ?P] ot_sorted_distinct [OF view_sorted] by blast
  have fe: "map (\<lambda>kv. projr (entry_from_slice J (snd kv))) (filter (\<lambda>kv. \<not> ?P kv) xs) =
      filter (\<lambda>e. \<not> (a \<le> entry_index e \<and> entry_index e \<le> b)) (map (\<lambda>kv. projr (entry_from_slice J (snd kv))) xs)"
    if "\<forall>kv \<in> set xs. \<exists>e. entry_from_slice J (snd kv) = Inr e \<and> fst kv = be64 (entry_index e)" for xs
    using that by (induction xs) (auto simp: in_range_def)
  have "wp (bnd (collect_keys (map Inr (filter ?P ?xs)))
      (for_each (\<lambda>key. bnd (on_raft (db_remove (StorageErr VWrite) S LOG_TREE key)) (\<lambda>_. ret ()))))
     (\<lambda>r s'. r = Ok () \<and> view (rs_db s') = (view (rs_db s))(LOG_TREE := filter (\<lambda>kv. \<not> ?P kv) ?xs) \<and>
        state_machine s' = state_machine s \<and> current_snapshot s' = current_snapshot s) s"
    unfolding wp_bnd
    by (rule wp_mono [OF collect_keys_wp])
      (use remove_keys_loop_wp [OF nf, of "keys (filter ?P ?xs)" s] wo in simp)
  then have "wp (remove_log S (be64 a) (be64 b))
     (\<lambda>r s'. r = Ok () \<and> view (rs_db s') = (view (rs_db s))(LOG_TREE := filter (\<lambda>kv. \<not> ?P kv) ?xs) \<and>
        state_machine s' = state_machine s \<and> current_snapshot s' = current_snapshot s) s"
    unfolding remove_log_def wp_bnd [of "on_raft c" for c] wp_on_raft
    using nf by (auto simp: entries_ok_healthy intro!: wp_range)
  then show ?thesis
    by (rule wp_mono) (use wf fe [of ?xs] in \<open>auto simp: wf_log_def log_entries_def\<close>)
qed

lemma flush_wp:
  assumes "\<not> faulty" "\<And>d. view d = view (rs_db s) \<Longrightarrow> Q (Ok ()) (s\<lparr>rs_db := d\<rparr>)"
  shows "wp (raft_flush S) Q s"
  unfolding raft_flush_def using assms by (auto simp: wp_simps intro!: wp_rules)

lemma delete_conflict_wp:
  assumes nf: "\<not> faulty" and wf: "wf_log J (view (rs_db s))"
  shows "wp (delete_conflict_logs_since S lid) (\<lambda>r s'. r = Ok () \<and> wf_log J (view (rs_db s')) \<and>
     log_entries J (view (rs_db s')) = filter (\<lambda>e. entry_index e < log_index lid) (log_entries J (view (rs_db s))) \<and>
     view (rs_db s') META_TREE = view (rs_db s) META_TREE) s"
proof -
  have "\<not> (log_index lid \<le> i \<and> i \<le> - 1) \<longleftrightarrow> i < log_index lid" for i :: u64
    by (auto simp: not_le)
  then show ?thesis
    unfolding delete_conflict_logs_since_def wp_bnd
    by (intro wp_mono [OF remove_log_wp [OF nf wf]])
      (auto simp: log_entries_def wf_log_def intro!: flush_wp [OF nf])
qed

lemma purge_wp:
  assumes nf: "\<not> faulty" and wf: "wf_log J (view (rs_db s))"
  shows "wp (purge_logs_upto S J lid) (\<lambda>r s'. r = Ok () \<and> wf_log J (view (rs_db s')) \<and>
     log_entries J (view (rs_db s')) = filter (\<lambda>e. log_index lid < entry_index e) (log_entries J (view (rs_db s))) \<and>
     (\<exists>b. logid_to_vec J lid = Inr b \<and> view (rs_db s') META_TREE = ot_insert ''last_purged'' b (view (rs_db s) META_TREE))) s"
proof -
  obtain b where ser: "logid_to_vec J lid = Inr b" using logid_total by blast
  have "\<not> (0 \<le> i \<and> i \<le> log_index lid) \<longleftrightarrow> log_index lid < i" for i :: u64 by auto
  then show ?thesis
    unfolding purge_logs_upto_def wp_bnd ser
  proof (intro wp_mono [OF remove_log_wp [OF nf wf]], goal_cases)
    case (1 r s1)
    have "wf_log J (view d) \<and> log_entries J (view d) = log_entries J (view (rs_db s1)) \<and>
        view d META_TREE = ot_insert ''last_purged'' b (view (rs_db s) META_TREE)"
      if "view d = (view (rs_db s1))(META_TREE := ot_insert ''last_purged'' b (view (rs_db s1) META_TREE))" for d
      using 1 that log_cong [of "view d" "view (rs_db s1)" J] by auto
    with 1 show ?case
      by (auto simp del: fun_upd_apply simp: wp_bnd intro!: flush_wp [OF nf] wp_meta_set [OF nf refl])
  qed
qed

lemma get_log_state_wp:
  assumes nf: "\<not> faulty" and wf: "wf_log J (view (rs_db s))"
    and pu: "map_of (view (rs_db s) META_TREE) ''last_purged'' = None \<and> purged = None \<or>
       (\<exists>l b. purged = Some l \<and> map_of (view (rs_db s) META_TREE) ''last_purged'' = Some b \<and> logid_from_slice J b = Inr l)"
  shows "wp (get_log_state S J) (\<lambda>r s'. s' = s \<and> r = Ok (purged,
     if log_entries J (view (rs_db s)) = [] then purged else Some (entry_log_id (last (log_entries J (view (rs_db s))))))) s"
proof -
  have last: "\<exists>e. entry_from_slice J (snd (last (view (rs_db s) LOG_TREE))) = Inr e \<and> last (log_entries J (view (rs_db s))) = e"
    if "view (rs_db s) LOG_TREE \<noteq> []"
    using wf that last_in_set [OF that] unfolding wf_log_def log_entries_def by (fastforce simp: last_map)
  show ?thesis
    unfolding get_log_state_def wp_bnd
    using pu last nf
    by (auto simp: wp_simps log_entries_def split: option.splits prod.splits sum.splits intro!: wp_meta_get wp_last)
qed

end

end
