(* ===== verification/Raft_Machine.thy ===== *)
theory Raft_Machine
  imports Raft_Storage
begin

text \<open>
  The Raft store and the state machine together: committed entries are applied in log order and the
  applied position is recorded after each; snapshots carry the state machine from one store to
  another.  The contract is \<^verbatim>\<open>raft_engine\<close>: the laws of the database, of \<^verbatim>\<open>bincode\<close> and of
  the \<^verbatim>\<open>serde_json\<close> encodings.
\<close>

section \<open>What the store says of its state machine\<close>

definition applied_is :: "('m, 'v) raft_codec \<Rightarrow> contents \<Rightarrow> log_id option \<Rightarrow> bool" where
  "applied_is J V la \<longleftrightarrow>
     (case map_of (V META_TREE) ''last_applied'' of
        None \<Rightarrow> la = None
      | Some b \<Rightarrow> (\<exists>l. logid_from_slice J b = Inr l \<and> la = Some l))"

definition membership_is :: "('m, 'v) raft_codec \<Rightarrow> contents \<Rightarrow> 'm stored_membership \<Rightarrow> bool" where
  "membership_is J V mem \<longleftrightarrow>
     (case map_of (V META_TREE) ''last_membership'' of
        None \<Rightarrow> mem = (None, membership_default J)
      | Some b \<Rightarrow> membership_from_slice J b = Inr mem)"

fun latest_membership :: "'m stored_membership \<Rightarrow> 'm entry list \<Rightarrow> 'm stored_membership" where
  "latest_membership mem [] = mem"
| "latest_membership mem (e # es) =
     latest_membership
       (case entry_payload e of Membership mb \<Rightarrow> (Some (entry_log_id e), mb) | _ \<Rightarrow> mem) es"

text \<open>One entry, and a list of entries in order, against the state machine.\<close>

definition entry_result ::
    "'db sled \<Rightarrow> bincode \<Rightarrow> (nat \<Rightarrow> nat \<Rightarrow> i64) \<Rightarrow> 'm entry \<Rightarrow> 'db manager \<Rightarrow> queue_operation_response \<Rightarrow> 'db manager \<Rightarrow> bool"
  where
  "entry_result S B clk e m r m' \<longleftrightarrow>
     (case entry_payload e of
        Normal op \<Rightarrow> apply_operation S B clk op m = (Ok r, m')
      | _ \<Rightarrow> r = RespAck (Inr ()) \<and> m' = m)"

inductive applies ::
    "'db sled \<Rightarrow> bincode \<Rightarrow> (nat \<Rightarrow> nat \<Rightarrow> nat \<Rightarrow> i64) \<Rightarrow> 'm entry list \<Rightarrow> 'db manager \<Rightarrow>
       queue_operation_response list \<Rightarrow> 'db manager \<Rightarrow> bool" for S B where
  applies_nil: "applies S B clk [] m [] m"
| applies_cons: "entry_result S B (clk 0) e m r m1 \<Longrightarrow> applies S B (\<lambda>n. clk (Suc n)) es m1 rs m' \<Longrightarrow>
     applies S B clk (e # es) m (r # rs) m'"

definition legal_entry :: "(nat \<Rightarrow> nat \<Rightarrow> i64) \<Rightarrow> 'm entry \<Rightarrow> bool" where
  "legal_entry clk e = (case entry_payload e of Normal op \<Rightarrow> legal_op clk op | _ \<Rightarrow> True)"

fun legal_entries :: "(nat \<Rightarrow> nat \<Rightarrow> nat \<Rightarrow> i64) \<Rightarrow> 'm entry list \<Rightarrow> bool" where
  "legal_entries clk [] = True"
| "legal_entries clk (e # es) = (legal_entry (clk 0) e \<and> legal_entries (\<lambda>n. clk (Suc n)) es)"

text \<open>The identifiers of the database suffice for the entries.\<close>

fun ids_left ::
    "'db sled \<Rightarrow> bincode \<Rightarrow> ('db \<Rightarrow> contents) \<Rightarrow> ('db \<Rightarrow> nat) \<Rightarrow> (nat \<Rightarrow> nat \<Rightarrow> nat \<Rightarrow> i64) \<Rightarrow> 'm entry list \<Rightarrow>
       'db manager \<Rightarrow> bool" where
  "ids_left S B view nxt clk [] m = True"
| "ids_left S B view nxt clk (e # es) m =
     (case entry_payload e of
        Normal op \<Rightarrow>
          nxt (mgr_db m) + op_ids B (view (mgr_db m)) op \<le> 2 ^ 64 \<and>
          ids_left S B view nxt (\<lambda>n. clk (Suc n)) es (snd (apply_operation S B (clk 0) op m))
      | _ \<Rightarrow> ids_left S B view nxt (\<lambda>n. clk (Suc n)) es m)"

inductive_cases applies_nilE: "applies S B clk [] m rs m'"
inductive_cases applies_consE: "applies S B clk (e # es) m rs m'"

section \<open>Reading back\<close>

lemma wp_on_state_machine:
  "wp (on_state_machine c) Q s = wp c (\<lambda>r m. case r of
     Ok a \<Rightarrow> Q (Ok a) (s\<lparr>state_machine := m\<rparr>)
   | Err e \<Rightarrow> Q (Err (StorageErr VWrite (pelican_error_to_string e))) (s\<lparr>state_machine := m\<rparr>)
   | Panic \<Rightarrow> Q Panic (s\<lparr>state_machine := m\<rparr>)
   | Diverge \<Rightarrow> Q Diverge (s\<lparr>state_machine := m\<rparr>)) (state_machine s)"
  by (simp add: wp_def on_state_machine_def split: prod.splits outcome.splits)

locale raft_engine = engine + raft_json

sublocale raft_engine \<subseteq> raft_log
  by unfold_locales

context raft_engine
begin

lemma read_membership_wp:
  assumes nf: "\<not> faulty" and mem: "membership_is J (view (rs_db s)) mem" and "Q (Ok mem) s"
  shows "wp (read_membership S J) Q s"
  unfolding read_membership_def wp_bnd
  by (rule wp_meta_get [OF nf]) (use assms in \<open>auto simp: wp_simps membership_is_def split: option.splits\<close>)

lemma read_applied_wp:
  assumes nf: "\<not> faulty" and la: "applied_is J (view (rs_db s)) la" and "Q (Ok la) s"
  shows "wp (meta_get_single S (logid_from_slice J) ''last_applied'') Q s"
  by (rule wp_meta_get [OF nf]) (use assms in \<open>auto simp: applied_is_def split: option.splits sum.splits\<close>)

lemma last_applied_state_wp:
  assumes nf: "\<not> faulty" and la: "applied_is J (view (rs_db s)) la" and mem: "membership_is J (view (rs_db s)) mem"
  shows "wp (last_applied_state S J) (\<lambda>r s'. s' = s \<and> r = Ok (la, mem)) s"
  unfolding last_applied_state_def wp_bnd
  by (rule read_applied_wp [OF nf la]) (auto simp: wp_simps intro!: read_membership_wp [OF nf mem])

lemma vote_saved:
  assumes nf: "\<not> faulty"
  shows "wp (bnd (save_vote S J v) (\<lambda>_. read_vote S J)) (\<lambda>r s'. r = Ok (Some v)) s"
proof -
  obtain b where ser: "vote_to_vec J v = Inr b" using vote_total by blast
  from vote_roundtrip [OF ser] nf show ?thesis
    unfolding save_vote_def read_vote_def ser wp_bnd by (auto intro!: wp_meta_set wp_meta_get)
qed

section \<open>Applying entries\<close>

lemma machine_step_wp:
  assumes m: "reach S B view (state_machine s)" and e: "entry_payload e = Normal op" "legal_op clk op"
    and Q: "\<And>r m'. apply_operation S B clk op (state_machine s) = (Ok r, m') \<Longrightarrow> reach S B view m' \<Longrightarrow> Q (Ok r) (s\<lparr>state_machine := m'\<rparr>)"
  shows "wp (on_state_machine (apply_operation S B clk op)) Q s"
  unfolding wp_on_state_machine
proof (rule wpI)
  fix r m' assume run: "apply_operation S B clk op (state_machine s) = (r, m')"
  from wpD [OF apply_operation_reach [OF m e(2)] this] obtain resp where "r = Ok resp" "reach S B view m'" by blast
  with Q run show "case r of
     Ok a \<Rightarrow> Q (Ok a) (s\<lparr>state_machine := m'\<rparr>)
   | Err e \<Rightarrow> Q (Err (StorageErr VWrite (pelican_error_to_string e))) (s\<lparr>state_machine := m'\<rparr>)
   | Panic \<Rightarrow> Q Panic (s\<lparr>state_machine := m'\<rparr>)
   | Diverge \<Rightarrow> Q Diverge (s\<lparr>state_machine := m'\<rparr>)" by simp
qed

lemma record_applied_wp:
  assumes nf: "\<not> faulty" and mem: "membership_is J (view (rs_db s)) mem"
    and Q: "\<And>d. view d LOG_TREE = view (rs_db s) LOG_TREE \<Longrightarrow> applied_is J (view d) (Some lid) \<Longrightarrow> membership_is J (view d) mem \<Longrightarrow>
       Q (Ok x) (s\<lparr>rs_db := d\<rparr>)"
  shows "wp (bnd (meta_set S ''last_applied'' (logid_to_vec J lid)) (\<lambda>_. ret x)) Q s"
proof -
  obtain b where ser: "logid_to_vec J lid = Inr b" using logid_total by blast
  note de = logid_roundtrip [OF ser]
  show ?thesis
    unfolding wp_bnd ser
  proof (rule wp_meta_set [OF nf refl], goal_cases)
    case (1 d)
    have "view d LOG_TREE = view (rs_db s) LOG_TREE" "applied_is J (view d) (Some lid)" "membership_is J (view d) mem"
      using 1 de mem by (simp_all add: applied_is_def membership_is_def)
    then show ?case using Q by (simp add: wp_simps)
  qed
qed

lemma apply_entry_wp:
  assumes nf: "\<not> faulty" and m: "reach S B view (state_machine s)" and l: "legal_entry clk e"
    and mem: "membership_is J (view (rs_db s)) mem"
  shows "wp (apply_entry S B J clk e) (\<lambda>r s'. (\<exists>resp. r = Ok resp \<and>
       entry_result S B clk e (state_machine s) resp (state_machine s')) \<and> reach S B view (state_machine s') \<and>
     view (rs_db s') LOG_TREE = view (rs_db s) LOG_TREE \<and>
     applied_is J (view (rs_db s')) (Some (entry_log_id e)) \<and>
     membership_is J (view (rs_db s')) (latest_membership mem [e]) \<and>
     current_snapshot s' = current_snapshot s) s"
proof (cases "entry_payload e")
  case Blank
  with assms show ?thesis
    unfolding apply_entry_def by (simp add: wp_bnd [of "ret x" for x] wp_ret)
      (auto simp: entry_result_def intro!: record_applied_wp)
next
  case (Normal op)
  with l have op: "legal_op clk op" by (simp add: legal_entry_def)
  show ?thesis
    unfolding apply_entry_def Normal entry_payload.case wp_bnd [of "on_state_machine c" for c]
    by (rule machine_step_wp [OF m Normal op])
      (use Normal assms in \<open>auto simp: entry_result_def intro!: record_applied_wp [OF nf]\<close>)
next
  case (Membership mb)
  obtain b where ser: "membership_to_vec J (Some (entry_log_id e), mb) = Inr b" using membership_total by blast
  note de = membership_roundtrip [OF ser]
  show ?thesis
    unfolding apply_entry_def Membership entry_payload.case ser wp_bnd [of "bnd c f" for c f] wp_bnd [of "meta_set S ''last_membership'' y" for y]
  proof (rule wp_meta_set [OF nf refl], goal_cases)
    case (1 d)
    have "membership_is J (view (rs_db (s\<lparr>rs_db := d\<rparr>))) (Some (entry_log_id e), mb)" "view d LOG_TREE = view (rs_db s) LOG_TREE"
      using 1 de by (simp_all add: membership_is_def)
    with m show ?case
      by (auto simp: wp_ret entry_result_def Membership intro!: record_applied_wp [OF nf])
  qed
qed

lemma apply_entries_wp:
  assumes nf: "\<not> faulty" and m: "reach S B view (state_machine s)" and l: "legal_entries clk es"
    and la: "applied_is J (view (rs_db s)) la" and mem: "membership_is J (view (rs_db s)) mem"
  shows "wp (apply_to_state_machine S B J clk es) (\<lambda>r s'. (\<exists>resps. r = Ok resps \<and>
       applies S B clk es (state_machine s) resps (state_machine s')) \<and> reach S B view (state_machine s') \<and>
     view (rs_db s') LOG_TREE = view (rs_db s) LOG_TREE \<and>
     applied_is J (view (rs_db s')) (if es = [] then la else Some (entry_log_id (last es))) \<and>
     membership_is J (view (rs_db s')) (latest_membership mem es) \<and>
     current_snapshot s' = current_snapshot s) s"
  using m l la mem
proof (induction es arbitrary: s clk la mem)
  case Nil
  then show ?case by (simp add: wp_simps applies_nil)
next
  case (Cons e es)
  from Cons.prems have l: "legal_entry (clk 0) e" "legal_entries (\<lambda>n. clk (Suc n)) es" by simp_all
  show ?case
    unfolding apply_to_state_machine.simps wp_bnd [of "apply_entry S B J c e" for c]
  proof (rule wp_mono [OF apply_entry_wp [OF nf Cons.prems(1) l(1) Cons.prems(4)]], goal_cases)
    case (1 r s1)
    then obtain resp where r: "r = Ok resp" and er: "entry_result S B (clk 0) e (state_machine s) resp (state_machine s1)" by blast
    from 1 have s1: "reach S B view (state_machine s1)" "view (rs_db s1) LOG_TREE = view (rs_db s) LOG_TREE"
      "applied_is J (view (rs_db s1)) (Some (entry_log_id e))" "membership_is J (view (rs_db s1)) (latest_membership mem [e])"
      "current_snapshot s1 = current_snapshot s" by simp_all
    show ?case
      unfolding r on_ok_simps wp_bnd
      by (rule wp_mono [OF Cons.IH [OF s1(1) l(2) s1(3,4)]])
        (use s1 er in \<open>auto simp: wp_simps intro: applies_cons\<close>)
  qed
qed

section \<open>Replicas agree\<close>

lemma applies_agree:
  assumes nf: "\<not> faulty"
  shows "applies S B clk es m1 rs1 m1' \<Longrightarrow> applies S B clk es m2 rs2 m2' \<Longrightarrow> reach S B view m1 \<Longrightarrow>
     abs m1 = abs m2 \<Longrightarrow> legal_entries clk es \<Longrightarrow> ids_left S B view nxt clk es m1 \<Longrightarrow> rs1 = rs2 \<and> abs m1' = abs m2'"
proof (induction clk es m1 rs1 m1' arbitrary: m2 rs2 rule: applies.induct)
  case (applies_nil clk m)
  then show ?case by (auto elim: applies_nilE)
next
  case (applies_cons clk e m r m1 es rs m')
  from applies_cons.prems(1) obtain r2 m3 rs3 where 2: "rs2 = r2 # rs3" "entry_result S B (clk 0) e m2 r2 m3"
    "applies S B (\<lambda>n. clk (Suc n)) es m3 rs3 m2'" by (auto elim: applies_consE)
  have "r = r2 \<and> abs m1 = abs m3 \<and> reach S B view m1 \<and> ids_left S B view nxt (\<lambda>n. clk (Suc n)) es m1"
  proof (cases "entry_payload e")
    case (Normal op)
    have op: "legal_op (clk 0) op" using applies_cons.prems Normal by (simp add: legal_entry_def)
    have run: "apply_operation S B (clk 0) op m = (Ok r, m1)" "apply_operation S B (clk 0) op m2 = (Ok r2, m3)"
      using applies_cons.hyps(1) 2(2) Normal by (simp_all add: entry_result_def)
    have "agree abs (apply_operation S B (clk 0) op) m m2"
      using applies_cons.prems Normal by (intro apply_agree [OF nf reach_wf_state _ op]) simp_all
    then show ?thesis
      using run wpD [OF apply_operation_reach [OF applies_cons.prems(2) op] run(1)] applies_cons.prems Normal
      by (simp add: agree_def)
  qed (use applies_cons.hyps(1) 2(2) applies_cons.prems in \<open>simp_all add: entry_result_def\<close>)
  then show ?case using applies_cons.IH [OF 2(3)] 2(1) applies_cons.prems by simp
qed

section \<open>Snapshots\<close>

lemma build_snapshot_wp:
  assumes nf: "\<not> faulty" and wf: "wf_state B (abs m)" and js: "snapshot_json JS"
  shows "wp (build_snapshot S B JS) (\<lambda>r m'. abs m' = abs m \<and>
     (\<exists>data. r = Ok data \<and> snap_from_slice JS data = Inr (snapshot_of B (view (mgr_db m))))) m"
proof -
  obtain b where ser: "snap_to_vec JS (snapshot_of B (view (mgr_db m))) = Inr b"
    using snapshot_json.snap_total [OF js] by blast
  note de = snapshot_json.snap_roundtrip [OF js ser]
  show ?thesis
    unfolding build_snapshot_def wp_bnd
    by (rule wp_mono [OF export_exact [OF nf wf]]) (auto simp: wp_simps ser de)
qed

lemma raft_build_wp:
  assumes nf: "\<not> faulty" and wf: "wf_state B (abs (state_machine s))" and js: "snapshot_json JS"
    and la: "applied_is J (view (rs_db s)) la" and mem: "membership_is J (view (rs_db s)) mem"
    and idx: "map_of (view (rs_db s) META_TREE) ''snapshot_idx'' = None"
  shows "wp (raft_build_snapshot S B JS J) (\<lambda>r s'. \<exists>data. r = Ok \<lparr>ss_meta =
         \<lparr>last_log_id = la, last_membership = mem, snapshot_id = snapshot_name J la 1\<rparr>, ss_data = data\<rparr> \<and>
     snap_from_slice JS data = Inr (snapshot_of B (view (mgr_db (state_machine s)))) \<and>
     abs (state_machine s') = abs (state_machine s) \<and>
     current_snapshot s' = Some \<lparr>ss_meta = \<lparr>last_log_id = la, last_membership = mem, snapshot_id = snapshot_name J la 1\<rparr>,
       ss_data = data\<rparr> \<and>
     view (rs_db s') LOG_TREE = view (rs_db s) LOG_TREE \<and>
     map_of (view (rs_db s') META_TREE) ''snapshot_idx'' = Some (show_nat 1) \<and>
     applied_is J (view (rs_db s')) la \<and> membership_is J (view (rs_db s')) mem) s"
  unfolding raft_build_snapshot_def wp_bnd [of "on_state_machine c" for c] wp_on_state_machine
proof (rule wp_mono [OF build_snapshot_wp [OF nf wf js]], goal_cases)
  case (1 r m)
  then obtain data where r: "r = Ok data" and
    data: "snap_from_slice JS data = Inr (snapshot_of B (view (mgr_db (state_machine s))))" and m: "abs m = abs (state_machine s)"
    by blast
  let ?s = "s\<lparr>state_machine := m\<rparr>"
  have mem': "membership_is J (view (rs_db ?s)) mem" and la': "applied_is J (view (rs_db ?s)) la" using mem la by simp_all
  have u: "u64_to_vec J 1 = Inr (show_nat 1)" using u64_decimal [of 1] by simp
  have upd: "applied_is J V' la \<and> membership_is J V' mem \<and> map_of (V' META_TREE) ''snapshot_idx'' = Some (show_nat 1) \<and>
      V' LOG_TREE = view (rs_db s) LOG_TREE"
    if "V' = (view (rs_db s))(META_TREE := ot_insert ''snapshot_idx'' (show_nat 1) (view (rs_db s) META_TREE))" for V'
    using la mem that by (simp add: applied_is_def membership_is_def)
  have tail: "wp (bnd (on_raft (db_get (StorageErr VRead) S META_TREE ''snapshot_idx'')) (\<lambda>x.
      bnd (next_snapshot_idx x) (\<lambda>i. bnd (meta_set S ''snapshot_idx'' (u64_to_vec J i)) (P i)))) Q ?s"
    if "\<And>d. view d = (view (rs_db s))(META_TREE := ot_insert ''snapshot_idx'' (show_nat 1) (view (rs_db s) META_TREE)) \<Longrightarrow>
      wp (P 1 ()) Q (?s\<lparr>rs_db := d\<rparr>)" for P Q
    using that idx nf
    by (auto simp: wp_simps next_snapshot_idx_def u intro!: wp_get wp_meta_set [OF nf refl])
  show ?case
    unfolding r outcome.case on_ok_simps wp_bnd [of "meta_get_single S f k" for f k] wp_bnd [of "read_membership S J"]
    by (rule read_applied_wp [OF nf la'], unfold on_ok_simps, rule read_membership_wp [OF nf mem'], unfold on_ok_simps, rule tail)
      (use upd m data in \<open>simp add: wp_simps Let_def\<close>)
qed

lemma raft_build_panics:
  assumes nf: "\<not> faulty" and wf: "wf_state B (abs (state_machine s))" and js: "snapshot_json JS"
    and la: "applied_is J (view (rs_db s)) la" and mem: "membership_is J (view (rs_db s)) mem"
    and idx: "map_of (view (rs_db s) META_TREE) ''snapshot_idx'' = Some b" "length b < 8"
  shows "wp (raft_build_snapshot S B JS J) (\<lambda>r s'. r = Panic) s"
  unfolding raft_build_snapshot_def wp_bnd [of "on_state_machine c" for c] wp_on_state_machine
proof (rule wp_mono [OF build_snapshot_wp [OF nf wf js]], goal_cases)
  case (1 r m)
  then obtain data where r: "r = Ok data" by blast
  let ?s = "s\<lparr>state_machine := m\<rparr>"
  have mem': "membership_is J (view (rs_db ?s)) mem" and la': "applied_is J (view (rs_db ?s)) la" using mem la by simp_all
  have "wp (on_raft (db_get (StorageErr VRead) S META_TREE ''snapshot_idx''))
      (on_ok (\<lambda>x. wp (bnd (next_snapshot_idx x) P) (\<lambda>r s'. r = Panic)) (\<lambda>r s'. r = Panic)) ?s" for P :: "u64 \<Rightarrow> ('a, 'b, 'b stored_snapshot) rprog"
    using idx nf by (auto simp: wp_simps next_snapshot_idx_def intro!: wp_get)
  then show ?case
    unfolding r outcome.case on_ok_simps wp_bnd [of "meta_get_single S f k" for f k] wp_bnd [of "read_membership S J"]
    by (intro read_applied_wp [OF nf la'], unfold on_ok_simps, intro read_membership_wp [OF nf mem'], unfold on_ok_simps)
      (simp only: wp_bnd [of "on_raft c" for c])
qed

lemma raft_install_wp:
  assumes nf: "\<not> faulty" and wf: "wf_state B s0" and st: "sorted_state s0"
    and data: "snap_from_slice JS data = Inr (snapshot_of B (cont s0))"
    and fresh: "\<forall>t. view (mgr_db (state_machine s)) t = []"
    and ids: "nxt (mgr_db (state_machine s)) + snapshot_ids (snapshot_of B (cont s0)) \<le> 2 ^ 64"
  shows "wp (raft_install_snapshot S B JS J clk meta data) (\<lambda>r s'. r = Ok () \<and>
     declared (view (mgr_db (state_machine s'))) = declared (cont s0) \<and>
     (\<forall>q \<in> declared (cont s0). copied B (cont s0) (view (mgr_db (state_machine s'))) q) \<and>
     current_bytes (state_machine s') = of_nat (stored_bytes (view (mgr_db (state_machine s')))) \<and>
     (\<exists>b. logid_opt_to_vec J (last_log_id meta) = Inr b \<and> map_of (view (rs_db s') META_TREE) ''last_applied'' = Some b) \<and>
     membership_is J (view (rs_db s')) (last_membership meta) \<and>
     current_snapshot s' = Some \<lparr>ss_meta = meta, ss_data = data\<rparr> \<and>
     view (rs_db s') LOG_TREE = view (rs_db s) LOG_TREE) s"
proof -
  obtain b where la: "logid_opt_to_vec J (last_log_id meta) = Inr b"
    by (cases "last_log_id meta") (use logid_total in \<open>auto simp: logid_some logid_none\<close>)
  obtain c where mem: "membership_to_vec J (last_membership meta) = Inr c" using membership_total by blast
  note de = membership_roundtrip [OF mem]
  show ?thesis
    unfolding raft_install_snapshot_def install_snapshot_def data sum.case wp_bnd wp_on_state_machine la mem
    by (rule wp_mono [OF restore_exact [OF nf wf st fresh ids]])
      (auto simp: wp_simps de membership_is_def intro!: flush_wp [OF nf] wp_meta_set [OF nf refl])
qed

section \<open>Restart\<close>

lemma open_raft_store_ok:
  assumes nf: "\<not> faulty" and m: "open_manager S B (Inr d) None = (Ok (), Some m)"
  shows "\<exists>d'. open_raft_store S B (Inr d) (Inr rd) = Ok \<lparr>rs_db = d', state_machine = m, current_snapshot = None\<rparr> \<and> view d' = view rd"
proof -
  have "wp (bnd (db_open_tree Storage S LOG_TREE) (\<lambda>_. db_open_tree Storage S META_TREE)) (\<lambda>r d'. r = Ok () \<and> view d' = view rd) rd"
    using nf by (auto simp: wp_simps intro!: wp_rules)
  then show ?thesis by (auto simp: open_raft_store_def m wp_def split: prod.splits)
qed

end

end
