(* ===== verification/Mem_Codec.thy ===== *)
theory Mem_Codec
  imports Mem_Store Raft_Machine
begin

text \<open>
  A reference instance of the \<^verbatim>\<open>serde_json\<close> parameters of the replication layer, built from the
  encoders of \<^verbatim>\<open>Mem_Store\<close>: it shows that \<^verbatim>\<open>snapshot_json\<close>, \<^verbatim>\<open>raft_json\<close> and the contracts built
  on them can be met, and runs the Raft store on concrete inputs.  A membership is a string and a
  vote a number here; the code only stores and returns them.
\<close>

section \<open>Encoders\<close>

definition enc_nat :: "nat \<Rightarrow> bytes" where
  "enc_nat n = enc_list (\<lambda>_. []) (replicate n ())"

definition dec_unit :: "bytes \<Rightarrow> (unit \<times> bytes) option" where
  "dec_unit bs = Some ((), bs)"

definition dec_nat :: "bytes \<Rightarrow> (nat \<times> bytes) option" where
  "dec_nat bs = map_option (\<lambda>(us, r). (length us, r)) (dec_list dec_unit (length bs) bs)"

definition dec_messages :: "bytes \<Rightarrow> (message list \<times> bytes) option" where
  "dec_messages bs = dec_list dec_message (length bs) bs"

definition dec_flight :: "bytes \<Rightarrow> ((u64 \<times> message) list \<times> bytes) option" where
  "dec_flight bs = dec_list (dec_pair dec_word dec_message) (length bs) bs"

definition enc_queue_snapshot :: "queue_snapshot \<Rightarrow> bytes" where
  "enc_queue_snapshot qs =
     enc_pair enc_policy (enc_pair (enc_list enc_message) (enc_pair (enc_list enc_message)
       (enc_pair (enc_list (enc_pair enc_word enc_message)) (enc_list enc_message))))
     (qs_policy qs, qs_messages qs, qs_scheduled qs, qs_inflight qs, qs_dead_letter qs)"

definition dec_queue_snapshot :: "bytes \<Rightarrow> (queue_snapshot \<times> bytes) option" where
  "dec_queue_snapshot bs = map_option (\<lambda>((p, m, s, f, d), r).
       (\<lparr>qs_policy = p, qs_messages = m, qs_scheduled = s, qs_inflight = f, qs_dead_letter = d\<rparr>, r))
     (dec_pair dec_policy (dec_pair dec_messages (dec_pair dec_messages (dec_pair dec_flight dec_messages))) bs)"

definition enc_snapshot :: "manager_snapshot \<Rightarrow> bytes" where
  "enc_snapshot = enc_list (enc_pair enc_str enc_queue_snapshot)"

definition dec_snapshot :: "bytes \<Rightarrow> (manager_snapshot \<times> bytes) option" where
  "dec_snapshot bs = dec_list (dec_pair dec_str dec_queue_snapshot) (length bs) bs"

definition ref_snapshot :: snapshot_codec where
  "ref_snapshot = \<lparr>snap_to_vec = encode_all enc_snapshot, snap_from_slice = decode_all dec_snapshot\<rparr>"

type_synonym op_tuple = "u8 \<times> string \<times> retention_policy \<times> message list \<times> nat \<times> u64"

fun tuple_of_op :: "queue_operation \<Rightarrow> op_tuple" where
  "tuple_of_op (OpDeclareQueue q P) = (0, q, P, [], 0, 0)"
| "tuple_of_op (OpPublish q m) = (1, q, RetentionPolicy_default, [m], 0, 0)"
| "tuple_of_op (OpPublishBatch q ms) = (2, q, RetentionPolicy_default, ms, 0, 0)"
| "tuple_of_op (OpConsume q) = (3, q, RetentionPolicy_default, [], 0, 0)"
| "tuple_of_op (OpConsumeBatch q n) = (4, q, RetentionPolicy_default, [], n, 0)"
| "tuple_of_op (OpAck q t) = (5, q, RetentionPolicy_default, [], 0, tag_u64 t)"
| "tuple_of_op (OpNack q t) = (6, q, RetentionPolicy_default, [], 0, tag_u64 t)"
| "tuple_of_op (OpApplyRetention q) = (7, q, RetentionPolicy_default, [], 0, 0)"
| "tuple_of_op (OpPromoteScheduled q) = (8, q, RetentionPolicy_default, [], 0, 0)"

definition op_of_tuple :: "op_tuple \<Rightarrow> queue_operation" where
  "op_of_tuple t = (case t of (k, q, P, ms, n, w) \<Rightarrow>
     if k = 0 then OpDeclareQueue q P
     else if k = 1 then OpPublish q (hd ms)
     else if k = 2 then OpPublishBatch q ms
     else if k = 3 then OpConsume q
     else if k = 4 then OpConsumeBatch q n
     else if k = 5 then OpAck q (DeliveryTag w)
     else if k = 6 then OpNack q (DeliveryTag w)
     else if k = 7 then OpApplyRetention q
     else OpPromoteScheduled q)"

definition enc_op :: "queue_operation \<Rightarrow> bytes" where
  "enc_op op = enc_pair enc_word (enc_pair enc_str (enc_pair enc_policy (enc_pair (enc_list enc_message)
     (enc_pair enc_nat enc_word)))) (tuple_of_op op)"

definition dec_op :: "bytes \<Rightarrow> (queue_operation \<times> bytes) option" where
  "dec_op bs = map_option (\<lambda>(t, r). (op_of_tuple t, r))
     (dec_pair dec_word (dec_pair dec_str (dec_pair dec_policy (dec_pair dec_messages (dec_pair dec_nat dec_word)))) bs)"

definition enc_logid :: "log_id \<Rightarrow> bytes" where
  "enc_logid l = enc_pair enc_word (enc_pair enc_word enc_word) (leader_term l, leader_node l, log_index l)"

definition dec_logid :: "bytes \<Rightarrow> (log_id \<times> bytes) option" where
  "dec_logid bs = map_option (\<lambda>((t, n, i), r). (\<lparr>leader_term = t, leader_node = n, log_index = i\<rparr>, r))
     (dec_pair dec_word (dec_pair dec_word dec_word) bs)"

definition enc_entry :: "string entry \<Rightarrow> bytes" where
  "enc_entry e = enc_pair enc_logid (enc_pair (enc_option enc_op) (enc_option enc_str))
     (entry_log_id e,
      (case entry_payload e of Normal op \<Rightarrow> Some op | _ \<Rightarrow> None),
      (case entry_payload e of Membership m \<Rightarrow> Some m | _ \<Rightarrow> None))"

definition dec_entry :: "bytes \<Rightarrow> (string entry \<times> bytes) option" where
  "dec_entry bs = map_option (\<lambda>((l, op, m), r).
       (\<lparr>entry_log_id = l,
         entry_payload = (case op of Some op \<Rightarrow> Normal op
                          | None \<Rightarrow> (case m of Some m \<Rightarrow> Membership m | None \<Rightarrow> Blank))\<rparr>, r))
     (dec_pair dec_logid (dec_pair (dec_option dec_op) (dec_option dec_str)) bs)"

definition enc_logid_opt :: "log_id option \<Rightarrow> bytes" where
  "enc_logid_opt l = (case l of None \<Rightarrow> ''null'' | Some l \<Rightarrow> enc_logid l)"

definition ref_leader :: "log_id \<Rightarrow> string" where
  "ref_leader l = ''T'' @ show_nat (unat (leader_term l)) @ ''-N'' @ show_nat (unat (leader_node l))"

definition enc_decimal :: "u64 \<Rightarrow> bytes" where
  "enc_decimal n = show_nat (unat n)"

definition ref_raft :: "(string, u64) raft_codec" where
  "ref_raft =
     \<lparr>entry_to_vec = encode_all enc_entry, entry_from_slice = decode_all dec_entry,
      logid_to_vec = encode_all enc_logid, logid_opt_to_vec = encode_all enc_logid_opt,
      logid_from_slice = decode_all dec_logid,
      vote_to_vec = encode_all enc_word, vote_from_slice = decode_all dec_word,
      membership_to_vec = encode_all (enc_pair (enc_option enc_logid) enc_str),
      membership_from_slice = decode_all (dec_pair (dec_option dec_logid) dec_str),
      u64_to_vec = encode_all enc_decimal, show_leader_id = ref_leader, membership_default = []\<rparr>"

text \<open>
  A store that has applied its log up to index 3 and holds entry 4, with the queue \<^verbatim>\<open>q\<close> of
  \<^verbatim>\<open>demo_published\<close> as its state machine, and a store that has nothing yet.
\<close>

definition demo_lid :: "u64 \<Rightarrow> log_id" where
  "demo_lid i = \<lparr>leader_term = 1, leader_node = 1, log_index = i\<rparr>"

definition demo_entry :: "u64 \<Rightarrow> queue_operation \<Rightarrow> string entry" where
  "demo_entry i op = \<lparr>entry_log_id = demo_lid i, entry_payload = Normal op\<rparr>"

definition demo_store :: "(mem_db, string) raft_store" where
  "demo_store =
     \<lparr>rs_db = \<lparr>mem_trees = [(META_TREE, [(''last_applied'', enc_logid (demo_lid 3))]),
                          (LOG_TREE, [(be64 4, enc_entry (demo_entry 4 (OpConsume ''q'')))])], mem_next = 0\<rparr>,
      state_machine = demo_published, current_snapshot = None\<rparr>"

definition demo_blank :: "(mem_db, string) raft_store" where
  "demo_blank = \<lparr>rs_db = mem_empty, state_machine = mem_start None, current_snapshot = None\<rparr>"

section \<open>The contracts hold\<close>

lemma coder_messages: "coder (enc_list enc_message) dec_messages"
  using coder_list [OF message_coder.coder_axioms] by (simp add: dec_messages_def [abs_def])

lemma coder_u64: "coder (enc_word :: u64 \<Rightarrow> bytes) dec_word"
  by (rule coder_word) simp

lemma coder_flight: "coder (enc_list (enc_pair enc_word enc_message)) dec_flight"
  using coder_list [OF coder_pair [OF coder_u64 message_coder.coder_axioms]] by (simp add: dec_flight_def [abs_def])

lemma coder_nat: "coder enc_nat dec_nat"
proof
  have c: "coder (\<lambda>_ :: unit. []) dec_unit" by unfold_locales (simp add: dec_unit_def)
  show "dec_nat (enc_nat n @ r) = Some (n, r)" for n r
    using coder.dec_enc [OF coder_list [OF c], of "replicate n ()" r] by (simp add: enc_nat_def dec_nat_def)
qed

interpretation queue_snapshot_coder: coder enc_queue_snapshot dec_queue_snapshot
proof
  have c: "coder (enc_pair enc_policy (enc_pair (enc_list enc_message) (enc_pair (enc_list enc_message)
       (enc_pair (enc_list (enc_pair enc_word enc_message)) (enc_list enc_message)))))
     (dec_pair dec_policy (dec_pair dec_messages (dec_pair dec_messages (dec_pair dec_flight dec_messages))))"
    by (intro coder_fields coder_messages coder_flight policy_coder.coder_axioms)
  show "dec_queue_snapshot (enc_queue_snapshot qs @ r) = Some (qs, r)" for qs r
    by (cases qs) (simp add: enc_queue_snapshot_def dec_queue_snapshot_def coder.dec_enc [OF c])
qed

lemma coder_snapshot: "coder enc_snapshot dec_snapshot"
  using coder_list [OF coder_pair [OF coder_str queue_snapshot_coder.coder_axioms]]
  by (simp add: enc_snapshot_def dec_snapshot_def [abs_def])

lemma op_tuple_inverse [simp]: "op_of_tuple (tuple_of_op op) = op"
  by (cases op) (simp_all add: op_of_tuple_def)

interpretation op_coder: coder enc_op dec_op
proof
  have c: "coder (enc_pair enc_word (enc_pair enc_str (enc_pair enc_policy (enc_pair (enc_list enc_message)
     (enc_pair enc_nat enc_word)))) :: op_tuple \<Rightarrow> bytes)
     (dec_pair dec_word (dec_pair dec_str (dec_pair dec_policy (dec_pair dec_messages (dec_pair dec_nat dec_word)))))"
    by (intro coder_fields coder_messages coder_nat policy_coder.coder_axioms) simp_all
  show "dec_op (enc_op op @ r) = Some (op, r)" for op r
    by (simp add: enc_op_def dec_op_def coder.dec_enc [OF c])
qed

interpretation logid_coder: coder enc_logid dec_logid
proof
  have c: "coder (enc_pair enc_word (enc_pair enc_word enc_word) :: u64 \<times> u64 \<times> u64 \<Rightarrow> bytes)
     (dec_pair dec_word (dec_pair dec_word dec_word))"
    by (intro coder_fields) simp_all
  show "dec_logid (enc_logid l @ r) = Some (l, r)" for l r
    by (cases l) (simp add: enc_logid_def dec_logid_def coder.dec_enc [OF c])
qed

interpretation entry_coder: coder enc_entry dec_entry
proof
  have c: "coder (enc_pair enc_logid (enc_pair (enc_option enc_op) (enc_option enc_str)))
     (dec_pair dec_logid (dec_pair (dec_option dec_op) (dec_option dec_str)))"
    by (intro coder_fields logid_coder.coder_axioms op_coder.coder_axioms)
  show "dec_entry (enc_entry e @ r) = Some (e, r)" for e r
    by (cases e; cases "entry_payload e") (simp_all add: enc_entry_def dec_entry_def coder.dec_enc [OF c])
qed

lemma coder_roundtrip: "coder e d \<Longrightarrow> encode_all e x = Inr b \<Longrightarrow> decode_all d b = Inr x"
  using coder.dec_enc [of e d x "[]"] by (auto simp: encode_all_def decode_all_def)

interpretation ref_snap: snapshot_json ref_snapshot
  by unfold_locales (auto simp: ref_snapshot_def encode_all_def [of enc_snapshot] intro: coder_roundtrip [OF coder_snapshot])

lemma null_not_logid: "isl (decode_all dec_logid ''null'')"
  by code_simp

interpretation ref_raft: raft_json ref_raft
  using coder_roundtrip [OF entry_coder.coder_axioms] coder_roundtrip [OF logid_coder.coder_axioms]
    coder_roundtrip [OF coder_u64]
    coder_roundtrip [OF coder_pair [OF coder_option [OF logid_coder.coder_axioms] coder_str]] null_not_logid
  by unfold_locales (auto simp: ref_raft_def encode_all_def enc_logid_opt_def enc_decimal_def)

interpretation mem_raft: raft_engine mem_sled mem_view mem_next f ref_bincode ref_raft for f
  by unfold_locales

interpretation mem_log: raft_log mem_sled mem_view mem_next f ref_raft for f
  by unfold_locales

lemma demo_store_facts:
  "applied_is ref_raft (mem_view (rs_db demo_store)) (Some (demo_lid 3))"
  "membership_is ref_raft (mem_view (rs_db demo_store)) (None, [])"
  "wf_log ref_raft (mem_view (rs_db demo_store))"
  "log_entries ref_raft (mem_view (rs_db demo_store)) = [demo_entry 4 (OpConsume ''q'')]"
  "map_of (mem_view (rs_db demo_store) META_TREE) ''snapshot_idx'' = None"
proof -
  have "mem_view (rs_db demo_store) LOG_TREE = [(be64 4, enc_entry (demo_entry 4 (OpConsume ''q'')))]"
    "mem_view (rs_db demo_store) META_TREE = [(''last_applied'', enc_logid (demo_lid 3))]"
    by (simp_all add: demo_store_def mem_view_def)
  then show "applied_is ref_raft (mem_view (rs_db demo_store)) (Some (demo_lid 3))"
    "membership_is ref_raft (mem_view (rs_db demo_store)) (None, [])"
    "wf_log ref_raft (mem_view (rs_db demo_store))"
    "log_entries ref_raft (mem_view (rs_db demo_store)) = [demo_entry 4 (OpConsume ''q'')]"
    "map_of (mem_view (rs_db demo_store) META_TREE) ''snapshot_idx'' = None"
    using coder_roundtrip [OF entry_coder.coder_axioms] coder_roundtrip [OF logid_coder.coder_axioms]
    by (simp_all add: applied_is_def membership_is_def wf_log_def log_entries_def ref_raft_def encode_all_def)
       (simp add: demo_entry_def demo_lid_def)
qed

lemma demo_store_machine [simp]: "state_machine demo_store = demo_published" "state_machine demo_blank = mem_start None"
  by (simp_all add: demo_store_def demo_blank_def)

end
