(* ===== verification/Raft_Correctness.thy ===== *)
theory Raft_Correctness
  imports Mem_Codec
begin

text \<open>
  Correctness of the replication layer: the log of the Raft store, its votes and its applied state,
  the application of committed entries, agreement of replicas, and snapshots from one store to
  another.
\<close>

section \<open>Shared facts\<close>


lemma raft_engine_log: "raft_engine S view nxt f B J \<Longrightarrow> raft_log S view nxt f J"
  by (simp add: raft_engine_def raft_log_def engine_def)

lemma raft_engine_engine: "raft_engine S view nxt f B J \<Longrightarrow> engine S view nxt f B"
  by (simp add: raft_engine_def)

section \<open>The log\<close>



text \<open>
  Truncation of the log: \<^verbatim>\<open>delete_conflict_logs_since\<close> keeps exactly the entries before the given
  index; \<^verbatim>\<open>purge_logs_upto\<close> keeps exactly those after it, and \<^verbatim>\<open>get_log_state\<close> then reports the purged
  log id and, as the last one, that of the last entry left or the purged one.
\<close>

theorem log_truncate:
  assumes "raft_engine S view nxt False B J" "wf_log J (view (rs_db s))"
    and "delete_conflict_logs_since S lid s = (r1, s1)" "purge_logs_upto S J lid s = (r2, s2)"
  defines "old \<equiv> log_entries J (view (rs_db s))" and "left \<equiv> filter (\<lambda>e. log_index lid < entry_index e) (log_entries J (view (rs_db s)))"
  shows "r1 = Ok () \<and> log_entries J (view (rs_db s1)) = filter (\<lambda>e. entry_index e < log_index lid) old \<and>
    r2 = Ok () \<and> log_entries J (view (rs_db s2)) = left \<and>
    get_log_state S J s2 = (Ok (Some lid, Some (if left = [] then lid else entry_log_id (last left))), s2)"
proof -
  note rl = raft_engine_log [OF assms(1)]
  from wpD [OF raft_log.delete_conflict_wp [OF rl _ assms(2)] assms(3)]
  have 1: "r1 = Ok ()" "log_entries J (view (rs_db s1)) = filter (\<lambda>e. entry_index e < log_index lid) old"
    by (simp_all add: old_def)
  from wpD [OF raft_log.purge_wp [OF rl _ assms(2)] assms(4)] obtain b
    where 2: "r2 = Ok ()" "wf_log J (view (rs_db s2))" "log_entries J (view (rs_db s2)) = left" "logid_to_vec J lid = Inr b"
      "view (rs_db s2) META_TREE = ot_insert ''last_purged'' b (view (rs_db s) META_TREE)"
    by (auto simp: left_def)
  have "logid_from_slice J b = Inr lid" using raft_json.logid_roundtrip 2(4) raft_engine.axioms(2) [OF assms(1)] by blast
  then have pu: "map_of (view (rs_db s2) META_TREE) ''last_purged'' = None \<and> Some lid = None \<or>
      (\<exists>l b. Some lid = Some l \<and> map_of (view (rs_db s2) META_TREE) ''last_purged'' = Some b \<and> logid_from_slice J b = Inr l)"
    by (simp add: 2(5))
  obtain r3 s3 where g: "get_log_state S J s2 = (r3, s3)" by force
  from wpD [OF raft_log.get_log_state_wp [OF rl _ 2(2) pu] g] 1 2 g show ?thesis by auto
qed

theorem log_truncate_witness:
  "\<exists>s2. purge_logs_upto mem_sled ref_raft (demo_lid 4) demo_store = (Ok (), s2) \<and>
     get_log_state mem_sled ref_raft s2 = (Ok (Some (demo_lid 4), Some (demo_lid 4)), s2)"
proof -
  obtain r1 s1 where d: "delete_conflict_logs_since mem_sled (demo_lid 4) demo_store = (r1, s1)" by force
  obtain r2 s2 where p: "purge_logs_upto mem_sled ref_raft (demo_lid 4) demo_store = (r2, s2)" by force
  have "log_index (demo_lid 4) = 4" "entry_index (demo_entry i op) = i" for i op by (simp_all add: demo_entry_def demo_lid_def)
  with log_truncate [OF mem_raft.raft_engine_axioms demo_store_facts(3) d p] p show ?thesis
    by (simp add: demo_store_facts(4))
qed

section \<open>Durability\<close>



section \<open>Applying committed entries\<close>

text \<open>
  C17. Committed entries are applied once each, in log order: every entry gets the response of running
  its operation on the state its predecessors left, blank and membership entries answer \<^verbatim>\<open>Ack\<close> and
  leave the queues alone, no entry makes the store fail or panic, and afterwards
  \<^verbatim>\<open>last_applied_state\<close> is the log id of the last entry with the latest membership.
\<close>

theorem apply_in_order:
  assumes "raft_engine S view nxt False B J" "reach S B view (state_machine s)" "legal_entries clk es" "es \<noteq> []"
    and "applied_is J (view (rs_db s)) la" "membership_is J (view (rs_db s)) mem"
    and "apply_to_state_machine S B J clk es s = (r, s')"
  shows "\<exists>resps. r = Ok resps \<and> length resps = length es \<and>
    applies S B clk es (state_machine s) resps (state_machine s') \<and> reach S B view (state_machine s') \<and>
    last_applied_state S J s' = (Ok (Some (entry_log_id (last es)), latest_membership mem es), s') \<and>
    log_entries J (view (rs_db s')) = log_entries J (view (rs_db s))"
proof -
  from wpD [OF raft_engine.apply_entries_wp [OF assms(1) _ assms(2,3,5,6)] assms(7)] assms(4) obtain resps
    where 1: "r = Ok resps" "applies S B clk es (state_machine s) resps (state_machine s')" "reach S B view (state_machine s')"
      "view (rs_db s') LOG_TREE = view (rs_db s) LOG_TREE"
      and la: "applied_is J (view (rs_db s')) (Some (entry_log_id (last es)))"
      and mem: "membership_is J (view (rs_db s')) (latest_membership mem es)" by auto
  have "length resps = length es" using 1(2) by (induction rule: applies.induct) simp_all
  with 1 raft_engine.last_applied_state_wp [OF assms(1) _ la mem] show ?thesis
    by (auto simp: wp_def log_entries_def split: prod.splits)
qed

theorem apply_in_order_witness:
  "\<exists>resps s'. apply_to_state_machine mem_sled ref_bincode ref_raft (\<lambda>_ _ _. 1000)
       [demo_entry 4 (OpConsume ''q''), \<lparr>entry_log_id = demo_lid 5, entry_payload = Membership ''m''\<rparr>] demo_store = (Ok resps, s') \<and>
     length resps = 2 \<and> last_applied_state mem_sled ref_raft s' = (Ok (Some (demo_lid 5), Some (demo_lid 5), ''m''), s')"
proof -
  let ?es = "[demo_entry 4 (OpConsume ''q''), \<lparr>entry_log_id = demo_lid 5, entry_payload = Membership ''m''\<rparr>]"
  obtain r s' where a: "apply_to_state_machine mem_sled ref_bincode ref_raft (\<lambda>_ _ _. 1000) ?es demo_store = (r, s')" by force
  have l: "legal_entries (\<lambda>_ _ _. 1000) ?es" by (simp add: legal_entry_def demo_entry_def)
  have m: "reach mem_sled ref_bincode mem_view (state_machine demo_store)" using demo_reach(2) by simp
  from apply_in_order [OF mem_raft.raft_engine_axioms m l _ demo_store_facts(1,2) a] a show ?thesis
    by (auto simp: demo_entry_def)
qed



section \<open>Snapshots\<close>

text \<open>
  C18. A snapshot carries the state machine.  The first snapshot built by a healthy store whose manager
  is reachable succeeds and does not change the queues; installing it on a store with an empty manager
  succeeds, and that store then has the same queues with the same policies, the same ready, delayed,
  in-flight (under the same tags) and dead messages in the same order, the byte counter of what it
  stores, the builder's last applied log id and membership, and the snapshot as its current one.  Only
  the deduplication keys are not carried.
\<close>

theorem snapshot_transfer:
  assumes "raft_engine S view nxt False B J" "snapshot_json JS" "reach S B view (state_machine s)"
    and "applied_is J (view (rs_db s)) (Some lid)" "membership_is J (view (rs_db s)) mem"
    and "map_of (view (rs_db s) META_TREE) ''snapshot_idx'' = None"
    and "raft_build_snapshot S B JS J s = (r, s')"
    and "\<forall>t. view (mgr_db (state_machine u)) t = []"
    and "nxt (mgr_db (state_machine u)) + snapshot_ids (snapshot_of B (view (mgr_db (state_machine s)))) \<le> 2 ^ 64"
  defines "V \<equiv> view (mgr_db (state_machine s))"
  shows "\<exists>snap u'. r = Ok snap \<and> abs_state view nxt (state_machine s') = abs_state view nxt (state_machine s) \<and>
    get_current_snapshot s' = (Ok (Some snap), s') \<and>
    raft_install_snapshot S B JS J clk (ss_meta snap) (ss_data snap) u = (Ok (), u') \<and>
    declared (view (mgr_db (state_machine u'))) = declared V \<and>
    (\<forall>q \<in> declared V. copied B V (view (mgr_db (state_machine u'))) q) \<and>
    current_bytes (state_machine u') = of_nat (stored_bytes (view (mgr_db (state_machine u')))) \<and>
    last_applied_state S J u' = (Ok (Some lid, mem), u') \<and> get_current_snapshot u' = (Ok (Some snap), u')"
proof -
  note js = raft_engine.axioms(2) [OF assms(1)]
  note facts = engine_facts [OF raft_engine_engine [OF assms(1)] assms(3)]
  let ?meta = "\<lparr>last_log_id = Some lid, last_membership = mem, snapshot_id = snapshot_name J (Some lid) 1\<rparr>"
  from wpD [OF raft_engine.raft_build_wp [OF assms(1) _ facts(1) assms(2,4,5,6)] assms(7)] obtain data
    where b: "r = Ok \<lparr>ss_meta = ?meta, ss_data = data\<rparr>" "snap_from_slice JS data = Inr (snapshot_of B V)"
      "abs_state view nxt (state_machine s') = abs_state view nxt (state_machine s)"
      "current_snapshot s' = Some \<lparr>ss_meta = ?meta, ss_data = data\<rparr>" by (auto simp: V_def)
  obtain r2 u' where i: "raft_install_snapshot S B JS J clk ?meta data u = (r2, u')" by force
  from wpD [OF raft_engine.raft_install_wp [OF assms(1) _ facts(1,2) _ assms(8)] i] b(2) assms(9)
  have u: "r2 = Ok ()" "declared (view (mgr_db (state_machine u'))) = declared V"
    "\<forall>q \<in> declared V. copied B V (view (mgr_db (state_machine u'))) q"
    "current_bytes (state_machine u') = of_nat (stored_bytes (view (mgr_db (state_machine u'))))"
    "\<exists>b. logid_to_vec J lid = Inr b \<and> map_of (view (rs_db u') META_TREE) ''last_applied'' = Some b"
    "membership_is J (view (rs_db u')) mem" "current_snapshot u' = Some \<lparr>ss_meta = ?meta, ss_data = data\<rparr>"
    by (auto simp: V_def raft_json.logid_some [OF js])
  then have "applied_is J (view (rs_db u')) (Some lid)"
    using raft_json.logid_roundtrip [OF js, of lid] by (auto simp: applied_is_def)
  from raft_engine.last_applied_state_wp [OF assms(1) _ this u(6)] b i u show ?thesis
    by (auto simp: wp_def get_current_snapshot_def gets_def split: prod.splits)
qed

lemma fresh_machine: "\<forall>t. mem_view (mgr_db (state_machine demo_blank)) t = []"
  by (simp add: mem_start_def mem_empty_def mem_view_def)

lemma demo_snapshot_ids: "snapshot_ids (snapshot_of ref_bincode (mem_view (mgr_db demo_published))) = 2"
  by code_simp

theorem snapshot_transfer_witness:
  "\<exists>snap s' u'. raft_build_snapshot mem_sled ref_bincode ref_snapshot ref_raft demo_store = (Ok snap, s') \<and>
     raft_install_snapshot mem_sled ref_bincode ref_snapshot ref_raft (\<lambda>_. 1000) (ss_meta snap) (ss_data snap) demo_blank = (Ok (), u') \<and>
     copied ref_bincode (mem_view (mgr_db demo_published)) (mem_view (mgr_db (state_machine u'))) ''q'' \<and>
     last_applied_state mem_sled ref_raft u' = (Ok (Some (demo_lid 3), None, []), u')"
proof -
  obtain r s' where b: "raft_build_snapshot mem_sled ref_bincode ref_snapshot ref_raft demo_store = (r, s')" by force
  have m: "reach mem_sled ref_bincode mem_view (state_machine demo_store)" using demo_reach(2) by simp
  from snapshot_transfer [OF mem_raft.raft_engine_axioms ref_snap.snapshot_json_axioms m demo_store_facts(1,2,5) b fresh_machine]
    b demo_q(2) show ?thesis by (fastforce simp: demo_snapshot_ids mem_start_def mem_empty_def)
qed

text \<open>
  C34. The second snapshot panics.  \<^verbatim>\<open>build_snapshot\<close> writes its counter as JSON text and reads it back as
  eight raw bytes: on any healthy store with a reachable state machine and no snapshot yet, the first
  \<^verbatim>\<open>build_snapshot\<close> succeeds and the next one panics.
\<close>

theorem second_snapshot_panics:
  assumes "raft_engine S view nxt False B J" "snapshot_json JS" "reach S B view (state_machine s)"
    and "applied_is J (view (rs_db s)) la" "membership_is J (view (rs_db s)) mem"
    and "map_of (view (rs_db s) META_TREE) ''snapshot_idx'' = None"
    and "raft_build_snapshot S B JS J s = (r, s1)"
  shows "(\<exists>snap. r = Ok snap) \<and> fst (raft_build_snapshot S B JS J s1) = Panic"
proof -
  note facts = engine_facts [OF raft_engine_engine [OF assms(1)] assms(3)]
  from wpD [OF raft_engine.raft_build_wp [OF assms(1) _ facts(1) assms(2,4-6)] assms(7)]
  have 1: "\<exists>snap. r = Ok snap" "abs_state view nxt (state_machine s1) = abs_state view nxt (state_machine s)"
    "map_of (view (rs_db s1) META_TREE) ''snapshot_idx'' = Some (show_nat 1)"
    "applied_is J (view (rs_db s1)) la" "membership_is J (view (rs_db s1)) mem" by auto
  have "length (show_nat 1) < 8" by (simp add: show_nat.simps)
  from raft_engine.raft_build_panics [OF assms(1) _ _ assms(2) 1(4,5,3) this] facts(1) 1(1,2) show ?thesis
    by (auto simp: wp_def split: prod.splits)
qed

theorem second_snapshot_panics_witness:
  "fst (raft_build_snapshot mem_sled ref_bincode ref_snapshot ref_raft
     (snd (raft_build_snapshot mem_sled ref_bincode ref_snapshot ref_raft demo_store))) = Panic"
proof -
  have m: "reach mem_sled ref_bincode mem_view (state_machine demo_store)" using demo_reach(2) by simp
  from second_snapshot_panics [OF mem_raft.raft_engine_axioms ref_snap.snapshot_json_axioms m demo_store_facts(1,2,5) surjective_pairing]
  show ?thesis by blast
qed

end
