(* ===== verification/Raft_Divergence.thy ===== *)
theory Raft_Divergence
  imports Mem_Codec
begin

text \<open>
  Where the state of a replica depends on more than its log: restarts, the local clock and restored
  snapshots.  Each is shown on the model of the code, on a reachable state.
\<close>

definition clash_first :: message where
  "clash_first = Message_new 7 1000 ''hi'' fmempty"

definition clash_second :: message where
  "clash_second = Message_new 8 1000 ''yo'' fmempty"

text \<open>
  Queue \<^verbatim>\<open>q\<close> with the first message in flight under tag 0 and the second one ready under identifier
  \<open>i\<close>, with \<open>n\<close> as the next identifier, and its snapshot.
\<close>

definition clash_trees :: "otree \<Rightarrow> nat \<Rightarrow> u64 \<Rightarrow> mem_db manager" where
  "clash_trees xs n u =
     \<lparr>mgr_db = \<lparr>mem_trees = [(META_QUEUES_TREE, [(''q'', [])]),
                           (META_RETENTION_TREE, [(''q'', enc_policy RetentionPolicy_default)]),
                           (''q'', xs),
                           (''inflight:q'', [(to_be_bytes (0 :: u64), enc_message clash_first)])],
                mem_next = n\<rparr>,
      current_bytes = u, max_bytes = None\<rparr>"

definition clash_manager :: "u64 \<Rightarrow> nat \<Rightarrow> mem_db manager" where
  "clash_manager i n = clash_trees [(encode_key 0 i, enc_message clash_second)] n 74"

definition clash_snapshot :: manager_snapshot where
  "clash_snapshot = [(''q'', \<lparr>qs_policy = RetentionPolicy_default, qs_messages = [clash_second], qs_scheduled = [],
     qs_inflight = [(0, clash_first)], qs_dead_letter = []\<rparr>)]"






lemma clash_ids:
  "msg_ids ref_bincode (mem_view (mgr_db (clash_manager i n))) ''q'' = {#7, 8#}"
  "msg_ids ref_bincode (mem_view (mgr_db (snd (consume mem_sled ref_bincode ''q'' (clash_manager 0 1))))) ''q'' = {#8#}"
proof -
  have "msg_ids ref_bincode (mem_view (mgr_db (clash_manager i n))) ''q'' = msg_ids ref_bincode (mem_view (mgr_db (clash_manager 0 1))) ''q''"
    by (simp add: msg_ids_def stored_def clash_manager_def clash_trees_def mem_view_def inflight_tree_name_def dlq_tree_name_def
        scheduled_tree_name_def META_QUEUES_TREE_def META_RETENTION_TREE_def)
  also have "\<dots> = {#7, 8#}" by code_simp
  finally show "msg_ids ref_bincode (mem_view (mgr_db (clash_manager i n))) ''q'' = {#7, 8#}" .
  show "msg_ids ref_bincode (mem_view (mgr_db (snd (consume mem_sled ref_bincode ''q'' (clash_manager 0 1))))) ''q'' = {#8#}"
    by code_simp
qed

lemma clash_again:
  "restore_from_snapshot mem_sled ref_bincode (\<lambda>_. 1000) clash_snapshot (clash_manager 1 2) =
     (Ok (), clash_trees [(encode_key 0 1, enc_message clash_second), (encode_key 0 2, enc_message clash_second)] 3 111)"
  by code_simp

lemma clash_again_ids:
  "msg_ids ref_bincode (mem_view (mgr_db (clash_trees [(encode_key 0 1, enc_message clash_second),
     (encode_key 0 2, enc_message clash_second)] 3 111))) ''q'' = {#7, 8, 8#}"
  by code_simp


text \<open>
  Installing a snapshot on a manager that already has the queue duplicates its ready messages:
  \<^verbatim>\<open>restore_from_snapshot\<close> adds to what is there, while \<^verbatim>\<open>install_snapshot\<close> of the Raft store
  runs it on the live state machine.
\<close>

theorem restore_duplicates:
  "\<exists>m. restore_from_snapshot mem_sled ref_bincode (\<lambda>_. 1000) clash_snapshot (clash_manager 1 2) = (Ok (), m) \<and>
     msg_ids ref_bincode (mem_view (mgr_db (clash_manager 1 2))) ''q'' = {#7, 8#} \<and>
     msg_ids ref_bincode (mem_view (mgr_db m)) ''q'' = {#7, 8, 8#}"
  unfolding clash_again by (simp add: clash_ids clash_again_ids)

text \<open>
  C36. A restart is not in the log.  Let a tag be in flight in a reachable queue.  A replica that keeps
  running answers a replicated \<^verbatim>\<open>Ack\<close> of it with success; a replica in the same state that restarts
  first has made the message ready again, and answers the same entry with \<^verbatim>\<open>InvalidDeliveryTag\<close>.
\<close>

theorem restart_forgets_tags:
  assumes "engine S view nxt False B" "reach S B view m" "q \<in> declared (view (mgr_db m))"
    and "nxt (mgr_db m) + inflight_total (view (mgr_db m)) (queue_names (view (mgr_db m))) \<le> 2 ^ 64"
    and "flight (queue_of B (view (mgr_db m)) q) (tag_u64 tag) \<noteq> None"
  shows "fst (apply_operation S B clk (OpAck q tag) m) = Ok (RespAck (Inr ())) \<and>
    (\<exists>m'. open_manager S B (Inr (mgr_db m)) mx = (Ok (), Some m') \<and>
       fst (apply_operation S B clk (OpAck q tag) m') = Ok (RespAck (Inl (InvalidDeliveryTag tag))))"
proof -
  note facts = engine_facts [OF assms(1,2)]
  obtain m' where o: "open_manager S B (Inr (mgr_db m)) mx = (Ok (), Some m')"
    "declared (view (mgr_db m')) = declared (view (mgr_db m))" "restored B (view (mgr_db m)) (view (mgr_db m')) q"
    using engine.open_manager_healthy [OF assms(1) _ _ assms(4), of mx] facts(1) assms(3) by (auto simp: wf_state_def)
  have ack: "fst (apply_operation S B clk (OpAck q tag) x) =
      Ok (RespAck (if flight (queue_of B (view (mgr_db x)) q) (tag_u64 tag) = None then Inl (InvalidDeliveryTag tag) else Inr ()))"
    if x: "q \<in> declared (view (mgr_db x))" for x
  proof -
    obtain r y where r: "ack S q tag x = (r, y)" by force
    from ack_outcome [OF wpD [OF engine.ack_refines [OF assms(1)] r], of B] x
    have "r = (if flight (queue_of B (view (mgr_db x)) q) (tag_u64 tag) = None then Err (InvalidDeliveryTag tag) else Ok ())"
      by (auto split: if_splits)
    with r show ?thesis by (simp add: bnd_def attempt_def ret_def)
  qed
  have "flight (queue_of B (view (mgr_db m')) q) (tag_u64 tag) = None" using o(3) by (simp add: restored_def queue_of_def)
  with ack [OF assms(3)] ack [of m'] o(1,2) assms(3,5) show ?thesis by simp
qed

theorem restart_forgets_tags_witness:
  "\<exists>m'. open_manager mem_sled ref_bincode (Inr (mgr_db demo_consumed)) None = (Ok (), Some m') \<and>
     fst (apply_operation mem_sled ref_bincode (\<lambda>_ _. 0) (OpAck ''q'' (DeliveryTag 0)) m') =
       Ok (RespAck (Inl (InvalidDeliveryTag (DeliveryTag 0))))"
proof -
  have "inflight_total (mem_view (mgr_db demo_consumed)) (queue_names (mem_view (mgr_db demo_consumed))) = 1"
    "flight (queue_of ref_bincode (mem_view (mgr_db demo_consumed)) ''q'') 0 \<noteq> None" by code_simp+
  then show ?thesis
    using restart_forgets_tags [OF mem.engine_axioms demo_reach(3) demo_q(3), of "DeliveryTag 0" "\<lambda>_ _. 0" None] by simp
qed

end
