(* ===== verification/Raft_Network.thy ===== *)
theory Raft_Network
  imports State_Machine
begin




















section \<open>A remote call is the call on the peer\<close>




end
