(* ===== verification/Cluster_Config.thy ===== *)
theory Cluster_Config
  imports State_Machine "HOL-Library.Code_Target_Nat"
begin

text \<open>
  Configuration and start-up of \<^verbatim>\<open>pelicanqd\<close>: \<^verbatim>\<open>ClusterConfig::from_env\<close> (\<^verbatim>\<open>cluster_config.rs\<close>),
  \<^verbatim>\<open>Config::from_env\<close> (\<^verbatim>\<open>config.rs\<close>) and the decisions \<^verbatim>\<open>main\<close> takes from them (\<^verbatim>\<open>main.rs\<close>).  The
  environment is a partial map from names to UTF-8 strings; a variable that is unset or not Unicode
  is absent, as for \<^verbatim>\<open>std::env::var\<close>.

  The functions of Rust's standard library on strings that the parser uses come first: \<^verbatim>\<open>split\<close>,
  \<^verbatim>\<open>split_once\<close>, \<^verbatim>\<open>trim\<close> (Unicode white space in UTF-8) and \<^verbatim>\<open>u64::from_str\<close> with its three errors.
\<close>

section \<open>Strings\<close>

fun split_on :: "char \<Rightarrow> string \<Rightarrow> string list" where
  "split_on c [] = [[]]"
| "split_on c (x # xs) =
     (if x = c then [] # split_on c xs
      else (case split_on c xs of [] \<Rightarrow> [[x]] | p # ps \<Rightarrow> (x # p) # ps))"

fun split_once :: "char \<Rightarrow> string \<Rightarrow> (string \<times> string) option" where
  "split_once c [] = None"
| "split_once c (x # xs) =
     (if x = c then Some ([], xs) else map_option (\<lambda>(a, b). (x # a, b)) (split_once c xs))"

text \<open>The UTF-8 encodings of the characters with the Unicode property \<^verbatim>\<open>White_Space\<close>.\<close>

definition white_space :: "bytes list" where
  "white_space =
     map (\<lambda>n. [char_of n]) [0x09, 0x0A, 0x0B, 0x0C, 0x0D, 0x20 :: nat] @
     map (map char_of) [[0xC2, 0x85], [0xC2, 0xA0], [0xE1, 0x9A, 0x80 :: nat]] @
     map (\<lambda>n. [CHR 0xE2, CHR 0x80, char_of n]) ([0x80 ..< 0x8B] @ [0xA8, 0xA9, 0xAF :: nat]) @
     [[CHR 0xE2, CHR 0x81, CHR 0x9F], [CHR 0xE3, CHR 0x80, CHR 0x80]]"

function trim_start :: "bytes list \<Rightarrow> bytes \<Rightarrow> bytes" where
  "trim_start ws s =
     (case find (\<lambda>p. p \<noteq> [] \<and> prefix p s) ws of
        None \<Rightarrow> s
      | Some p \<Rightarrow> trim_start ws (drop (length p) s))"
  by pat_completeness auto
termination
proof (relation "measure (\<lambda>(ws, s). length s)", goal_cases)
  case (2 ws s p)
  then have "p \<noteq> []" "prefix p s" by (auto simp: find_Some_iff)
  then show ?case by (auto simp: prefix_def)
qed simp

declare trim_start.simps [simp del]

definition trim :: "string \<Rightarrow> string" where
  "trim s = rev (trim_start (map rev white_space) (rev (trim_start white_space s)))"

definition to_digit :: "char \<Rightarrow> nat option" where
  "to_digit c = (if 48 \<le> (of_char c :: nat) \<and> (of_char c :: nat) \<le> 57 then Some (of_char c - 48) else None)"

fun parse_digits :: "nat \<Rightarrow> string \<Rightarrow> string + u64" where
  "parse_digits acc [] = Inr (of_nat acc)"
| "parse_digits acc (c # cs) =
     (case to_digit c of
        None \<Rightarrow> Inl ''invalid digit found in string''
      | Some x \<Rightarrow>
          if acc * 10 \<ge> 2 ^ 64 \<or> acc * 10 + x \<ge> 2 ^ 64 then Inl ''number too large to fit in target type''
          else parse_digits (acc * 10 + x) cs)"

definition parse_u64 :: "string \<Rightarrow> string + u64" where
  "parse_u64 s =
     (case s of
        [] \<Rightarrow> Inl ''cannot parse integer from empty string''
      | c # cs \<Rightarrow>
          if cs = [] \<and> (c = CHR ''+'' \<or> c = CHR ''-'') then Inl ''invalid digit found in string''
          else if c = CHR ''+'' then parse_digits 0 cs
          else parse_digits 0 s)"

section \<open>The cluster configuration\<close>

record node_config =
  nc_id :: u64
  nc_raft_addr :: string
  nc_client_addr :: string

record cluster_config =
  self_id :: u64
  members :: "node_config list"

abbreviation quoted :: "string \<Rightarrow> string" where
  "quoted s \<equiv> CHR 0x27 # s @ [CHR 0x27]"

definition parse_member :: "string \<Rightarrow> string + node_config" where
  "parse_member entry =
     (case split_once CHR ''='' entry of
        None \<Rightarrow> Inl (''invalid cluster member entry (missing '' @ quoted ''='' @ ''): '' @ entry)
      | Some (id_addr_part, client_part) \<Rightarrow>
          (case split_once CHR ''@'' id_addr_part of
             None \<Rightarrow> Inl (''invalid cluster member entry (missing '' @ quoted ''@'' @ ''): '' @ entry)
           | Some (id_part, raft_part) \<Rightarrow>
               (case parse_u64 id_part of
                  Inl e \<Rightarrow> Inl (''invalid node id in '' @ quoted entry @ '': '' @ e)
                | Inr i \<Rightarrow> Inr \<lparr>nc_id = i, nc_raft_addr = raft_part, nc_client_addr = client_part\<rparr>)))"

fun parse_members :: "string list \<Rightarrow> string + node_config list" where
  "parse_members [] = Inr []"
| "parse_members (e # es) =
     (let entry = trim e in
      if entry = [] then parse_members es
      else
        (case parse_member entry of
           Inl err \<Rightarrow> Inl err
         | Inr n \<Rightarrow> (case parse_members es of Inl err \<Rightarrow> Inl err | Inr ns \<Rightarrow> Inr (n # ns))))"

type_synonym environment = "string \<Rightarrow> string option"

definition cluster_from_env :: "environment \<Rightarrow> string + cluster_config option" where
  "cluster_from_env env =
     (case env ''PELICANQ_NODE_ID'' of
        None \<Rightarrow> Inr None
      | Some v \<Rightarrow>
          (case parse_u64 v of
             Inl e \<Rightarrow> Inl (''invalid PELICANQ_NODE_ID '' @ quoted v @ '': '' @ e)
           | Inr i \<Rightarrow>
               (case env ''PELICANQ_CLUSTER_MEMBERS'' of
                  None \<Rightarrow> Inl ''PELICANQ_NODE_ID is set but PELICANQ_CLUSTER_MEMBERS is missing''
                | Some members_str \<Rightarrow>
                    (case parse_members (split_on CHR '','' members_str) of
                       Inl e \<Rightarrow> Inl e
                     | Inr ms \<Rightarrow>
                         if ms = [] then Inl ''PELICANQ_CLUSTER_MEMBERS is empty''
                         else if \<not> list_ex (\<lambda>m. nc_id m = i) ms then
                           Inl (''self_id '' @ show_nat (unat i) @ '' is not present in PELICANQ_CLUSTER_MEMBERS'')
                         else Inr (Some \<lparr>self_id = i, members = ms\<rparr>)))))"

section \<open>The daemon configuration\<close>




section \<open>Start-up\<close>








text \<open>The text of a configuration.\<close>

definition show_member :: "node_config \<Rightarrow> string" where
  "show_member m = show_nat (unat (nc_id m)) @ ''@'' @ nc_raft_addr m @ ''='' @ nc_client_addr m"

fun join_on :: "char \<Rightarrow> string list \<Rightarrow> string" where
  "join_on c [] = []"
| "join_on c [s] = s"
| "join_on c (s # ss) = s @ c # join_on c ss"

text \<open>Addresses of printable ASCII characters other than the two separators.\<close>

definition plain_addr :: "string \<Rightarrow> bool" where
  "plain_addr s = list_all (\<lambda>c. 33 \<le> (of_char c :: nat) \<and> (of_char c :: nat) \<le> 126 \<and> c \<noteq> CHR '','' \<and> c \<noteq> CHR ''='') s"




section \<open>Lemmas\<close>

lemma split_on_join:
  "\<forall>s \<in> set ss. c \<notin> set s \<Longrightarrow> ss \<noteq> [] \<Longrightarrow> split_on c (join_on c ss) = ss"
proof (induction c ss rule: join_on.induct)
  case (2 c s)
  have "c \<notin> set t \<Longrightarrow> split_on c t = [t]" for t by (induction t) auto
  with 2 show ?case by simp
next
  case (3 c s t ts)
  have "c \<notin> set u \<Longrightarrow> split_on c (u @ c # r) = u # split_on c r" for u r by (induction u) auto
  with 3 show ?case by simp
qed simp

lemma split_once_append: "c \<notin> set a \<Longrightarrow> split_once c (a @ c # b) = Some (a, b)"
  by (induction a) auto

lemma to_digit_char: "d < 10 \<Longrightarrow> to_digit (char_of (48 + d)) = Some d"
  by (simp add: to_digit_def)


lemma show_nat_step: "10 \<le> n \<Longrightarrow> show_nat n = show_nat (n div 10) @ [char_of (48 + n mod 10)]"
  by (subst show_nat.simps) simp

lemma parse_show_nat:
  "n < 2 ^ 64 \<Longrightarrow> parse_digits 0 (show_nat n @ r) = parse_digits n r"
proof (induction n arbitrary: r rule: show_nat.induct)
  case (1 n)
  show ?case
  proof (cases "n < 10")
    case True
    then have "show_nat n = [char_of (48 + n)]" by (simp add: show_nat.simps)
    with True 1 show ?thesis by (simp add: to_digit_char)
  next
    case False
    have "parse_digits 0 (show_nat (n div 10) @ char_of (48 + n mod 10) # r) = parse_digits (n div 10) (char_of (48 + n mod 10) # r)"
      using 1 False by simp
    also have "\<dots> = parse_digits n r"
      using to_digit_char [of "n mod 10"] 1(2) by (auto simp: mult.commute)
    finally show ?thesis using False by (simp add: show_nat_step)
  qed
qed

lemma show_nat_digits: "c \<in> set (show_nat n) \<Longrightarrow> 48 \<le> (of_char c :: nat) \<and> (of_char c :: nat) \<le> 57"
proof (induction n rule: show_nat.induct)
  case (1 n)
  show ?case
  proof (cases "n < 10")
    case True
    then show ?thesis using 1(2) by (simp add: show_nat.simps)
  next
    case False
    then show ?thesis using 1 by (auto simp: show_nat_step)
  qed
qed

lemma show_nat_nonempty: "show_nat n \<noteq> []"
  by (simp add: show_nat.simps [of n])

lemma parse_u64_show: "parse_u64 (show_nat (unat i)) = Inr i"
proof -
  obtain c cs where s: "show_nat (unat i) = c # cs" using show_nat_nonempty by (meson neq_Nil_conv)
  have "48 \<le> (of_char c :: nat)" using show_nat_digits [of c "unat i"] s by simp
  then have "c \<noteq> CHR ''+''" "c \<noteq> CHR ''-''" by auto
  moreover have "parse_digits 0 (show_nat (unat i)) = Inr i"
    using parse_show_nat [of "unat i" "[]"] unsigned_less [of i] by simp
  ultimately show ?thesis by (simp add: parse_u64_def s)
qed

lemma trim_start_id:
  assumes "\<forall>p \<in> set ws. p \<noteq> [] \<longrightarrow> \<not> prefix p s"
  shows "trim_start ws s = s"
proof -
  have "find (\<lambda>p. p \<noteq> [] \<and> prefix p s) ws = None" using assms by (auto simp: find_None_iff)
  then show ?thesis by (simp add: trim_start.simps)
qed

lemma white_space_ends:
  "\<forall>p \<in> set white_space. p \<noteq> [] \<and> \<not> (33 \<le> (of_char (hd p) :: nat) \<and> (of_char (hd p) :: nat) \<le> 126) \<and>
     \<not> (33 \<le> (of_char (last p) :: nat) \<and> (of_char (last p) :: nat) \<le> 126)"
  by code_simp

lemma trim_plain:
  assumes "s \<noteq> []" "33 \<le> (of_char (hd s) :: nat)" "(of_char (hd s) :: nat) \<le> 126"
    "33 \<le> (of_char (last s) :: nat)" "(of_char (last s) :: nat) \<le> 126"
  shows "trim s = s"
proof -
  have hd: "hd p = hd t" if "prefix p t" "p \<noteq> []" for p t :: bytes using that by (auto simp: prefix_def)
  have 1: "trim_start white_space s = s"
    by (rule trim_start_id) (use white_space_ends assms hd in metis)
  have 2: "trim_start (map rev white_space) (rev s) = rev s"
  proof (rule trim_start_id, safe)
    fix p assume "p \<in> set (map rev white_space)" "p \<noteq> []" "prefix p (rev s)"
    then have "rev p \<in> set white_space" "last (rev p) = last s"
      using hd [of p "rev s"] by (auto simp: last_rev hd_rev)
    with white_space_ends assms(4,5) show False by metis
  qed
  show ?thesis by (simp add: trim_def 1 2)
qed

lemma plain_addrD: "plain_addr s \<Longrightarrow> c \<in> set s \<Longrightarrow> 33 \<le> (of_char c :: nat) \<and> (of_char c :: nat) \<le> 126 \<and> c \<noteq> CHR '','' \<and> c \<noteq> CHR ''=''"
  by (auto simp: plain_addr_def list_all_iff)

lemma show_member_parse:
  assumes "plain_addr (nc_raft_addr m)" "plain_addr (nc_client_addr m)"
  shows "trim (show_member m) = show_member m" "show_member m \<noteq> []" "parse_member (show_member m) = Inr m"
    "CHR '','' \<notin> set (show_member m)"
proof -
  let ?n = "show_nat (unat (nc_id m))"
  have dig: "33 \<le> (of_char c :: nat) \<and> (of_char c :: nat) \<le> 126 \<and> c \<noteq> CHR '','' \<and> c \<noteq> CHR ''='' \<and> c \<noteq> CHR ''@''"
    if "c \<in> set ?n" for c using show_nat_digits [OF that] by auto
  show ne: "show_member m \<noteq> []" by (simp add: show_member_def)
  have all: "33 \<le> (of_char c :: nat) \<and> (of_char c :: nat) \<le> 126 \<and> c \<noteq> CHR '',''" if "c \<in> set (show_member m)" for c
    using that dig plain_addrD [OF assms(1)] plain_addrD [OF assms(2)] by (auto simp: show_member_def)
  from all [OF hd_in_set [OF ne]] all [OF last_in_set [OF ne]] show "trim (show_member m) = show_member m"
    by (intro trim_plain [OF ne]) simp_all
  show "CHR '','' \<notin> set (show_member m)" using all by blast
  have "CHR ''='' \<notin> set (?n @ ''@'' @ nc_raft_addr m)" using dig plain_addrD [OF assms(1)] by auto
  from split_once_append [OF this, of "nc_client_addr m"]
  have 1: "split_once CHR ''='' (show_member m) = Some (?n @ ''@'' @ nc_raft_addr m, nc_client_addr m)"
    by (simp add: show_member_def)
  have "CHR ''@'' \<notin> set ?n" using dig by auto
  from split_once_append [OF this, of "nc_raft_addr m"] 1 show "parse_member (show_member m) = Inr m"
    by (simp add: parse_member_def parse_u64_show)
qed

lemma parse_members_show:
  "\<forall>m \<in> set ms. plain_addr (nc_raft_addr m) \<and> plain_addr (nc_client_addr m) \<Longrightarrow> parse_members (map show_member ms) = Inr ms"
  by (induction ms) (simp_all add: show_member_parse)





text \<open>
  C31. The cluster configuration round trip: for any members with addresses of printable ASCII characters
  without \<^verbatim>\<open>,\<close> and \<^verbatim>\<open>=\<close>, writing them as \<^verbatim>\<open>id@raft=client\<close> separated by commas and parsing the
  environment gives back the same members in the same order, for every 64-bit id.
\<close>

theorem cluster_config_roundtrip:
  assumes "list_all (\<lambda>m. plain_addr (nc_raft_addr m) \<and> plain_addr (nc_client_addr m)) ms"
    and "i \<in> set (map nc_id ms)"
    and "env ''PELICANQ_NODE_ID'' = Some (show_nat (unat i))"
    and "env ''PELICANQ_CLUSTER_MEMBERS'' = Some (join_on CHR '','' (map show_member ms))"
  shows "cluster_from_env env = Inr (Some \<lparr>self_id = i, members = ms\<rparr>)"
proof -
  have ms: "\<forall>m \<in> set ms. plain_addr (nc_raft_addr m) \<and> plain_addr (nc_client_addr m)" "ms \<noteq> []"
    using assms(1,2) by (auto simp: list_all_iff)
  have "split_on CHR '','' (join_on CHR '','' (map show_member ms)) = map show_member ms"
    using ms show_member_parse(4) by (intro split_on_join) auto
  with ms assms(2-4) parse_members_show [OF ms(1)] show ?thesis
    by (auto simp: cluster_from_env_def parse_u64_show list_ex_iff)
qed

theorem cluster_config_roundtrip_witness:
  "cluster_from_env [''PELICANQ_NODE_ID'' \<mapsto> ''2'',
       ''PELICANQ_CLUSTER_MEMBERS'' \<mapsto> ''1@10.0.0.1:7071=10.0.0.1:7070,2@10.0.0.2:7071=10.0.0.2:7070''] =
     Inr (Some \<lparr>self_id = 2, members = [\<lparr>nc_id = 1, nc_raft_addr = ''10.0.0.1:7071'', nc_client_addr = ''10.0.0.1:7070''\<rparr>,
       \<lparr>nc_id = 2, nc_raft_addr = ''10.0.0.2:7071'', nc_client_addr = ''10.0.0.2:7070''\<rparr>]\<rparr>)"
proof -
  let ?ms = "[\<lparr>nc_id = 1, nc_raft_addr = ''10.0.0.1:7071'', nc_client_addr = ''10.0.0.1:7070''\<rparr>,
       \<lparr>nc_id = 2, nc_raft_addr = ''10.0.0.2:7071'', nc_client_addr = ''10.0.0.2:7070''\<rparr>]"
  have "list_all (\<lambda>m. plain_addr (nc_raft_addr m) \<and> plain_addr (nc_client_addr m)) ?ms"
    "show_nat (unat (2 :: u64)) = ''2''"
    "join_on CHR '','' (map show_member ?ms) = ''1@10.0.0.1:7071=10.0.0.1:7070,2@10.0.0.2:7071=10.0.0.2:7070''"
    by code_simp+
  then show ?thesis by (intro cluster_config_roundtrip) simp_all
qed





end
