(* ===== verification/App_Engine.thy ===== *)
theory App_Engine
  imports State_Machine
begin

text \<open>
  The execution engine the three servers of \<^verbatim>\<open>pelicanqd\<close> share (\<^verbatim>\<open>AppEngine\<close> of \<^verbatim>\<open>api.rs\<close>): \<^verbatim>\<open>Solo\<close>
  holds the queue manager behind a \<^verbatim>\<open>std::sync::Mutex\<close>, \<^verbatim>\<open>Flock\<close> sends every change through
  consensus and reads the local state machine.

  A \<^verbatim>\<open>Mutex\<close> is poisoned when a thread panics while it holds the lock, and \<^verbatim>\<open>lock().unwrap()\<close> on a
  poisoned one panics.  A handler is a function from the engine to an outcome and the engine; in both
  modes it runs one queue operation and turns its result into a reply, so that a handler is given by
  its two branches (\<^verbatim>\<open>dispatch\<close>).

  The consensus library is the parameter \<^verbatim>\<open>flock\<close>.  The locale \<^verbatim>\<open>flock_leader\<close> is what the library
  documents for a leader: \<^verbatim>\<open>client_write\<close> returns after the operation has been committed and
  applied to the local state machine.
\<close>

record 'db mutex =
  guarded :: "'db manager"
  poisoned :: bool

definition lock_run :: "('db, 'a) mprog \<Rightarrow> ('db mutex, 'e, pelican_error + 'a) prog" where
  "lock_run c mx =
     (if poisoned mx then (Panic, mx)
      else
        (case c (guarded mx) of
           (Ok a, m) \<Rightarrow> (Ok (Inr a), mx\<lparr>guarded := m\<rparr>)
         | (Err e, m) \<Rightarrow> (Ok (Inl e), mx\<lparr>guarded := m\<rparr>)
         | (Panic, m) \<Rightarrow> (Panic, \<lparr>guarded = m, poisoned = True\<rparr>)
         | (Diverge, m) \<Rightarrow> (Diverge, mx\<lparr>guarded := m\<rparr>)))"

record ('w, 'db) flock =
  raft_client_write :: "'w \<Rightarrow> queue_operation \<Rightarrow> (raft_error + queue_operation_response) \<times> 'w"
  raft_local :: "'w \<Rightarrow> 'db manager"
  raft_update_local :: "'w \<Rightarrow> 'db manager \<Rightarrow> 'w"
  raft_metrics :: "'w \<Rightarrow> u64 \<times> u64 option"

datatype ('db, 'w) app_engine = Solo "'db mutex" | Flock 'w

type_synonym ('db, 'w, 'e, 'r) handler = "(('db, 'w) app_engine, 'e, 'r) prog"

definition with_qm :: "('w, 'db) flock \<Rightarrow> ('db, 'a) mprog \<Rightarrow> ('w, 'e, pelican_error + 'a) prog" where
  "with_qm F c w =
     (case c (raft_local F w) of
        (Ok a, m) \<Rightarrow> (Ok (Inr a), raft_update_local F w m)
      | (Err e, m) \<Rightarrow> (Ok (Inl e), raft_update_local F w m)
      | (Panic, m) \<Rightarrow> (Panic, raft_update_local F w m)
      | (Diverge, m) \<Rightarrow> (Diverge, raft_update_local F w m))"

text \<open>Continue with a result while keeping the new state.\<close>

definition and_then :: "('e, 'a) outcome \<times> 's \<Rightarrow> ('s \<Rightarrow> 't) \<Rightarrow> ('a \<Rightarrow> ('e, 'r) outcome) \<Rightarrow> ('e, 'r) outcome \<times> 't" where
  "and_then p wrap f =
     (case p of
        (Ok a, s) \<Rightarrow> (f a, wrap s)
      | (Err e, s) \<Rightarrow> (Err e, wrap s)
      | (Panic, s) \<Rightarrow> (Panic, wrap s)
      | (Diverge, s) \<Rightarrow> (Diverge, wrap s))"

text \<open>
  A handler that changes queues: in Solo mode \<open>c\<close> runs under the lock and \<open>f\<close> makes the reply; in
  Flock mode \<open>op\<close> is written through consensus and \<open>g\<close> makes the reply.
\<close>

definition dispatch ::
    "('w, 'db) flock \<Rightarrow> ('db, 'a) mprog \<Rightarrow> (pelican_error + 'a \<Rightarrow> ('e, 'r) outcome) \<Rightarrow>
       queue_operation \<Rightarrow> (write_result \<Rightarrow> ('e, 'r) outcome) \<Rightarrow> ('db, 'w, 'e, 'r) handler" where
  "dispatch F c f op g eng =
     (case eng of
        Solo mx \<Rightarrow> and_then (lock_run c mx) Solo f
      | Flock w \<Rightarrow> (case client_write (raft_client_write F) w op of (wr, w') \<Rightarrow> (g wr, Flock w')))"

text \<open>A handler that only reads.\<close>

definition dispatch_read ::
    "('w, 'db) flock \<Rightarrow> ('db, 'a) mprog \<Rightarrow> (pelican_error + 'a \<Rightarrow> ('e, 'r) outcome) \<Rightarrow> ('db, 'w, 'e, 'r) handler" where
  "dispatch_read F c f eng =
     (case eng of
        Solo mx \<Rightarrow> and_then (lock_run c mx) Solo f
      | Flock w \<Rightarrow> and_then (with_qm F c w) Flock f)"

text \<open>
  A Solo engine that is not poisoned and whose manager satisfies \<open>P\<close>, and a Flock engine whose local
  state machine is the same manager.
\<close>

definition solo_ok :: "('db manager \<Rightarrow> bool) \<Rightarrow> ('db, 'w) app_engine \<Rightarrow> bool" where
  "solo_ok P eng \<longleftrightarrow> (\<exists>m. eng = Solo \<lparr>guarded = m, poisoned = False\<rparr> \<and> P m)"

definition same_manager ::
    "('w, 'db) flock \<Rightarrow> ('db manager \<Rightarrow> bool) \<Rightarrow> ('db, 'w) app_engine \<Rightarrow> ('db, 'w) app_engine \<Rightarrow> bool" where
  "same_manager F P a b \<longleftrightarrow>
     (\<exists>m w. a = Solo \<lparr>guarded = m, poisoned = False\<rparr> \<and> b = Flock w \<and> raft_local F w = m \<and> P m)"

text \<open>
  \<open>serves P h\<close>: on a Solo engine whose manager satisfies \<open>P\<close> the handler returns, keeps \<open>P\<close> and does
  not poison the mutex.  \<open>alike F P h\<close>: started on a Solo engine and on a Flock engine over the same
  manager, the handler gives the same reply and leaves the same manager.
\<close>

definition serves :: "('db manager \<Rightarrow> bool) \<Rightarrow> ('db, 'w, 'e, 'r) handler \<Rightarrow> bool" where
  "serves P h \<longleftrightarrow> (\<forall>eng. solo_ok P eng \<longrightarrow> wp h (\<lambda>r eng'. solo_ok P eng' \<and> returns r) eng)"

definition alike :: "('w, 'db) flock \<Rightarrow> ('db manager \<Rightarrow> bool) \<Rightarrow> ('db, 'w, 'e, 'r) handler \<Rightarrow> bool" where
  "alike F P h \<longleftrightarrow>
     (\<forall>a b. same_manager F P a b \<longrightarrow> fst (h a) = fst (h b) \<and> same_manager F P (snd (h a)) (snd (h b)))"

text \<open>A program that keeps \<open>P\<close> and returns.\<close>

definition sound_prog :: "('db manager \<Rightarrow> bool) \<Rightarrow> ('db, 'a) mprog \<Rightarrow> bool" where
  "sound_prog P c \<longleftrightarrow> (\<forall>m. P m \<longrightarrow> wp c (\<lambda>r m'. P m' \<and> returns r) m)"

abbreviation result_of :: "('e, 'a) outcome \<Rightarrow> 'e + 'a" where
  "result_of r \<equiv> (case r of Err e \<Rightarrow> Inl e | Ok a \<Rightarrow> Inr a)"

section \<open>Rules\<close>

lemma and_then_simps [simp]:
  "and_then (Ok a, s) wrap f = (f a, wrap s)"
  "and_then (Err e, s) wrap f = (Err e, wrap s)"
  "and_then (Panic, s) wrap f = (Panic, wrap s)"
  "and_then (Diverge, s) wrap f = (Diverge, wrap s)"
  by (simp_all add: and_then_def)

lemma lock_run_returns:
  assumes "c m = (r, m')" "returns r"
  shows "lock_run c \<lparr>guarded = m, poisoned = False\<rparr> =
     (Ok (result_of r), \<lparr>guarded = m', poisoned = False\<rparr>)"
  using assms by (cases r) (simp_all add: lock_run_def)

lemma with_qm_returns:
  assumes "c (raft_local F w) = (r, m')" "returns r"
  shows "with_qm F c w = (Ok (result_of r), raft_update_local F w m')"
  using assms by (cases r) (simp_all add: with_qm_def)

lemma bnd_attempt_ret:
  "c m = (r, m') \<Longrightarrow> returns r \<Longrightarrow> bnd (attempt c) (\<lambda>x. ret (R x)) m = (Ok (R (result_of r)), m')"
  by (cases r) (simp_all add: attempt_def bnd_def ret_def)

lemma dispatch_solo:
  assumes "c m = (r, m')" "returns r"
  shows "dispatch F c f op g (Solo \<lparr>guarded = m, poisoned = False\<rparr>) =
      (f (result_of r), Solo \<lparr>guarded = m', poisoned = False\<rparr>)"
    and "dispatch_read F c f (Solo \<lparr>guarded = m, poisoned = False\<rparr>) =
      (f (result_of r), Solo \<lparr>guarded = m', poisoned = False\<rparr>)"
  by (simp_all add: dispatch_def dispatch_read_def lock_run_returns [where c = c, OF assms])

lemma sound_progE:
  assumes "sound_prog P c" "P m"
  obtains r m' where "c m = (r, m')" "P m'" "returns r"
  using assms by (cases "c m") (auto simp: sound_prog_def wp_def)

lemma sound_prog_simps [simp]: "sound_prog P (ret x)" "sound_prog P (throw e)"
  by (simp_all add: sound_prog_def wp_simps)

lemma sound_prog_bnd:
  assumes "sound_prog P c" "\<And>x. sound_prog P (f x)"
  shows "sound_prog P (bnd c f)"
  using assms unfolding sound_prog_def wp_bnd by (fastforce elim: wp_mono simp: on_ok_def split: outcome.splits)

lemma sound_prog_attempt: "sound_prog P c \<Longrightarrow> sound_prog P (attempt c)"
  unfolding sound_prog_def wp_attempt by (fastforce elim: wp_mono split: outcome.splits)

lemma serves_ret [simp]: "serves P (ret x)" "serves P (throw e)"
  by (simp_all add: serves_def wp_simps)

lemma serves_bnd:
  assumes "serves P h" "\<And>x. serves P (k x)"
  shows "serves P (bnd h k)"
  using assms unfolding serves_def wp_bnd by (fastforce elim: wp_mono simp: on_ok_def split: outcome.splits)

lemma serves_dispatch:
  assumes "sound_prog P c" "\<And>x. returns (f x)"
  shows "serves P (dispatch F c f op g)" and "serves P (dispatch_read F c f)"
  using assms by (auto simp: serves_def solo_ok_def wp_def dispatch_solo elim!: sound_progE)

lemma alike_ret [simp]: "alike F P (ret x)" "alike F P (throw e)"
  by (simp_all add: alike_def ret_def throw_def)

lemma alike_bnd:
  assumes "alike F P h" "\<And>x. alike F P (k x)"
  shows "alike F P (bnd h k)"
  unfolding alike_def
proof (intro allI impI)
  fix a b assume "same_manager F P a b"
  with assms(1) have *: "fst (h a) = fst (h b)" "same_manager F P (snd (h a)) (snd (h b))" by (auto simp: alike_def)
  obtain r a' where a: "h a = (r, a')" by force
  obtain b' where b: "h b = (r, b')" using * a by (cases "h b") simp
  show "fst (bnd h k a) = fst (bnd h k b) \<and> same_manager F P (snd (bnd h k a)) (snd (bnd h k b))"
    using *(2) assms(2) by (cases r) (simp_all add: bnd_def a b alike_def)
qed

locale flock_leader =
  fixes F :: "('w, 'db) flock"
    and S :: "'db sled"
    and B :: bincode
    and clk :: "nat \<Rightarrow> nat \<Rightarrow> i64"
  assumes write_applies: "apply_operation S B clk op (raft_local F w) = (Ok resp, m') \<Longrightarrow>
      \<exists>w'. raft_client_write F w op = (Inr resp, w') \<and> raft_local F w' = m'"
    and update_local: "raft_local F (raft_update_local F w m) = m"
begin

lemma alike_dispatch:
  assumes c: "sound_prog P c"
    and op: "\<And>m r m'. c m = (r, m') \<Longrightarrow> returns r \<Longrightarrow>
       \<exists>resp. apply_operation S B clk op m = (Ok resp, m') \<and> f (result_of r) = g (WriteOk resp)"
  shows "alike F P (dispatch F c f op g)"
  unfolding alike_def
proof (intro allI impI)
  fix a b assume "same_manager F P a b"
  then obtain m w where ab: "a = Solo \<lparr>guarded = m, poisoned = False\<rparr>" "b = Flock w" "raft_local F w = m" and m: "P m"
    by (auto simp: same_manager_def)
  from c m obtain r m' where run: "c m = (r, m')" and r: "P m'" "returns r" by (rule sound_progE)
  from op [OF run r(2)] obtain resp where ap: "apply_operation S B clk op m = (Ok resp, m')"
    and eq: "f (result_of r) = g (WriteOk resp)" by blast
  from write_applies [of op w] ap ab(3) obtain w' where "raft_client_write F w op = (Inr resp, w')" "raft_local F w' = m'" by auto
  then have "dispatch F c f op g b = (g (WriteOk resp), Flock w')" "raft_local F w' = m'"
    by (simp_all add: dispatch_def ab client_write_def)
  with eq r show "fst (dispatch F c f op g a) = fst (dispatch F c f op g b) \<and>
      same_manager F P (snd (dispatch F c f op g a)) (snd (dispatch F c f op g b))"
    by (simp add: ab(1) dispatch_solo(1) [where c = c, OF run r(2)] same_manager_def)
qed

lemma alike_dispatch_read:
  assumes "sound_prog P c"
  shows "alike F P (dispatch_read F c f)"
  unfolding alike_def
proof (intro allI impI)
  fix a b assume "same_manager F P a b"
  then obtain m w where ab: "a = Solo \<lparr>guarded = m, poisoned = False\<rparr>" "b = Flock w" "raft_local F w = m" and m: "P m"
    by (auto simp: same_manager_def)
  from assms m obtain r m' where run: "c m = (r, m')" and r: "P m'" "returns r" by (rule sound_progE)
  have "dispatch_read F c f b = (f (result_of r), Flock (raft_update_local F w m'))"
    using run r(2) by (simp add: dispatch_read_def ab with_qm_returns [of c F w r m'])
  with r show "fst (dispatch_read F c f a) = fst (dispatch_read F c f b) \<and>
      same_manager F P (snd (dispatch_read F c f a)) (snd (dispatch_read F c f b))"
    by (simp add: ab(1) dispatch_solo(2) [where c = c, OF run r(2)] same_manager_def update_local)
qed

end

section \<open>The queue operations are sound\<close>

text \<open>Every operation a server calls keeps the store well formed and returns, I/O failures included.\<close>

context engine
begin

lemma wf_manager_state: "wf_manager B view nxt m = wf_state B (abs m)"
  by (simp add: wf_manager_def wf_state_def abs_state_def)

lemma call_sound: "legal c \<Longrightarrow> sound_prog (wf_manager B view nxt) (call_prog S B c)"
  unfolding sound_prog_def wf_manager_state using call_ok by auto

lemma discard_sound: "sound_prog P (discard c) \<Longrightarrow> sound_prog P c"
  unfolding sound_prog_def wp_discard by (fastforce elim: wp_mono simp: on_ok_def split: outcome.splits)

lemma ops_sound:
  shows "plain_name q \<Longrightarrow> utf8_ok q \<Longrightarrow> sound_prog (wf_manager B view nxt) (declare_queue_with_retention S B q P)"
    and "plain_name q \<Longrightarrow> utf8_ok q \<Longrightarrow> sound_prog (wf_manager B view nxt) (declare_queue S B q)"
    and "0 \<le> sint (clk 1) \<Longrightarrow> sound_prog (wf_manager B view nxt) (publish S B clk q msg)"
    and "sound_prog (wf_manager B view nxt) (consume S B q)"
    and "sound_prog (wf_manager B view nxt) (ack S q tag)"
    and "sound_prog (wf_manager B view nxt) (nack S B q tag)"
  using call_sound [of "CDeclare q P"] call_sound [of "CDeclare q RetentionPolicy_default"] call_sound [of "CPublish clk q msg"]
    call_sound [of "CConsume q"] call_sound [of "CAck q tag"] call_sound [of "CNack q tag"]
  by (simp_all add: discard_sound declare_queue_def)

lemma count_sound:
  assumes "\<And>m. wp c (\<lambda>r m'. count_spec faulty q t (abs m) r (abs m')) m"
  shows "sound_prog (wf_manager B view nxt) c"
  unfolding sound_prog_def wf_manager_state
  by (intro allI impI wp_mono [OF assms]) (auto simp: count_spec_def split: outcome.splits)

lemma reads_sound:
  "sound_prog (wf_manager B view nxt) (depth S q)"
  "sound_prog (wf_manager B view nxt) (scheduled_depth S q)"
  "sound_prog (wf_manager B view nxt) (list_queues S)"
proof -
  show "sound_prog (wf_manager B view nxt) (depth S q)" "sound_prog (wf_manager B view nxt) (scheduled_depth S q)"
    by (rule count_sound [OF count_refines(1)], rule count_sound [OF count_refines(3)])
  show "sound_prog (wf_manager B view nxt) (list_queues S)"
    unfolding sound_prog_def
    by (intro allI impI wp_mono [OF list_queues_wp]) (auto split: outcome.splits)
qed

end

end
