(* ===== verification/Http_Api.thy ===== *)
theory Http_Api
  imports App_Engine Cluster_Config
begin

text \<open>
  The HTTP interface (\<^verbatim>\<open>pelicanqd/src/api.rs\<close>): one definition per handler, the error responses, and
  the router.  A request carries what axum's extractors make of it: the path and, for the routes
  with a body, the parsed body or the response of the extractor's rejection.  The record \<^verbatim>\<open>libs\<close> holds
  the calls into \<^verbatim>\<open>base64\<close>, \<^verbatim>\<open>uuid\<close> and \<^verbatim>\<open>http\<close>; the locale \<^verbatim>\<open>web_libs\<close> their documented laws.
  The fresh UUID and the clock readings are arguments.
\<close>

section \<open>Libraries, requests and responses\<close>

record libs =
  b64_encode :: "bytes \<Rightarrow> string"
  b64_decode :: "string \<Rightarrow> string + bytes"
  show_uuid :: "uuid \<Rightarrow> string"
  parse_uuid :: "string \<Rightarrow> string + uuid"
  header_value_ok :: "string \<Rightarrow> bool"

locale web_libs =
  fixes L :: libs
  assumes b64_roundtrip: "b64_decode L (b64_encode L bs) = Inr bs"
    and uuid_roundtrip: "parse_uuid L (show_uuid L u) = Inr u"
    and uuid_not_empty: "isl (parse_uuid L [])"

datatype json =
    JNull
  | JBool bool
  | JInt int
  | JStr string
  | JMap "(string, string) fmap"
  | JArr "json list"
  | JObj "(string \<times> json) list"

record http_response =
  http_status :: nat
  http_body :: "json option"
  leader_header :: "string option"

record publish_request =
  payload_base64 :: string
  req_headers :: "(string, string) fmap"

record ack_nack_request =
  req_tag :: delivery_tag

definition respond :: "nat \<Rightarrow> json \<Rightarrow> http_response" where
  "respond st body = \<lparr>http_status = st, http_body = Some body, leader_header = None\<rparr>"

definition map_error :: "pelican_error \<Rightarrow> http_response" where
  "map_error e =
     respond (case e of
         QueueNotFound _ \<Rightarrow> 404
       | QueueAlreadyExists _ \<Rightarrow> 409
       | InvalidDeliveryTag _ \<Rightarrow> 400
       | StorageLimitExceeded _ _ \<Rightarrow> 413
       | MessageDeadLettered _ _ \<Rightarrow> 200
       | _ \<Rightarrow> 500) (JObj [(''error'', JStr (pelican_error_to_string e))])"

definition empty_response :: "nat \<Rightarrow> http_response" where
  "empty_response st = \<lparr>http_status = st, http_body = None, leader_header = None\<rparr>"

text \<open>\<^verbatim>\<open>HeaderValue::from_str(..).unwrap()\<close> panics on an address that is no header value.\<close>

definition not_leader_response :: "libs \<Rightarrow> node option \<Rightarrow> (unit, http_response) outcome" where
  "not_leader_response L leader_node =
     (let resp = respond 421 (JObj [(''error'', JStr ''not leader'')]) in
      case leader_node of
        None \<Rightarrow> Ok resp
      | Some n \<Rightarrow>
          if client_addr n \<noteq> [] then
            (if header_value_ok L (client_addr n) then Ok (resp\<lparr>leader_header := Some (client_addr n)\<rparr>) else Panic)
          else Ok resp)"

definition flock_error_response :: "string \<Rightarrow> http_response" where
  "flock_error_response msg = respond 500 (JObj [(''error'', JStr msg)])"

text \<open>The common end of the Flock branches: not the leader, an error, or another kind of response.\<close>

definition flock_rest :: "libs \<Rightarrow> write_result \<Rightarrow> (unit, http_response) outcome" where
  "flock_rest L wr =
     (case wr of
        NotLeader leader_node \<Rightarrow> not_leader_response L leader_node
      | WriteError msg \<Rightarrow> Ok (flock_error_response msg)
      | WriteOk _ \<Rightarrow> Ok (flock_error_response ''unexpected response type''))"

section \<open>The handlers\<close>

definition api_health :: "('db, 'w, unit, http_response) handler" where
  "api_health = ret (respond 200 (JObj [(''status'', JStr ''ok'')]))"

definition unit_reply :: "nat \<Rightarrow> pelican_error + unit \<Rightarrow> (unit, http_response) outcome" where
  "unit_reply st r = (case r of Inr _ \<Rightarrow> Ok (respond st JNull) | Inl e \<Rightarrow> Ok (map_error e))"

definition api_declare_queue ::
    "'db sled \<Rightarrow> bincode \<Rightarrow> libs \<Rightarrow> ('w, 'db) flock \<Rightarrow> string \<Rightarrow> ('db, 'w, unit, http_response) handler" where
  "api_declare_queue S B L F name =
     dispatch F (declare_queue S B name) (unit_reply 201)
       (OpDeclareQueue name RetentionPolicy_default)
       (\<lambda>wr. case wr of
          WriteOk (RespDeclareQueue r) \<Rightarrow> unit_reply 201 r
        | _ \<Rightarrow> flock_rest L wr)"

fun queue_entries :: "'db sled \<Rightarrow> string list \<Rightarrow> ('db, (string \<times> nat) list) mprog" where
  "queue_entries S [] = ret []"
| "queue_entries S (name # names) =
     bnd (attempt (depth S name)) (\<lambda>d.
     bnd (queue_entries S names) (\<lambda>es.
     ret ((name, case d of Inl _ \<Rightarrow> 0 | Inr n \<Rightarrow> n) # es)))"

definition api_list_queues :: "'db sled \<Rightarrow> ('w, 'db) flock \<Rightarrow> ('db, 'w, unit, http_response) handler" where
  "api_list_queues S F =
     dispatch_read F (bnd (list_queues S) (queue_entries S))
       (\<lambda>r. Ok (respond 200 (JObj [(''queues'',
          JArr (map (\<lambda>(name, d). JObj [(''name'', JStr name), (''depth'', JInt (int d))])
            (case r of Inl _ \<Rightarrow> [] | Inr es \<Rightarrow> es)))])))"

definition publish_reply :: "libs \<Rightarrow> uuid \<Rightarrow> pelican_error + publish_outcome \<Rightarrow> (unit, http_response) outcome" where
  "publish_reply L new_id r =
     (case r of
        Inr (Stored _) \<Rightarrow> Ok (respond 201 (JObj [(''id'', JStr (show_uuid L new_id))]))
      | Inr Deduplicated \<Rightarrow> Ok (respond 200 (JObj [(''status'', JStr ''deduplicated'')]))
      | Inl e \<Rightarrow> Ok (map_error e))"

definition api_publish ::
    "'db sled \<Rightarrow> bincode \<Rightarrow> libs \<Rightarrow> ('w, 'db) flock \<Rightarrow> uuid \<Rightarrow> i64 \<Rightarrow> (nat \<Rightarrow> i64) \<Rightarrow> string \<Rightarrow> publish_request \<Rightarrow>
       ('db, 'w, unit, http_response) handler" where
  "api_publish S B L F new_id now_ms clk name req =
     (case b64_decode L (payload_base64 req) of
        Inl e \<Rightarrow> ret (respond 400 (JObj [(''error'', JStr (''invalid base64: '' @ e))]))
      | Inr bs \<Rightarrow>
          let msg = Message_new new_id now_ms bs (req_headers req) in
          dispatch F (publish S B clk name msg) (publish_reply L (msg_id msg))
            (OpPublish name msg)
            (\<lambda>wr. case wr of
               WriteOk (RespPublish r) \<Rightarrow> publish_reply L (msg_id msg) r
             | _ \<Rightarrow> flock_rest L wr))"

definition consumed_json :: "libs \<Rightarrow> delivery_tag \<Rightarrow> message \<Rightarrow> json" where
  "consumed_json L tag msg =
     JObj [(''delivery_tag'', JInt (uint (tag_u64 tag))),
           (''id'', JStr (show_uuid L (msg_id msg))),
           (''payload_base64'', JStr (b64_encode L (payload msg))),
           (''headers'', JMap (headers msg)),
           (''timestamp'', JInt (sint (timestamp msg)))]"

definition consume_reply :: "libs \<Rightarrow> pelican_error + (delivery_tag \<times> message) option \<Rightarrow> (unit, http_response) outcome" where
  "consume_reply L r =
     (case r of
        Inr (Some (tag, msg)) \<Rightarrow> Ok (respond 200 (consumed_json L tag msg))
      | Inr None \<Rightarrow> Ok (respond 204 JNull)
      | Inl e \<Rightarrow> Ok (map_error e))"

definition api_consume ::
    "'db sled \<Rightarrow> bincode \<Rightarrow> libs \<Rightarrow> ('w, 'db) flock \<Rightarrow> string \<Rightarrow> ('db, 'w, unit, http_response) handler" where
  "api_consume S B L F name =
     dispatch F (consume S B name) (consume_reply L)
       (OpConsume name)
       (\<lambda>wr. case wr of
          WriteOk (RespConsume r) \<Rightarrow> consume_reply L r
        | _ \<Rightarrow> flock_rest L wr)"

definition api_ack ::
    "'db sled \<Rightarrow> libs \<Rightarrow> ('w, 'db) flock \<Rightarrow> string \<Rightarrow> ack_nack_request \<Rightarrow> ('db, 'w, unit, http_response) handler" where
  "api_ack S L F name req =
     dispatch F (ack S name (req_tag req)) (unit_reply 200)
       (OpAck name (req_tag req))
       (\<lambda>wr. case wr of
          WriteOk (RespAck r) \<Rightarrow> unit_reply 200 r
        | _ \<Rightarrow> flock_rest L wr)"

definition api_nack ::
    "'db sled \<Rightarrow> bincode \<Rightarrow> libs \<Rightarrow> ('w, 'db) flock \<Rightarrow> string \<Rightarrow> ack_nack_request \<Rightarrow> ('db, 'w, unit, http_response) handler" where
  "api_nack S B L F name req =
     dispatch F (nack S B name (req_tag req)) (unit_reply 200)
       (OpNack name (req_tag req))
       (\<lambda>wr. case wr of
          WriteOk (RespNack r) \<Rightarrow> unit_reply 200 r
        | _ \<Rightarrow> flock_rest L wr)"

definition node_json :: "node_config \<Rightarrow> json" where
  "node_json n = JObj [(''id'', JInt (uint (nc_id n))), (''raft_addr'', JStr (nc_raft_addr n)), (''client_addr'', JStr (nc_client_addr n))]"

definition api_cluster_status :: "cluster_config option \<Rightarrow> ('db, 'w, unit, http_response) handler" where
  "api_cluster_status cluster eng =
     (Ok (case cluster of
            Some cfg \<Rightarrow>
              respond 200 (JObj ([(''self_id'', JInt (uint (self_id cfg))), (''members'', JArr (map node_json (members cfg)))] @
                (case eng of Flock _ \<Rightarrow> [(''reads_may_lag'', JBool True)] | Solo _ \<Rightarrow> [])))
          | None \<Rightarrow> respond 404 JNull), eng)"

section \<open>The router\<close>

datatype http_method = GET | POST

datatype route =
    RHealth
  | RListQueues
  | RDeclare string
  | RPublish string
  | RConsume string
  | RAck string
  | RNack string
  | RClusterStatus

text \<open>
  The routes registered for a path given as its segments: the path decides the route and the route the
  method; an unknown path is 404 and a known path with another method 405.  Methods other than these
  two are left out.
\<close>

definition build_router :: "bool \<Rightarrow> http_method \<Rightarrow> string list \<Rightarrow> nat + route" where
  "build_router has_cluster meth path =
     (let on = (\<lambda>m r. if meth = m then Inr r else Inl 405) in
      case path of
        [a] \<Rightarrow> if a = ''health'' then on GET RHealth else if a = ''queues'' then on GET RListQueues else Inl 404
      | [a, b] \<Rightarrow>
          if a = ''queues'' \<and> b \<noteq> [] then on POST (RDeclare b)
          else if has_cluster \<and> a = ''cluster'' \<and> b = ''status'' then on GET RClusterStatus
          else Inl 404
      | [a, b, c] \<Rightarrow>
          if a = ''queues'' \<and> b \<noteq> [] then
            (if c = ''publish'' then on POST (RPublish b)
             else if c = ''consume'' then on POST (RConsume b)
             else if c = ''ack'' then on POST (RAck b)
             else if c = ''nack'' then on POST (RNack b)
             else Inl 404)
          else Inl 404
      | _ \<Rightarrow> Inl 404)"

record http_request =
  req_method :: http_method
  req_path :: "string list"
  publish_body :: "http_response + publish_request"
  ack_body :: "http_response + ack_nack_request"

definition with_body :: "http_response + 'a \<Rightarrow> ('a \<Rightarrow> ('db, 'w, unit, http_response) handler) \<Rightarrow> ('db, 'w, unit, http_response) handler" where
  "with_body b h = (case b of Inl rejection \<Rightarrow> ret rejection | Inr x \<Rightarrow> h x)"

definition http_serve ::
    "'db sled \<Rightarrow> bincode \<Rightarrow> libs \<Rightarrow> ('w, 'db) flock \<Rightarrow> cluster_config option \<Rightarrow> uuid \<Rightarrow> i64 \<Rightarrow> (nat \<Rightarrow> i64) \<Rightarrow> http_request \<Rightarrow>
       ('db, 'w, unit, http_response) handler" where
  "http_serve S B L F cluster new_id now_ms clk req =
     (case build_router (cluster \<noteq> None) (req_method req) (req_path req) of
        Inl st \<Rightarrow> ret (empty_response st)
      | Inr RHealth \<Rightarrow> api_health
      | Inr RListQueues \<Rightarrow> api_list_queues S F
      | Inr (RDeclare name) \<Rightarrow> api_declare_queue S B L F name
      | Inr (RPublish name) \<Rightarrow> with_body (publish_body req) (api_publish S B L F new_id now_ms clk name)
      | Inr (RConsume name) \<Rightarrow> api_consume S B L F name
      | Inr (RAck name) \<Rightarrow> with_body (ack_body req) (api_ack S L F name)
      | Inr (RNack name) \<Rightarrow> with_body (ack_body req) (api_nack S B L F name)
      | Inr RClusterStatus \<Rightarrow> api_cluster_status cluster)"

text \<open>A request that declares a queue gives it a regular name.\<close>

definition regular_request :: "bool \<Rightarrow> http_request \<Rightarrow> bool" where
  "regular_request has_cluster req =
     (case build_router has_cluster (req_method req) (req_path req) of
        Inr (RDeclare name) \<Rightarrow> plain_name name \<and> utf8_ok name
      | _ \<Rightarrow> True)"

lemmas http_defs = api_health_def api_declare_queue_def api_list_queues_def api_publish_def api_consume_def api_ack_def
  api_nack_def api_cluster_status_def

section \<open>The handlers return, and agree in both modes\<close>

lemma reply_returns [simp]:
  "returns (unit_reply st r)" "returns (publish_reply L i p)" "returns (consume_reply L c)"
  by (simp_all add: unit_reply_def publish_reply_def consume_reply_def split: sum.splits option.splits publish_outcome.splits)

context engine
begin

lemma queue_entries_sound: "sound_prog (wf_manager B view nxt) (queue_entries S names)"
  by (induction names) (auto intro!: sound_prog_bnd sound_prog_attempt reads_sound)

lemma api_serves:
  assumes "regular_request (cluster \<noteq> None) req" "0 \<le> sint (clk 1)"
  shows "serves (wf_manager B view nxt) (http_serve S B L F cluster new_id now_ms clk req)"
proof (cases "build_router (cluster \<noteq> None) (req_method req) (req_path req)")
  case (Inr rt)
  have "serves (wf_manager B view nxt) (api_cluster_status cl)" for cl
    by (simp add: serves_def wp_def api_cluster_status_def solo_ok_def)
  with Inr assms show ?thesis
    by (cases rt)
      (auto simp: http_serve_def regular_request_def http_defs with_body_def Let_def
        intro!: serves_dispatch ops_sound sound_prog_bnd queue_entries_sound reads_sound split: sum.split)
qed (simp add: http_serve_def)

end

lemma http_alike:
  assumes "engine S view nxt f B" "flock_leader F S B clk" "0 \<le> sint (clk 0 1)"
    and "regular_request (cluster \<noteq> None) req"
    and "build_router (cluster \<noteq> None) (req_method req) (req_path req) \<noteq> Inr RClusterStatus"
  shows "alike F (wf_manager B view nxt) (http_serve S B L F cluster new_id now_ms (clk 0) req)"
proof (cases "build_router (cluster \<noteq> None) (req_method req) (req_path req)")
  case (Inr rt)
  note ops = engine.ops_sound [OF assms(1)]
  note leader = flock_leader.alike_dispatch [OF assms(2)] flock_leader.alike_dispatch_read [OF assms(2)]
  from Inr assms show ?thesis
    by (cases rt)
      (auto simp: http_serve_def regular_request_def http_defs with_body_def Let_def bnd_attempt_ret
        intro!: leader ops engine.queue_entries_sound [OF assms(1)] engine.reads_sound [OF assms(1)] sound_prog_bnd
        split: sum.split)
qed (simp add: http_serve_def)

end
