(* ===== verification/Grpc_Service.thy ===== *)
theory Grpc_Service
  imports Http_Api
begin

text \<open>
  The gRPC services (\<^verbatim>\<open>pelicanqd/src/grpc/queue_service.rs\<close> and \<^verbatim>\<open>admin_service.rs\<close>): the conversions
  between core and protocol messages, one definition per method, and the background task of
  \<^verbatim>\<open>consume_stream\<close> as a step function over its events (an inbound item, the end of the inbound
  stream, the 100 ms timer).  The protocol types are those of \<^verbatim>\<open>proto/pelicanq/v1\<close>; a \<^verbatim>\<open>Status\<close> is its
  code and message.  Fresh UUIDs and clock readings are arguments.
\<close>

section \<open>Protocol types\<close>

datatype grpc_code = NotFound | AlreadyExists | ResourceExhausted | InvalidArgument | FailedPrecondition | Internal | Unavailable

record status =
  status_code :: grpc_code
  status_message :: string

abbreviation mk_status :: "grpc_code \<Rightarrow> string \<Rightarrow> status" where
  "mk_status c msg \<equiv> \<lparr>status_code = c, status_message = msg\<rparr>"

record proto_message =
  pm_id :: string
  pm_payload :: bytes
  pm_headers :: "(string, string) fmap"
  pm_timestamp :: i64
  pm_priority :: u32
  pm_deliver_at :: "i64 option"
  pm_dedup_key :: "string option"
  pm_delivery_attempts :: u32

record consumed_message =
  cm_delivery_tag :: u64
  cm_message :: "proto_message option"

record declare_request =
  dr_name :: string
  dr_max_age_secs :: "u64 option"
  dr_max_messages :: "u64 option"
  dr_max_delivery_attempts :: "u32 option"
  dr_dead_letter_queue :: "string option"
  dr_dedup_window_secs :: "u64 option"

record publish_response =
  pr_id :: string
  pr_deduplicated :: bool

record queue_info =
  qi_name :: string
  qi_depth :: u64
  qi_scheduled_depth :: u64

record consume_stream_ack =
  sa_delivery_tag :: "u64 option"
  sa_nack_delivery_tag :: "u64 option"
  sa_queue :: "string option"

record cluster_status_response =
  cr_self_id :: u64
  cr_is_leader :: bool
  cr_current_leader_id :: "u64 option"
  cr_members :: "node_config list"

text \<open>\<^verbatim>\<open>ClusterMember\<close> has the fields of \<^verbatim>\<open>NodeConfig\<close>.  The requests and replies of \<^verbatim>\<open>QueueService\<close>:\<close>

datatype grpc_request =
    GDeclareQueue declare_request
  | GListQueues
  | GPublish string "proto_message option"
  | GPublishBatch string "proto_message list"
  | GConsume string
  | GConsumeBatch string u32
  | GAck string u64
  | GNack string u64

datatype grpc_reply =
    DeclareQueueResponse bool
  | ListQueuesResponse "queue_info list"
  | PublishResponse publish_response
  | PublishBatchResponse "publish_response list"
  | ConsumeResponse "consumed_message option"
  | ConsumeBatchResponse "consumed_message list"
  | AckResponse
  | NackResponse

section \<open>Conversions\<close>

definition pelican_error_to_status :: "pelican_error \<Rightarrow> status" where
  "pelican_error_to_status e =
     mk_status (case e of
         QueueNotFound _ \<Rightarrow> NotFound
       | QueueAlreadyExists _ \<Rightarrow> AlreadyExists
       | StorageLimitExceeded _ _ \<Rightarrow> ResourceExhausted
       | InvalidDeliveryTag _ \<Rightarrow> InvalidArgument
       | MessageDeadLettered _ _ \<Rightarrow> FailedPrecondition
       | _ \<Rightarrow> Internal) (pelican_error_to_string e)"

definition write_result_to_status :: "write_result \<Rightarrow> status + unit" where
  "write_result_to_status result =
     (case result of
        WriteOk _ \<Rightarrow> Inr ()
      | NotLeader leader_node \<Rightarrow>
          Inl (mk_status Unavailable
            (case leader_node of
               Some n \<Rightarrow> ''not leader, leader at '' @ client_addr n
             | None \<Rightarrow> ''not leader''))
      | WriteError msg \<Rightarrow> Inl (mk_status Internal msg))"

text \<open>The last branch of the methods: \<^verbatim>\<open>write_result_to_status(&result)?; Err(Status::internal(..))\<close>.\<close>

definition unexpected :: "string \<Rightarrow> write_result \<Rightarrow> (status, 'r) outcome" where
  "unexpected what result =
     (case write_result_to_status result of
        Inl st \<Rightarrow> Err st
      | Inr _ \<Rightarrow> Err (mk_status Internal what))"

definition core_message_to_proto :: "libs \<Rightarrow> message \<Rightarrow> proto_message" where
  "core_message_to_proto L msg =
     \<lparr>pm_id = show_uuid L (msg_id msg), pm_payload = payload msg, pm_headers = headers msg,
      pm_timestamp = timestamp msg, pm_priority = ucast (priority msg), pm_deliver_at = deliver_at msg,
      pm_dedup_key = dedup_key msg, pm_delivery_attempts = delivery_attempts msg\<rparr>"

definition proto_message_to_core :: "libs \<Rightarrow> uuid \<Rightarrow> proto_message \<Rightarrow> message" where
  "proto_message_to_core L new_id msg =
     \<lparr>msg_id = (case parse_uuid L (pm_id msg) of Inr u \<Rightarrow> u | Inl _ \<Rightarrow> new_id), payload = pm_payload msg,
      headers = pm_headers msg, timestamp = pm_timestamp msg, delivery_attempts = pm_delivery_attempts msg,
      priority = ucast (pm_priority msg), deliver_at = pm_deliver_at msg, dedup_key = pm_dedup_key msg\<rparr>"

definition declare_request_to_policy :: "declare_request \<Rightarrow> retention_policy" where
  "declare_request_to_policy req =
     \<lparr>max_age_secs = dr_max_age_secs req, max_messages = dr_max_messages req,
      max_delivery_attempts = dr_max_delivery_attempts req, dedup_window_secs = dr_dedup_window_secs req\<rparr>"

definition publish_response_of :: "libs \<Rightarrow> publish_outcome \<Rightarrow> publish_response" where
  "publish_response_of L out =
     (case out of
        Stored i \<Rightarrow> \<lparr>pr_id = show_uuid L i, pr_deduplicated = False\<rparr>
      | Deduplicated \<Rightarrow> \<lparr>pr_id = [], pr_deduplicated = True\<rparr>)"

definition consumed_of :: "libs \<Rightarrow> delivery_tag \<times> message \<Rightarrow> consumed_message" where
  "consumed_of L p =
     (case p of (tag, msg) \<Rightarrow>
        \<lparr>cm_delivery_tag = tag_u64 tag, cm_message = Some (core_message_to_proto L msg)\<rparr>)"

text \<open>\<^verbatim>\<open>map_err(pelican_error_to_status)\<close> and a reply.\<close>

definition or_status :: "('a \<Rightarrow> 'r) \<Rightarrow> pelican_error + 'a \<Rightarrow> (status, 'r) outcome" where
  "or_status k r = (case r of Inr x \<Rightarrow> Ok (k x) | Inl e \<Rightarrow> Err (pelican_error_to_status e))"

section \<open>Helpers of the streaming method\<close>

definition consume_one ::
    "'db sled \<Rightarrow> bincode \<Rightarrow> ('w, 'db) flock \<Rightarrow> string \<Rightarrow> ('db, 'w, status, (delivery_tag \<times> message) option) handler" where
  "consume_one S B F queue =
     dispatch F (consume S B queue) (\<lambda>r. Ok (case r of Inr opt \<Rightarrow> opt | Inl _ \<Rightarrow> None))
       (OpConsume queue)
       (\<lambda>wr. case wr of
          WriteOk (RespConsume (Inr opt)) \<Rightarrow> Ok opt
        | WriteOk (RespConsume (Inl _)) \<Rightarrow> Ok None
        | _ \<Rightarrow> Ok None)"

definition handle_ack ::
    "'db sled \<Rightarrow> ('w, 'db) flock \<Rightarrow> string \<Rightarrow> u64 \<Rightarrow> ('db, 'w, status, unit) handler" where
  "handle_ack S F queue tag =
     dispatch F (ack S queue (DeliveryTag tag)) (or_status id)
       (OpAck queue (DeliveryTag tag))
       (\<lambda>wr. case wr of
          WriteOk (RespAck r) \<Rightarrow> or_status id r
        | _ \<Rightarrow> unexpected ''unexpected ack response'' wr)"

definition handle_nack ::
    "'db sled \<Rightarrow> bincode \<Rightarrow> ('w, 'db) flock \<Rightarrow> string \<Rightarrow> u64 \<Rightarrow> ('db, 'w, status, unit) handler" where
  "handle_nack S B F queue tag =
     dispatch F (nack S B queue (DeliveryTag tag)) (or_status id)
       (OpNack queue (DeliveryTag tag))
       (\<lambda>wr. case wr of
          WriteOk (RespNack r) \<Rightarrow> or_status id r
        | _ \<Rightarrow> unexpected ''unexpected nack response'' wr)"

section \<open>The methods\<close>

definition declare_response :: "pelican_error + unit \<Rightarrow> (status, bool) outcome" where
  "declare_response r =
     (case r of
        Inr _ \<Rightarrow> Ok True
      | Inl (QueueAlreadyExists _) \<Rightarrow> Ok False
      | Inl e \<Rightarrow> Err (pelican_error_to_status e))"

definition grpc_declare_queue ::
    "'db sled \<Rightarrow> bincode \<Rightarrow> ('w, 'db) flock \<Rightarrow> declare_request \<Rightarrow> ('db, 'w, status, bool) handler" where
  "grpc_declare_queue S B F req =
     dispatch F (declare_queue_with_retention S B (dr_name req) (declare_request_to_policy req)) declare_response
       (OpDeclareQueue (dr_name req) (declare_request_to_policy req))
       (\<lambda>wr. case wr of
          WriteOk (RespDeclareQueue r) \<Rightarrow> declare_response r
        | _ \<Rightarrow> unexpected ''unexpected response type'' wr)"

fun queue_infos :: "'db sled \<Rightarrow> string list \<Rightarrow> ('db, queue_info list) mprog" where
  "queue_infos S [] = ret []"
| "queue_infos S (name # names) =
     bnd (attempt (depth S name)) (\<lambda>d.
     bnd (attempt (scheduled_depth S name)) (\<lambda>sd.
     bnd (queue_infos S names) (\<lambda>qs.
     ret (\<lparr>qi_name = name,
           qi_depth = of_nat (case d of Inl _ \<Rightarrow> 0 | Inr n \<Rightarrow> n),
           qi_scheduled_depth = of_nat (case sd of Inl _ \<Rightarrow> 0 | Inr n \<Rightarrow> n)\<rparr> # qs))))"

definition grpc_list_queues :: "'db sled \<Rightarrow> ('w, 'db) flock \<Rightarrow> ('db, 'w, status, queue_info list) handler" where
  "grpc_list_queues S F =
     dispatch_read F (bnd (list_queues S) (queue_infos S))
       (\<lambda>r. Ok (case r of Inl _ \<Rightarrow> [] | Inr qs \<Rightarrow> qs))"

definition grpc_publish ::
    "'db sled \<Rightarrow> bincode \<Rightarrow> libs \<Rightarrow> ('w, 'db) flock \<Rightarrow> uuid \<Rightarrow> (nat \<Rightarrow> i64) \<Rightarrow> string \<Rightarrow> proto_message option \<Rightarrow>
       ('db, 'w, status, publish_response) handler" where
  "grpc_publish S B L F new_id clk queue msg =
     (case msg of
        None \<Rightarrow> throw (mk_status InvalidArgument ''message is required'')
      | Some pm \<Rightarrow>
          let core = proto_message_to_core L new_id pm in
          dispatch F (publish S B clk queue core) (or_status (publish_response_of L))
            (OpPublish queue core)
            (\<lambda>wr. case wr of
               WriteOk (RespPublish r) \<Rightarrow> or_status (publish_response_of L) r
             | _ \<Rightarrow> unexpected ''unexpected response type'' wr))"

fun publish_loop ::
    "'db sled \<Rightarrow> bincode \<Rightarrow> libs \<Rightarrow> (nat \<Rightarrow> nat \<Rightarrow> i64) \<Rightarrow> string \<Rightarrow> nat \<Rightarrow> publish_response list \<Rightarrow> message list \<Rightarrow>
       ('db, publish_response list) mprog" where
  "publish_loop S B L clk queue i results [] = ret results"
| "publish_loop S B L clk queue i results (msg # msgs) =
     bnd (publish S B (clk i) queue msg) (\<lambda>out.
     publish_loop S B L clk queue (Suc i) (results @ [publish_response_of L out]) msgs)"

definition grpc_publish_batch ::
    "'db sled \<Rightarrow> bincode \<Rightarrow> libs \<Rightarrow> ('w, 'db) flock \<Rightarrow> (nat \<Rightarrow> uuid) \<Rightarrow> (nat \<Rightarrow> nat \<Rightarrow> i64) \<Rightarrow> string \<Rightarrow> proto_message list \<Rightarrow>
       ('db, 'w, status, publish_response list) handler" where
  "grpc_publish_batch S B L F new_ids clk queue msgs =
     (let messages = map (\<lambda>(i, pm). proto_message_to_core L (new_ids i) pm) (enumerate 0 msgs) in
      dispatch F (publish_loop S B L clk queue 0 [] messages) (or_status id)
        (OpPublishBatch queue messages)
        (\<lambda>wr. case wr of
           WriteOk (RespPublishBatch r) \<Rightarrow> or_status (map (publish_response_of L)) r
         | _ \<Rightarrow> unexpected ''unexpected response type'' wr))"

definition grpc_consume ::
    "'db sled \<Rightarrow> bincode \<Rightarrow> libs \<Rightarrow> ('w, 'db) flock \<Rightarrow> string \<Rightarrow> ('db, 'w, status, consumed_message option) handler" where
  "grpc_consume S B L F queue =
     dispatch F (consume S B queue) (or_status (map_option (consumed_of L)))
       (OpConsume queue)
       (\<lambda>wr. case wr of
          WriteOk (RespConsume r) \<Rightarrow> or_status (map_option (consumed_of L)) r
        | _ \<Rightarrow> unexpected ''unexpected response type'' wr)"

fun consume_loop_n ::
    "'db sled \<Rightarrow> bincode \<Rightarrow> libs \<Rightarrow> string \<Rightarrow> consumed_message list \<Rightarrow> nat \<Rightarrow> ('db, consumed_message list) mprog" where
  "consume_loop_n S B L queue messages 0 = ret messages"
| "consume_loop_n S B L queue messages (Suc n) =
     bnd (consume S B queue) (\<lambda>opt.
     case opt of
       Some p \<Rightarrow> consume_loop_n S B L queue (messages @ [consumed_of L p]) n
     | None \<Rightarrow> ret messages)"

definition grpc_consume_batch ::
    "'db sled \<Rightarrow> bincode \<Rightarrow> libs \<Rightarrow> ('w, 'db) flock \<Rightarrow> string \<Rightarrow> u32 \<Rightarrow> ('db, 'w, status, consumed_message list) handler" where
  "grpc_consume_batch S B L F queue mx =
     dispatch F (consume_loop_n S B L queue [] (unat mx)) (or_status id)
       (OpConsumeBatch queue (unat mx))
       (\<lambda>wr. case wr of
          WriteOk (RespConsumeBatch r) \<Rightarrow> or_status (map (consumed_of L)) r
        | _ \<Rightarrow> unexpected ''unexpected response type'' wr)"

definition grpc_ack ::
    "'db sled \<Rightarrow> ('w, 'db) flock \<Rightarrow> string \<Rightarrow> u64 \<Rightarrow> ('db, 'w, status, unit) handler" where
  "grpc_ack S F queue tag =
     dispatch F (ack S queue (DeliveryTag tag)) (or_status id)
       (OpAck queue (DeliveryTag tag))
       (\<lambda>wr. case wr of
          WriteOk (RespAck r) \<Rightarrow> or_status id r
        | _ \<Rightarrow> unexpected ''unexpected response type'' wr)"

definition grpc_nack ::
    "'db sled \<Rightarrow> bincode \<Rightarrow> ('w, 'db) flock \<Rightarrow> string \<Rightarrow> u64 \<Rightarrow> ('db, 'w, status, unit) handler" where
  "grpc_nack S B F queue tag =
     dispatch F (nack S B queue (DeliveryTag tag)) (or_status id)
       (OpNack queue (DeliveryTag tag))
       (\<lambda>wr. case wr of
          WriteOk (RespNack r) \<Rightarrow> or_status id r
        | _ \<Rightarrow> unexpected ''unexpected response type'' wr)"

fun grpc_serve ::
    "'db sled \<Rightarrow> bincode \<Rightarrow> libs \<Rightarrow> ('w, 'db) flock \<Rightarrow> (nat \<Rightarrow> uuid) \<Rightarrow> (nat \<Rightarrow> nat \<Rightarrow> i64) \<Rightarrow> grpc_request \<Rightarrow>
       ('db, 'w, status, grpc_reply) handler" where
  "grpc_serve S B L F new_ids clk (GDeclareQueue req) =
     bnd (grpc_declare_queue S B F req) (\<lambda>x. ret (DeclareQueueResponse x))"
| "grpc_serve S B L F new_ids clk GListQueues = bnd (grpc_list_queues S F) (\<lambda>x. ret (ListQueuesResponse x))"
| "grpc_serve S B L F new_ids clk (GPublish queue msg) =
     bnd (grpc_publish S B L F (new_ids 0) (clk 0) queue msg) (\<lambda>x. ret (PublishResponse x))"
| "grpc_serve S B L F new_ids clk (GPublishBatch queue msgs) =
     bnd (grpc_publish_batch S B L F new_ids clk queue msgs) (\<lambda>x. ret (PublishBatchResponse x))"
| "grpc_serve S B L F new_ids clk (GConsume queue) =
     bnd (grpc_consume S B L F queue) (\<lambda>x. ret (ConsumeResponse x))"
| "grpc_serve S B L F new_ids clk (GConsumeBatch queue mx) =
     bnd (grpc_consume_batch S B L F queue mx) (\<lambda>x. ret (ConsumeBatchResponse x))"
| "grpc_serve S B L F new_ids clk (GAck queue tag) = bnd (grpc_ack S F queue tag) (\<lambda>_. ret AckResponse)"
| "grpc_serve S B L F new_ids clk (GNack queue tag) = bnd (grpc_nack S B F queue tag) (\<lambda>_. ret NackResponse)"

section \<open>The streaming method\<close>

text \<open>
  The state of the task: the queue named by the first inbound item, the items handed to the outbound
  channel, and whether the task still runs.  \<open>Tick alive\<close> is an expiry of the timer, with \<open>alive\<close>
  telling whether the receiver of the channel still exists.
\<close>

record stream_state =
  st_queue :: "string option"
  st_sent :: "(status + consumed_message) list"
  st_running :: bool

datatype stream_event = Inbound consume_stream_ack | InboundError string | InboundEnd | Tick bool

definition stream_start :: stream_state where
  "stream_start = \<lparr>st_queue = None, st_sent = [], st_running = True\<rparr>"

definition stream_fail :: "stream_state \<Rightarrow> status \<Rightarrow> stream_state" where
  "stream_fail st e = st\<lparr>st_sent := st_sent st @ [Inl e], st_running := False\<rparr>"

definition stream_result :: "stream_state \<Rightarrow> status + unit \<Rightarrow> ('db, 'w, status, stream_state) handler" where
  "stream_result st r = ret (case r of Inl e \<Rightarrow> stream_fail st e | Inr _ \<Rightarrow> st)"

definition stream_inbound ::
    "'db sled \<Rightarrow> bincode \<Rightarrow> ('w, 'db) flock \<Rightarrow> consume_stream_ack \<Rightarrow> stream_state \<Rightarrow> ('db, 'w, status, stream_state) handler" where
  "stream_inbound S B F a st =
     (case st_queue st of
        None \<Rightarrow>
          (if sa_queue a \<noteq> None \<and> sa_queue a \<noteq> Some [] then ret (st\<lparr>st_queue := sa_queue a\<rparr>)
           else ret (stream_fail st
             (mk_status InvalidArgument ''first ConsumeStreamAck must include a non-empty queue'')))
      | Some q \<Rightarrow>
          (case sa_delivery_tag a of
             Some tag \<Rightarrow> bnd (attempt (handle_ack S F q tag)) (stream_result st)
           | None \<Rightarrow>
               (case sa_nack_delivery_tag a of
                  Some tag \<Rightarrow> bnd (attempt (handle_nack S B F q tag)) (stream_result st)
                | None \<Rightarrow> ret st)))"

definition stream_tick ::
    "'db sled \<Rightarrow> bincode \<Rightarrow> libs \<Rightarrow> ('w, 'db) flock \<Rightarrow> bool \<Rightarrow> stream_state \<Rightarrow> ('db, 'w, status, stream_state) handler" where
  "stream_tick S B L F alive st =
     (case st_queue st of
        None \<Rightarrow> ret st
      | Some q \<Rightarrow>
          bnd (consume_one S B F q) (\<lambda>consumed.
          case consumed of
            None \<Rightarrow> ret st
          | Some p \<Rightarrow> ret (st\<lparr>st_sent := st_sent st @ [Inr (consumed_of L p)], st_running := alive\<rparr>)))"

fun stream_step ::
    "'db sled \<Rightarrow> bincode \<Rightarrow> libs \<Rightarrow> ('w, 'db) flock \<Rightarrow> stream_event \<Rightarrow> stream_state \<Rightarrow> ('db, 'w, status, stream_state) handler" where
  "stream_step S B L F (Inbound a) st = stream_inbound S B F a st"
| "stream_step S B L F (InboundError e) st = ret (stream_fail st (mk_status Internal e))"
| "stream_step S B L F InboundEnd st = ret (st\<lparr>st_running := False\<rparr>)"
| "stream_step S B L F (Tick alive) st = stream_tick S B L F alive st"

fun consume_stream ::
    "'db sled \<Rightarrow> bincode \<Rightarrow> libs \<Rightarrow> ('w, 'db) flock \<Rightarrow> stream_event list \<Rightarrow> stream_state \<Rightarrow> ('db, 'w, status, stream_state) handler" where
  "consume_stream S B L F [] st = ret st"
| "consume_stream S B L F (e # es) st =
     (if st_running st then bnd (stream_step S B L F e st) (consume_stream S B L F es) else ret st)"

section \<open>The administration service\<close>

definition grpc_health :: "('db, 'w, status, string) handler" where
  "grpc_health = ret ''ok''"

definition grpc_cluster_status ::
    "('w, 'db) flock \<Rightarrow> cluster_config option \<Rightarrow> ('db, 'w, status, cluster_status_response) handler" where
  "grpc_cluster_status F cluster eng =
     (Ok (case eng of
            Flock w \<Rightarrow>
              (case raft_metrics F w of (i, leader) \<Rightarrow>
                 \<lparr>cr_self_id = i, cr_is_leader = (leader = Some i), cr_current_leader_id = leader,
                  cr_members = (case cluster of Some c \<Rightarrow> members c | None \<Rightarrow> [])\<rparr>)
          | Solo _ \<Rightarrow> \<lparr>cr_self_id = 0, cr_is_leader = True, cr_current_leader_id = Some 0, cr_members = []\<rparr>), eng)"

text \<open>Requests with regular names and clocks.\<close>

fun regular_grpc :: "(nat \<Rightarrow> nat \<Rightarrow> i64) \<Rightarrow> grpc_request \<Rightarrow> bool" where
  "regular_grpc clk (GDeclareQueue req) = (plain_name (dr_name req) \<and> utf8_ok (dr_name req))"
| "regular_grpc clk (GPublish q msg) = (0 \<le> sint (clk 0 1))"
| "regular_grpc clk (GPublishBatch q msgs) = (\<forall>i < length msgs. 0 \<le> sint (clk i 1))"
| "regular_grpc clk _ = True"

lemmas grpc_defs = grpc_declare_queue_def grpc_list_queues_def grpc_publish_def grpc_publish_batch_def grpc_consume_def
  grpc_consume_batch_def grpc_ack_def grpc_nack_def

section \<open>The methods return, and agree in both modes\<close>

lemma or_status_returns [simp]: "returns (or_status k r)" "returns (declare_response u)"
  by (simp_all add: or_status_def declare_response_def split: sum.split pelican_error.split)

lemma sound_publish_loop:
  assumes "\<And>i. i < length msgs \<Longrightarrow> sound_prog P (publish S B (clk (k + i)) q (msgs ! i))"
  shows "sound_prog P (publish_loop S B L clk q k rs msgs)"
  using assms
proof (induction msgs arbitrary: k rs)
  case (Cons msg msgs)
  have "sound_prog P (publish S B (clk k) q msg)" using Cons.prems [of 0] by simp
  moreover have "sound_prog P (publish_loop S B L clk q (Suc k) rs' msgs)" for rs'
    by (rule Cons.IH) (use Cons.prems [of "Suc i" for i] in simp)
  ultimately show ?case by (simp add: sound_prog_bnd)
qed simp

lemma sound_consume_loop:
  assumes "sound_prog P (consume S B q)"
  shows "sound_prog P (consume_loop_n S B L q rs n)"
  by (induction n arbitrary: rs) (auto intro!: sound_prog_bnd assms split: option.split)

lemma publish_loop_batch:
  assumes "publish_loop S B L clk q k (map (publish_response_of L) os) msgs m = (r, m')" "returns r"
  shows "\<exists>x. publish_batch_loop S B clk q k os msgs m = (Ok (RespPublishBatch x), m') \<and>
    result_of r = map_sum id (map (publish_response_of L)) x"
  using assms
proof (induction msgs arbitrary: k os m)
  case (Cons msg msgs)
  obtain p m1 where p: "publish S B (clk k) q msg m = (p, m1)" by force
  from Cons.prems have "returns p" by (cases p) (auto simp: p bnd_def)
  then show ?case
    using Cons.prems Cons.IH [of "Suc k" "os @ [x]" m1 for x] by (cases p) (auto simp: p bnd_def attempt_def ret_def)
qed (auto simp: ret_def)

lemma consume_loop_batch:
  assumes "consume_loop_n S B L q (map (consumed_of L) ps) n m = (r, m')" "returns r"
  shows "\<exists>x. consume_batch_loop S B q ps n m = (Ok (RespConsumeBatch x), m') \<and>
    result_of r = map_sum id (map (consumed_of L)) x"
  using assms
proof (induction n arbitrary: ps m)
  case (Suc n)
  obtain p m1 where p: "consume S B q m = (p, m1)" by force
  from Suc.prems have "returns p" by (cases p) (auto simp: p bnd_def)
  then show ?case
    using Suc.prems Suc.IH [of "ps @ [x]" m1 for x]
    by (cases p) (auto simp: p bnd_def attempt_def ret_def split: option.splits)
qed (auto simp: ret_def)

lemma or_status_map: "or_status k (map_sum id g x) = or_status (k \<circ> g) x"
  by (cases x) (simp_all add: or_status_def)

context engine
begin

lemma queue_infos_sound: "sound_prog (wf_manager B view nxt) (queue_infos S names)"
  by (induction names) (auto intro!: sound_prog_bnd sound_prog_attempt reads_sound)

lemmas grpc_sound = ops_sound reads_sound queue_infos_sound sound_prog_bnd sound_publish_loop sound_consume_loop

lemma grpc_serves:
  "regular_grpc clk req \<Longrightarrow> serves (wf_manager B view nxt) (grpc_serve S B L F new_ids clk req)"
  by (cases req) (auto simp: grpc_defs Let_def intro!: serves_bnd serves_dispatch grpc_sound split: option.split)

lemma stream_parts_serve:
  "serves (wf_manager B view nxt) (consume_one S B F q)"
  "serves (wf_manager B view nxt) (handle_ack S F q tag)"
  "serves (wf_manager B view nxt) (handle_nack S B F q tag)"
  by (auto simp: consume_one_def handle_ack_def handle_nack_def intro!: serves_dispatch ops_sound)

end

lemma serves_attempt: "serves P h \<Longrightarrow> serves P (attempt h)"
  unfolding serves_def wp_attempt by (fastforce elim: wp_mono split: outcome.splits)

lemma alike_attempt: "alike F P h \<Longrightarrow> alike F P (attempt h)"
  unfolding alike_def attempt_def by (simp add: case_prod_beta split: outcome.splits)

lemma stream_serves:
  assumes "engine S view nxt f B"
  shows "serves (wf_manager B view nxt) (consume_stream S B L F es st)"
proof (induction es arbitrary: st)
  case (Cons e es)
  note parts = engine.stream_parts_serve [OF assms]
  have "serves (wf_manager B view nxt) (stream_step S B L F e st)"
    by (cases e) (auto simp: stream_inbound_def stream_tick_def stream_result_def
        intro!: serves_bnd serves_attempt parts split: option.split)
  with Cons show ?case by (simp add: serves_bnd)
qed simp

lemma grpc_alike:
  assumes "engine S view nxt f B" "flock_leader F S B clk" "regular_grpc clk req"
  shows "alike F (wf_manager B view nxt) (grpc_serve S B L F new_ids clk req)"
proof -
  note leader = flock_leader.alike_dispatch [OF assms(2)] flock_leader.alike_dispatch_read [OF assms(2)]
  note ops = engine.grpc_sound [OF assms(1)]
  show ?thesis
    using assms(3)
    by (cases req)
      (auto simp: grpc_defs Let_def bnd_attempt_ret declare_queue_def or_status_map comp_def
        intro!: alike_bnd leader ops split: option.split
        dest!: publish_loop_batch [where os = "[]", simplified] consume_loop_batch [where ps = "[]", simplified])
qed

lemma stream_alike:
  assumes "engine S view nxt f B" "flock_leader F S B clk"
  shows "alike F (wf_manager B view nxt) (consume_stream S B L F es st)"
proof (induction es arbitrary: st)
  case (Cons e es)
  note leader = flock_leader.alike_dispatch [OF assms(2)]
  have "alike F (wf_manager B view nxt) (consume_one S B F q)" "alike F (wf_manager B view nxt) (handle_ack S F q tag)"
    "alike F (wf_manager B view nxt) (handle_nack S B F q tag)" for q tag
    by (auto simp: consume_one_def handle_ack_def handle_nack_def bnd_attempt_ret
        intro!: leader engine.ops_sound [OF assms(1)] split: sum.split)
  then have "alike F (wf_manager B view nxt) (stream_step S B L F e st)"
    by (cases e) (auto simp: stream_inbound_def stream_tick_def stream_result_def
        intro!: alike_bnd alike_attempt split: option.split)
  with Cons show ?case by (simp add: alike_bnd)
qed simp

end
