(* ===== verification/Rust_Sdk.thy ===== *)
theory Rust_Sdk
  imports Grpc_Service
begin

text \<open>
  The Rust client library (\<^verbatim>\<open>sdks/rust/src\<close>): the types and builders of \<^verbatim>\<open>types.rs\<close>, its conversions from
  and to the protocol types, the errors of \<^verbatim>\<open>error.rs\<close> and the methods of \<^verbatim>\<open>PelicanClient\<close>.  The
  generated stubs (one per remote method, over a channel) are the record \<^verbatim>\<open>stub\<close>, an argument of the
  methods; \<^verbatim>\<open>daemon_stub\<close> is the channel that runs the methods of the daemon's own service.
\<close>

section \<open>Types, builders and conversions\<close>

record client_message =
  cl_payload :: bytes
  cl_headers :: "(string, string) fmap"
  cl_priority :: u8
  cl_deliver_at :: "i64 option"
  cl_dedup_key :: "string option"

definition ClientMessage_new :: "bytes \<Rightarrow> client_message" where
  "ClientMessage_new pl =
     \<lparr>cl_payload = pl, cl_headers = fmempty, cl_priority = 0, cl_deliver_at = None, cl_dedup_key = None\<rparr>"

definition client_with_priority :: "client_message \<Rightarrow> u8 \<Rightarrow> client_message" where
  "client_with_priority m p = m\<lparr>cl_priority := min p 9\<rparr>"

definition client_with_deliver_at :: "client_message \<Rightarrow> i64 \<Rightarrow> client_message" where
  "client_with_deliver_at m at = m\<lparr>cl_deliver_at := Some at\<rparr>"

definition client_with_dedup_key :: "client_message \<Rightarrow> string \<Rightarrow> client_message" where
  "client_with_dedup_key m k = m\<lparr>cl_dedup_key := Some k\<rparr>"

definition client_with_header :: "client_message \<Rightarrow> string \<Rightarrow> string \<Rightarrow> client_message" where
  "client_with_header m k v = m\<lparr>cl_headers := fmupd k v (cl_headers m)\<rparr>"

record publish_result =
  res_id :: string
  res_deduplicated :: bool

record delivery =
  dl_tag :: u64
  dl_message :: client_message
  dl_id :: string
  dl_timestamp :: i64
  dl_attempts :: u32

record queue_options =
  qo_max_age_secs :: "u64 option"
  qo_max_messages :: "u64 option"
  qo_max_delivery_attempts :: "u32 option"
  qo_dead_letter_queue :: "string option"
  qo_dedup_window_secs :: "u64 option"

record client_queue_info =
  cq_name :: string
  cq_depth :: u64
  cq_scheduled_depth :: u64

definition client_to_proto :: "client_message \<Rightarrow> proto_message" where
  "client_to_proto m =
     \<lparr>pm_id = [], pm_payload = cl_payload m, pm_headers = cl_headers m, pm_timestamp = 0,
      pm_priority = ucast (cl_priority m), pm_deliver_at = cl_deliver_at m, pm_dedup_key = cl_dedup_key m,
      pm_delivery_attempts = 0\<rparr>"

definition proto_to_client :: "proto_message \<Rightarrow> client_message" where
  "proto_to_client m =
     \<lparr>cl_payload = pm_payload m, cl_headers = pm_headers m, cl_priority = ucast (pm_priority m),
      cl_deliver_at = pm_deliver_at m, cl_dedup_key = pm_dedup_key m\<rparr>"

definition delivery_of :: "consumed_message \<Rightarrow> delivery" where
  "delivery_of cm =
     (case cm_message cm of
        Some inner \<Rightarrow>
          \<lparr>dl_tag = cm_delivery_tag cm, dl_message = proto_to_client inner, dl_id = pm_id inner,
           dl_timestamp = pm_timestamp inner, dl_attempts = pm_delivery_attempts inner\<rparr>
      | None \<Rightarrow>
          \<lparr>dl_tag = cm_delivery_tag cm, dl_message = ClientMessage_new [], dl_id = [], dl_timestamp = 0,
           dl_attempts = 0\<rparr>)"

definition client_queue_info_of :: "queue_info \<Rightarrow> client_queue_info" where
  "client_queue_info_of qi =
     \<lparr>cq_name = qi_name qi, cq_depth = qi_depth qi, cq_scheduled_depth = qi_scheduled_depth qi\<rparr>"

definition publish_result_of :: "publish_response \<Rightarrow> publish_result" where
  "publish_result_of pr = \<lparr>res_id = pr_id pr, res_deduplicated = pr_deduplicated pr\<rparr>"

section \<open>Errors\<close>

datatype client_error = Transport string | Rpc status | ClientNotFound string | Server string

definition client_error_of :: "status \<Rightarrow> client_error" where
  "client_error_of st =
     (case status_code st of
        NotFound \<Rightarrow> ClientNotFound (status_message st)
      | _ \<Rightarrow> Rpc st)"

section \<open>The client\<close>

record 's stub =
  stub_declare_queue :: "declare_request \<Rightarrow> ('s, status, bool) prog"
  stub_list_queues :: "('s, status, queue_info list) prog"
  stub_publish :: "string \<Rightarrow> proto_message option \<Rightarrow> ('s, status, publish_response) prog"
  stub_publish_batch :: "string \<Rightarrow> proto_message list \<Rightarrow> ('s, status, publish_response list) prog"
  stub_consume :: "string \<Rightarrow> ('s, status, consumed_message option) prog"
  stub_consume_batch :: "string \<Rightarrow> u32 \<Rightarrow> ('s, status, consumed_message list) prog"
  stub_ack :: "string \<Rightarrow> u64 \<Rightarrow> ('s, status, unit) prog"
  stub_nack :: "string \<Rightarrow> u64 \<Rightarrow> ('s, status, unit) prog"
  stub_health :: "('s, status, string) prog"

text \<open>The operator \<^verbatim>\<open>?\<close> on the result of a remote call, which converts the error.\<close>

definition call_rpc :: "('s, status, 'a) prog \<Rightarrow> ('s, client_error, 'a) prog" where
  "call_rpc c s =
     (case c s of
        (Ok x, s') \<Rightarrow> (Ok x, s')
      | (Err st, s') \<Rightarrow> (Err (client_error_of st), s')
      | (Panic, s') \<Rightarrow> (Panic, s')
      | (Diverge, s') \<Rightarrow> (Diverge, s'))"

definition sdk_declare_queue :: "'s stub \<Rightarrow> string \<Rightarrow> queue_options \<Rightarrow> ('s, client_error, bool) prog" where
  "sdk_declare_queue C name opts =
     call_rpc (stub_declare_queue C
       \<lparr>dr_name = name, dr_max_age_secs = qo_max_age_secs opts, dr_max_messages = qo_max_messages opts,
        dr_max_delivery_attempts = qo_max_delivery_attempts opts, dr_dead_letter_queue = qo_dead_letter_queue opts,
        dr_dedup_window_secs = qo_dedup_window_secs opts\<rparr>)"

definition sdk_publish :: "'s stub \<Rightarrow> string \<Rightarrow> client_message \<Rightarrow> ('s, client_error, publish_result) prog" where
  "sdk_publish C queue msg =
     bnd (call_rpc (stub_publish C queue (Some (client_to_proto msg)))) (\<lambda>resp. ret (publish_result_of resp))"

definition sdk_publish_batch :: "'s stub \<Rightarrow> string \<Rightarrow> client_message list \<Rightarrow> ('s, client_error, publish_result list) prog" where
  "sdk_publish_batch C queue msgs =
     bnd (call_rpc (stub_publish_batch C queue (map client_to_proto msgs))) (\<lambda>results. ret (map publish_result_of results))"

definition sdk_consume :: "'s stub \<Rightarrow> string \<Rightarrow> ('s, client_error, delivery option) prog" where
  "sdk_consume C queue = bnd (call_rpc (stub_consume C queue)) (\<lambda>resp. ret (map_option delivery_of resp))"

definition sdk_consume_batch :: "'s stub \<Rightarrow> string \<Rightarrow> u32 \<Rightarrow> ('s, client_error, delivery list) prog" where
  "sdk_consume_batch C queue mx = bnd (call_rpc (stub_consume_batch C queue mx)) (\<lambda>msgs. ret (map delivery_of msgs))"

definition sdk_ack :: "'s stub \<Rightarrow> string \<Rightarrow> u64 \<Rightarrow> ('s, client_error, unit) prog" where
  "sdk_ack C queue tag = bnd (call_rpc (stub_ack C queue tag)) (\<lambda>_. ret ())"

definition sdk_nack :: "'s stub \<Rightarrow> string \<Rightarrow> u64 \<Rightarrow> ('s, client_error, unit) prog" where
  "sdk_nack C queue tag = bnd (call_rpc (stub_nack C queue tag)) (\<lambda>_. ret ())"

definition sdk_list_queues :: "'s stub \<Rightarrow> ('s, client_error, client_queue_info list) prog" where
  "sdk_list_queues C = bnd (call_rpc (stub_list_queues C)) (\<lambda>qs. ret (map client_queue_info_of qs))"

definition sdk_health :: "'s stub \<Rightarrow> ('s, client_error, unit) prog" where
  "sdk_health C =
     bnd (call_rpc (stub_health C)) (\<lambda>st.
     if st = ''ok'' then ret () else throw (Server (''unhealthy: '' @ st)))"

text \<open>The channel to a daemon: every stub runs the method of the daemon's service.\<close>

definition daemon_stub ::
    "'db sled \<Rightarrow> bincode \<Rightarrow> libs \<Rightarrow> ('w, 'db) flock \<Rightarrow> (nat \<Rightarrow> uuid) \<Rightarrow> (nat \<Rightarrow> nat \<Rightarrow> i64) \<Rightarrow> ('db, 'w) app_engine stub" where
  "daemon_stub S B L F new_ids clk =
     \<lparr>stub_declare_queue = grpc_declare_queue S B F,
      stub_list_queues = grpc_list_queues S F,
      stub_publish = grpc_publish S B L F (new_ids 0) (clk 0),
      stub_publish_batch = grpc_publish_batch S B L F new_ids clk,
      stub_consume = grpc_consume S B L F,
      stub_consume_batch = grpc_consume_batch S B L F,
      stub_ack = grpc_ack S F,
      stub_nack = grpc_nack S B F,
      stub_health = grpc_health\<rparr>"

section \<open>What a client gets back\<close>

text \<open>The client reads back the message it built, whatever identifier the daemon gave it.\<close>

lemma client_roundtrip:
  "proto_to_client (core_message_to_proto L (proto_message_to_core L i (client_to_proto m))) = m"
  by (simp add: proto_to_client_def core_message_to_proto_def proto_message_to_core_def client_to_proto_def
      ucast_up_ucast_id is_up_def target_size source_size)

lemma call_rpc_ok: "c s = (Ok x, s') \<Longrightarrow> call_rpc c s = (Ok x, s')"
  by (simp add: call_rpc_def)

end
