(* ===== verification/Mqtt_Handler.thy ===== *)
theory Mqtt_Handler
  imports Grpc_Service
begin

text \<open>
  The MQTT bridge (\<^verbatim>\<open>pelicanqd/src/mqtt/handler.rs\<close>).  A connection is a record: the deliveries that wait
  for a PUBACK by packet identifier, the next packet identifier, the subscribed queues (each has a
  poller task), the channel from the pollers to the connection, and the packets written.  The two
  branches of its \<^verbatim>\<open>select!\<close> and the ticks of the pollers are the events of \<^verbatim>\<open>mqtt_step\<close>.

  The codec of \<^verbatim>\<open>rumqttc\<close> is outside: packets are values, and each write carries the flag that tells
  whether \<^verbatim>\<open>write.send\<close> succeeded.  The channel is unbounded here; in the code a poller that finds it
  full waits with its one message.
\<close>

section \<open>Packets and connections\<close>

datatype qos = AtMostOnce | AtLeastOnce | ExactlyOnce

datatype subscribe_reason = SubSuccess qos | SubFailure

datatype mqtt_packet =
    Connect
  | ConnAck
  | Publish (pub_topic: string) (pub_qos: qos) (pub_pkid: u16) (pub_payload: bytes)
  | PubAck u16
  | Subscribe u16 "(string \<times> qos) list"
  | SubAck u16 "subscribe_reason list"
  | Unsubscribe u16 "string list"
  | UnsubAck u16
  | PingReq
  | PingResp
  | Disconnect
  | OtherPacket

record mqtt_outgoing =
  out_queue :: string
  out_tag :: delivery_tag
  out_payload :: bytes

record mqtt_conn =
  mc_inflight :: "u16 \<Rightarrow> (string \<times> delivery_tag) option"
  mc_next_pkid :: u16
  mc_subscriptions :: "string list"
  mc_channel :: "mqtt_outgoing list"
  mc_written :: "mqtt_packet list"
  mc_open :: bool

text \<open>What one packet needs from outside: a fresh UUID, the time in seconds, the clock of the engine.\<close>

record mqtt_env =
  env_uuid :: uuid
  env_secs :: i64
  env_clk :: "nat \<Rightarrow> i64"

definition has_wildcard :: "string \<Rightarrow> bool" where
  "has_wildcard fltr \<longleftrightarrow> CHR ''+'' \<in> set fltr \<or> CHR ''#'' \<in> set fltr"

section \<open>Engine helpers\<close>

definition mqtt_declare_queue ::
    "'db sled \<Rightarrow> bincode \<Rightarrow> ('w, 'db) flock \<Rightarrow> string \<Rightarrow> ('db, 'w, unit, bool) handler" where
  "mqtt_declare_queue S B F queue =
     dispatch F (declare_queue S B queue) (\<lambda>r. Ok (\<not> isl r))
       (OpDeclareQueue queue RetentionPolicy_default)
       (\<lambda>wr. Ok (case wr of
          WriteOk (RespDeclareQueue (Inr _)) \<Rightarrow> True
        | WriteOk (RespDeclareQueue (Inl (QueueAlreadyExists _))) \<Rightarrow> True
        | _ \<Rightarrow> False))"

definition mqtt_consume_one ::
    "'db sled \<Rightarrow> bincode \<Rightarrow> ('w, 'db) flock \<Rightarrow> string \<Rightarrow> ('db, 'w, unit, (delivery_tag \<times> message) option) handler" where
  "mqtt_consume_one S B F queue =
     dispatch F (consume S B queue) (\<lambda>r. Ok (case r of Inr opt \<Rightarrow> opt | Inl _ \<Rightarrow> None))
       (OpConsume queue)
       (\<lambda>wr. Ok (case wr of WriteOk (RespConsume (Inr opt)) \<Rightarrow> opt | _ \<Rightarrow> None))"

definition ack_message ::
    "'db sled \<Rightarrow> ('w, 'db) flock \<Rightarrow> string \<Rightarrow> delivery_tag \<Rightarrow> ('db, 'w, unit, unit) handler" where
  "ack_message S F queue tag =
     dispatch F (ack S queue tag) (\<lambda>_. Ok ()) (OpAck queue tag) (\<lambda>_. Ok ())"

definition mqtt_message :: "uuid \<Rightarrow> i64 \<Rightarrow> bytes \<Rightarrow> message" where
  "mqtt_message new_v4 now_secs pl =
     \<lparr>msg_id = new_v4, payload = pl, headers = fmempty, timestamp = now_secs, delivery_attempts = 0,
      priority = 0, deliver_at = None, dedup_key = None\<rparr>"

definition publish_message ::
    "'db sled \<Rightarrow> bincode \<Rightarrow> ('w, 'db) flock \<Rightarrow> mqtt_env \<Rightarrow> string \<Rightarrow> bytes \<Rightarrow> ('db, 'w, unit, bool) handler" where
  "publish_message S B F env queue pl =
     (let msg = mqtt_message (env_uuid env) (env_secs env) pl in
      dispatch F (publish S B (env_clk env) queue msg) (\<lambda>r. Ok (\<not> isl r))
        (OpPublish queue msg)
        (\<lambda>wr. Ok (case wr of WriteOk (RespPublish (Inr _)) \<Rightarrow> True | _ \<Rightarrow> False)))"

section \<open>Packets of the client\<close>

text \<open>\<^verbatim>\<open>write.send(packet)\<close>: the packet goes out when \<open>ok\<close>, and otherwise the handler returns \<^verbatim>\<open>false\<close>.\<close>

definition mqtt_send :: "bool \<Rightarrow> mqtt_packet \<Rightarrow> mqtt_conn \<Rightarrow> bool \<times> mqtt_conn" where
  "mqtt_send ok pkt conn = (if ok then (True, conn\<lparr>mc_written := mc_written conn @ [pkt]\<rparr>) else (False, conn))"

fun subscribe_filters ::
    "'db sled \<Rightarrow> bincode \<Rightarrow> ('w, 'db) flock \<Rightarrow> subscribe_reason list \<Rightarrow> (string \<times> qos) list \<Rightarrow> mqtt_conn \<Rightarrow>
       ('db, 'w, unit, subscribe_reason list \<times> mqtt_conn) handler" where
  "subscribe_filters S B F codes [] conn = ret (codes, conn)"
| "subscribe_filters S B F codes ((path, q) # fs) conn =
     (if has_wildcard path then subscribe_filters S B F (codes @ [SubFailure]) fs conn
      else
        bnd (mqtt_declare_queue S B F path) (\<lambda>_.
        if path \<in> set (mc_subscriptions conn) then subscribe_filters S B F (codes @ [SubSuccess AtLeastOnce]) fs conn
        else
          subscribe_filters S B F (codes @ [SubSuccess (if q = AtMostOnce then AtMostOnce else AtLeastOnce)]) fs
            (conn\<lparr>mc_subscriptions := path # mc_subscriptions conn\<rparr>)))"

definition handle_client_packet ::
    "'db sled \<Rightarrow> bincode \<Rightarrow> ('w, 'db) flock \<Rightarrow> mqtt_env \<Rightarrow> bool \<Rightarrow> mqtt_packet \<Rightarrow> mqtt_conn \<Rightarrow>
       ('db, 'w, unit, bool \<times> mqtt_conn) handler" where
  "handle_client_packet S B F env ok packet conn =
     (case packet of
        Publish topic q pkid pl \<Rightarrow>
          bnd (mqtt_declare_queue S B F topic) (\<lambda>_.
          bnd (publish_message S B F env topic pl) (\<lambda>stored.
          ret (if q \<noteq> AtMostOnce then mqtt_send ok (PubAck pkid) conn else (True, conn))))
      | Subscribe pkid fs \<Rightarrow>
          bnd (subscribe_filters S B F [] fs conn) (\<lambda>(codes, conn').
          ret (mqtt_send ok (SubAck pkid codes) conn'))
      | Unsubscribe pkid topics \<Rightarrow>
          ret (mqtt_send ok (UnsubAck pkid)
            (conn\<lparr>mc_subscriptions := filter (\<lambda>t. t \<notin> set topics) (mc_subscriptions conn)\<rparr>))
      | PubAck pkid \<Rightarrow>
          (case mc_inflight conn pkid of
             Some (queue, tag) \<Rightarrow>
               bnd (ack_message S F queue tag) (\<lambda>_.
               ret (True, conn\<lparr>mc_inflight := (mc_inflight conn)(pkid := None)\<rparr>))
           | None \<Rightarrow> ret (True, conn))
      | PingReq \<Rightarrow> ret (mqtt_send ok PingResp conn)
      | Disconnect \<Rightarrow> ret (False, conn)
      | _ \<Rightarrow> ret (True, conn))"

section \<open>The connection\<close>

datatype mqtt_event =
    EPacket mqtt_env bool mqtt_packet
  | EReadError
  | EClosed
  | EPoll string
  | EOutgoing bool

text \<open>One tick of the poller of a subscribed queue.\<close>

definition subscription_poll ::
    "'db sled \<Rightarrow> bincode \<Rightarrow> ('w, 'db) flock \<Rightarrow> string \<Rightarrow> mqtt_conn \<Rightarrow> ('db, 'w, unit, mqtt_conn) handler" where
  "subscription_poll S B F queue conn =
     (if queue \<in> set (mc_subscriptions conn) then
        bnd (mqtt_consume_one S B F queue) (\<lambda>r.
        case r of
          Some (tag, msg) \<Rightarrow>
            ret (conn\<lparr>mc_channel := mc_channel conn @ [\<lparr>out_queue = queue, out_tag = tag, out_payload = payload msg\<rparr>]\<rparr>)
        | None \<Rightarrow> ret conn)
      else ret conn)"

definition send_outgoing :: "bool \<Rightarrow> mqtt_conn \<Rightarrow> mqtt_conn" where
  "send_outgoing ok conn =
     (case mc_channel conn of
        [] \<Rightarrow> conn
      | out # outs \<Rightarrow>
          (let pkid = mc_next_pkid conn;
               conn' = conn\<lparr>mc_channel := outs, mc_next_pkid := pkid + 1,
                 mc_inflight := (mc_inflight conn)(pkid \<mapsto> (out_queue out, out_tag out))\<rparr>
           in case mqtt_send ok (Publish (out_queue out) AtLeastOnce pkid (out_payload out)) conn' of
                (True, conn'') \<Rightarrow> conn''
              | (False, conn'') \<Rightarrow> conn''\<lparr>mc_open := False\<rparr>))"

fun mqtt_step ::
    "'db sled \<Rightarrow> bincode \<Rightarrow> ('w, 'db) flock \<Rightarrow> mqtt_event \<Rightarrow> mqtt_conn \<Rightarrow> ('db, 'w, unit, mqtt_conn) handler" where
  "mqtt_step S B F (EPacket env ok packet) conn =
     bnd (handle_client_packet S B F env ok packet conn) (\<lambda>(continue, conn').
     ret (if continue then conn' else conn'\<lparr>mc_open := False\<rparr>))"
| "mqtt_step S B F EReadError conn = ret (conn\<lparr>mc_open := False\<rparr>)"
| "mqtt_step S B F EClosed conn = ret (conn\<lparr>mc_open := False\<rparr>)"
| "mqtt_step S B F (EPoll queue) conn = subscription_poll S B F queue conn"
| "mqtt_step S B F (EOutgoing ok) conn = ret (send_outgoing ok conn)"

text \<open>When the loop has ended the pollers are aborted.\<close>

definition mqtt_cleanup :: "mqtt_conn \<Rightarrow> mqtt_conn" where
  "mqtt_cleanup conn = conn\<lparr>mc_subscriptions := []\<rparr>"

fun mqtt_loop ::
    "'db sled \<Rightarrow> bincode \<Rightarrow> ('w, 'db) flock \<Rightarrow> mqtt_event list \<Rightarrow> mqtt_conn \<Rightarrow> ('db, 'w, unit, mqtt_conn) handler" where
  "mqtt_loop S B F [] conn = ret (if mc_open conn then conn else mqtt_cleanup conn)"
| "mqtt_loop S B F (e # es) conn =
     (if mc_open conn then bnd (mqtt_step S B F e conn) (mqtt_loop S B F es)
      else ret (mqtt_cleanup conn))"

definition mqtt_accepted :: mqtt_conn where
  "mqtt_accepted =
     \<lparr>mc_inflight = (\<lambda>_. None), mc_next_pkid = 1, mc_subscriptions = [], mc_channel = [],
      mc_written = [ConnAck], mc_open = True\<rparr>"

text \<open>The first packet must be a CONNECT; \<open>first\<close> is what the first read returns.\<close>

definition handle_connection ::
    "'db sled \<Rightarrow> bincode \<Rightarrow> ('w, 'db) flock \<Rightarrow> (string + mqtt_packet) option \<Rightarrow> bool \<Rightarrow> mqtt_event list \<Rightarrow>
       ('db, 'w, unit, mqtt_conn option) handler" where
  "handle_connection S B F first connack_ok events =
     (if first = Some (Inr Connect) \<and> connack_ok then
        bnd (mqtt_loop S B F events mqtt_accepted) (\<lambda>conn. ret (Some conn))
      else ret None)"

text \<open>
  \<^verbatim>\<open>listen\<close>: a failed bind panics; every accepted connection gets a task of its own and a failed accept is
  skipped.  \<open>accepts\<close> is what the listener has returned so far.
\<close>

definition mqtt_listen :: "string + unit \<Rightarrow> (string + 'stream) list \<Rightarrow> ('e, 'stream list) outcome" where
  "mqtt_listen bound accepts = (case bound of Inl _ \<Rightarrow> Panic | Inr _ \<Rightarrow> Ok (oks accepts))"

text \<open>Regular topics and clocks; the PUBLISH packets a connection has written; its deliveries.\<close>

fun regular_packet :: "mqtt_env \<Rightarrow> mqtt_packet \<Rightarrow> bool" where
  "regular_packet env (Publish topic q pkid pl) = (plain_name topic \<and> utf8_ok topic \<and> 0 \<le> sint (env_clk env 1))"
| "regular_packet env (Subscribe pkid fs) = list_all (\<lambda>(path, q). plain_name path \<and> utf8_ok path) fs"
| "regular_packet env _ = True"

fun regular_event :: "mqtt_event \<Rightarrow> bool" where
  "regular_event (EPacket env ok packet) = regular_packet env packet"
| "regular_event _ = True"

definition published :: "mqtt_conn \<Rightarrow> mqtt_packet list" where
  "published conn = filter (\<lambda>p. case p of Publish _ _ _ _ \<Rightarrow> True | _ \<Rightarrow> False) (mc_written conn)"

text \<open>A property of every result of a program; the packet identifiers of a connection are in order.\<close>

definition yields :: "('r \<Rightarrow> bool) \<Rightarrow> ('s, 'e, 'r) prog \<Rightarrow> bool" where
  "yields P h \<longleftrightarrow> (\<forall>s x s'. h s = (Ok x, s') \<longrightarrow> P x)"

definition pkids_ok :: "mqtt_conn \<Rightarrow> bool" where
  "pkids_ok conn \<longleftrightarrow> map pub_pkid (published conn) = map of_nat [1..<Suc (length (published conn))] \<and>
     (mc_open conn \<longrightarrow> mc_next_pkid conn = of_nat (Suc (length (published conn))))"

text \<open>Everything but a delivery leaves the sequence of PUBLISH packets and the next identifier alone.\<close>

definition quiet :: "mqtt_conn \<Rightarrow> mqtt_conn \<Rightarrow> bool" where
  "quiet conn conn' \<longleftrightarrow> published conn' = published conn \<and> mc_next_pkid conn' = mc_next_pkid conn \<and> mc_open conn' = mc_open conn"

section \<open>The connection returns\<close>

context engine
begin

lemma mqtt_parts_serve:
  "plain_name q \<Longrightarrow> utf8_ok q \<Longrightarrow> serves (wf_manager B view nxt) (mqtt_declare_queue S B F q)"
  "serves (wf_manager B view nxt) (mqtt_consume_one S B F q)"
  "serves (wf_manager B view nxt) (ack_message S F q tag)"
  "0 \<le> sint (env_clk env 1) \<Longrightarrow> serves (wf_manager B view nxt) (publish_message S B F env q pl)"
  by (auto simp: mqtt_declare_queue_def mqtt_consume_one_def ack_message_def publish_message_def Let_def
      intro!: serves_dispatch ops_sound)

lemma subscribe_serves:
  "list_all (\<lambda>(path, q). plain_name path \<and> utf8_ok path) fs \<Longrightarrow>
     serves (wf_manager B view nxt) (subscribe_filters S B F codes fs conn)"
  by (induction fs arbitrary: codes conn) (auto intro!: serves_bnd mqtt_parts_serve)

lemma mqtt_step_serves: "regular_event e \<Longrightarrow> serves (wf_manager B view nxt) (mqtt_step S B F e conn)"
proof (cases e)
  case (EPacket env ok packet)
  assume "regular_event e"
  then have "serves (wf_manager B view nxt) (handle_client_packet S B F env ok packet conn)"
    by (cases packet) (auto simp: EPacket handle_client_packet_def
        intro!: serves_bnd mqtt_parts_serve subscribe_serves split: option.split)
  then show ?thesis by (auto simp: EPacket intro!: serves_bnd)
qed (auto simp: subscription_poll_def intro!: serves_bnd mqtt_parts_serve split: option.split)

lemma mqtt_loop_serves: "list_all regular_event es \<Longrightarrow> serves (wf_manager B view nxt) (mqtt_loop S B F es conn)"
  by (induction es arbitrary: conn) (auto intro!: serves_bnd mqtt_step_serves)

end

section \<open>Packet identifiers\<close>

lemma yields_ret [simp]: "yields P (ret x) = P x"
  by (auto simp: yields_def ret_def)

lemma yields_bnd: "yields P h \<Longrightarrow> (\<And>x. P x \<Longrightarrow> yields Q (k x)) \<Longrightarrow> yields Q (bnd h k)"
  by (fastforce simp: yields_def bnd_def split: prod.splits outcome.splits)

lemma yields_next: "(\<And>x. yields Q (k x)) \<Longrightarrow> yields Q (bnd h k)"
  by (rule yields_bnd [where P = "\<lambda>_. True"]) (auto simp: yields_def)

lemma quiet_simps [simp]:
  "quiet c c" "quiet c (c'\<lparr>mc_subscriptions := s\<rparr>) = quiet c c'" "quiet c (c'\<lparr>mc_inflight := i\<rparr>) = quiet c c'"
  "quiet c (c'\<lparr>mc_channel := h\<rparr>) = quiet c c'"
  "\<not> is_Publish pkt \<Longrightarrow> quiet c (snd (mqtt_send ok pkt c')) = quiet c c'"
  by (cases pkt; simp add: quiet_def published_def mqtt_send_def)+

lemma subscribe_quiet: "quiet conn conn' \<Longrightarrow> yields (\<lambda>x. quiet conn (snd x)) (subscribe_filters S B F codes fs conn')"
  by (induction fs arbitrary: codes conn') (auto intro!: yields_next)

lemma packet_quiet: "yields (\<lambda>x. quiet conn (snd x)) (handle_client_packet S B F env ok packet conn)"
proof (cases packet)
  case (Subscribe pkid fs)
  then show ?thesis
    by (auto simp: handle_client_packet_def intro!: yields_bnd [OF subscribe_quiet [OF quiet_simps(1)]])
qed (auto simp: handle_client_packet_def split: option.split intro!: yields_next)

lemma quiet_pkids: "quiet conn conn' \<Longrightarrow> pkids_ok conn \<Longrightarrow> pkids_ok conn' \<and> pkids_ok (conn'\<lparr>mc_open := False\<rparr>)"
  by (auto simp: pkids_ok_def quiet_def published_def)

lemma step_pkids:
  assumes "pkids_ok conn" "mc_open conn"
  shows "yields pkids_ok (mqtt_step S B F e conn)"
proof (cases e)
  case (EPacket env ok packet)
  then show ?thesis using quiet_pkids [OF _ assms(1)] by (auto intro!: yields_bnd [OF packet_quiet])
next
  case (EPoll q)
  then show ?thesis
    using quiet_pkids [OF _ assms(1)] by (auto simp: subscription_poll_def intro!: yields_next split: option.split)
next
  case (EOutgoing ok)
  then show ?thesis
    using assms by (auto simp: send_outgoing_def Let_def mqtt_send_def pkids_ok_def published_def split: list.split)
qed (use quiet_pkids [OF _ assms(1), of conn] in simp_all)

lemma loop_pkids: "pkids_ok conn \<Longrightarrow> yields pkids_ok (mqtt_loop S B F es conn)"
proof (induction es arbitrary: conn)
  case (Cons e es)
  then show ?case
    using quiet_pkids [of conn "mqtt_cleanup conn"] by (auto simp: mqtt_cleanup_def intro!: yields_bnd [OF step_pkids])
next
  case Nil
  then show ?case using quiet_pkids [of conn "mqtt_cleanup conn"] by (auto simp: mqtt_cleanup_def)
qed

end
