(* ===== verification/Daemon_Flow.thy ===== *)
theory Daemon_Flow
  imports Rust_Sdk Mqtt_Handler
begin

text \<open>
  The path of a message through a Solo daemon on a healthy database, shared by the properties of the
  HTTP, gRPC and MQTT interfaces and of the client library: what a publish, a consume and an ack of
  the engine do to the abstract queue, and what a handler on a Solo engine returns.
\<close>

abbreviation solo :: "'db manager \<Rightarrow> ('db, 'w) app_engine" where
  "solo m \<equiv> Solo \<lparr>guarded = m, poisoned = False\<rparr>"

definition delivers :: "libs \<Rightarrow> u64 \<times> message \<Rightarrow> status + consumed_message" where
  "delivers L p = Inr (consumed_of L (DeliveryTag (fst p), snd p))"

lemma servesD:
  assumes "serves P h" "P m"
  shows "\<exists>r m'. h (solo m) = (r, solo m') \<and> P m' \<and> returns r"
proof -
  have "wp h (\<lambda>r eng. solo_ok P eng \<and> returns r) (solo m)" using assms by (auto simp: serves_def solo_ok_def)
  then show ?thesis by (cases "h (solo m)") (auto simp: wp_def solo_ok_def)
qed

lemma still_running: "st_running st \<Longrightarrow> st\<lparr>st_sent := xs, st_running := True\<rparr> = st\<lparr>st_sent := xs\<rparr>"
  by (cases st) simp

lemma poisoned_panics:
  assumes "poisoned mx"
  shows "dispatch F c f op g (Solo mx) = (Panic, Solo mx)" "dispatch_read F c f (Solo mx) = (Panic, Solo mx)"
  using assms by (simp_all add: dispatch_def dispatch_read_def lock_run_def)

context engine
begin

abbreviation aq :: "'a manager \<Rightarrow> string \<Rightarrow> mq_state" where
  "aq m q \<equiv> queue_of B (view (mgr_db m)) q"

lemma flow_publish:
  assumes "\<not> faulty" "wf_manager B view nxt m" "q \<in> declared (view (mgr_db m))" "nxt (mgr_db m) < 2 ^ 64" "max_bytes m = None"
    and "deliver_at msg = None" "dedup_key msg = None" "0 \<le> sint (clk 1)"
  obtains m' where "publish S B clk q msg m = (Ok (Stored (msg_id msg)), m')" "wf_manager B view nxt m'"
    "q \<in> declared (view (mgr_db m'))" "aq m' q = (aq m q)\<lparr>ready := put msg (ready (aq m q))\<rparr>"
proof -
  obtain r m' where p: "publish S B clk q msg m = (r, m')" by force
  have wf: "wf_state B (abs m)" using assms(2) by (simp add: wf_manager_state)
  note plain = wpD [OF publish_plain [where clk = clk, OF assms(1) wf assms(3-8)] p]
  have sp: "publish_spec False B clk q msg (abs m) r (abs m')"
    using wpD [OF publish_refines p] assms(1) by simp
  have r: "r = Ok (Stored (msg_id msg))" using plain by simp
  from publish_abs [OF bincode_codec_axioms sp [unfolded r] wf assms(8)] assms(6,7)
  have "aq m' q = (aq m q)\<lparr>ready := put msg (ready (aq m q))\<rparr>"
    by (simp add: aq_seen_def aq_publish_def due_later_def split: option.splits)
  with plain p r show thesis by (intro that [of m']) (simp_all add: wf_manager_state)
qed

lemma flow_consume:
  assumes "\<not> faulty" "wf_manager B view nxt m" "q \<in> declared (view (mgr_db m))" "ready (aq m q) = msg # msgs"
  obtains tag m' where "consume S B q m = (Ok (Some (tag, msg)), m')" "wf_manager B view nxt m'"
    "q \<in> declared (view (mgr_db m'))" "flight (aq m q) (tag_u64 tag) = None"
    "aq m' q = (aq m q)\<lparr>ready := msgs, flight := (flight (aq m q))(tag_u64 tag \<mapsto> msg)\<rparr>"
proof -
  obtain r m' where p: "consume S B q m = (r, m')" by force
  have wf: "wf_state B (abs m)" using assms(2) by (simp add: wf_manager_state)
  have q: "q \<in> declared (cont (abs m))" using assms(3) by simp
  have sp: "consume_spec False B q (abs m) r (abs m')" using wpD [OF consume_refines p] assms(1) by simp
  from consume_outcome [OF sp wf q] assms(4) obtain tag x where r: "r = Ok (Some (tag, x))" by auto
  from consume_abs [OF sp [unfolded r] wf sorted_abs] assms(4) consume_wf [OF sp wf] consume_declared [OF sp wf sorted_abs q]
  show thesis by (intro that [of tag m']) (auto simp: p r wf_manager_state)
qed

lemma flow_consume_empty:
  assumes "\<not> faulty" "wf_manager B view nxt m" "q \<in> declared (view (mgr_db m))" "ready (aq m q) = []"
  obtains m' where "consume S B q m = (Ok None, m')" "abs m' = abs m"
proof -
  obtain r m' where p: "consume S B q m = (r, m')" by force
  have wf: "wf_state B (abs m)" using assms(2) by (simp add: wf_manager_state)
  have q: "q \<in> declared (cont (abs m))" using assms(3) by simp
  have sp: "consume_spec False B q (abs m) r (abs m')" using wpD [OF consume_refines p] assms(1) by simp
  from consume_outcome [OF sp wf q] consume_abs [of False B q "abs m" _ _ "abs m'", OF _ wf sorted_abs] sp assms(4)
  show thesis by (intro that [of m']) (auto simp: p)
qed

lemma flow_ack:
  assumes "\<not> faulty" "wf_manager B view nxt m" "q \<in> declared (view (mgr_db m))" "flight (aq m q) (tag_u64 tag) \<noteq> None"
  obtains m' where "ack S q tag m = (Ok (), m')" "aq m' q = (aq m q)\<lparr>flight := (flight (aq m q))(tag_u64 tag := None)\<rparr>"
proof -
  obtain r m' where p: "ack S q tag m = (r, m')" by force
  have wf: "wf_state B (abs m)" using assms(2) by (simp add: wf_manager_state)
  have sp: "ack_spec False q tag (abs m) r (abs m')" using wpD [OF ack_refines p] assms(1) by simp
  with ack_outcome [OF sp, of B] assms(3,4) have r: "r = Ok ()" by simp
  from ack_abs [OF sp [unfolded r] wf] show thesis by (intro that [of m']) (simp_all add: p r)
qed

text \<open>A message published to a queue with nothing ready is the next one consumed, and acknowledging it empties the queue again.\<close>

lemma flow_roundtrip:
  assumes "\<not> faulty" "wf_manager B view nxt m" "q \<in> declared (view (mgr_db m))" "nxt (mgr_db m) < 2 ^ 64" "max_bytes m = None"
    and "deliver_at msg = None" "dedup_key msg = None" "0 \<le> sint (clk 1)" "ready (aq m q) = []"
  shows "\<exists>m1 m2 m3 tag. publish S B clk q msg m = (Ok (Stored (msg_id msg)), m1) \<and>
    consume S B q m1 = (Ok (Some (tag, msg)), m2) \<and> ack S q tag m2 = (Ok (), m3) \<and> aq m3 q = aq m q"
proof -
  from flow_publish [where clk = clk and msg = msg, OF assms(1-8)] obtain m1
    where m1: "publish S B clk q msg m = (Ok (Stored (msg_id msg)), m1)" "wf_manager B view nxt m1"
      "q \<in> declared (view (mgr_db m1))" "aq m1 q = (aq m q)\<lparr>ready := [msg]\<rparr>" using assms(9) by auto
  then have "ready (aq m1 q) = [msg]" by simp
  from flow_consume [OF assms(1) m1(2,3) this] obtain tag m2
    where m2: "consume S B q m1 = (Ok (Some (tag, msg)), m2)" "wf_manager B view nxt m2" "q \<in> declared (view (mgr_db m2))"
      and fl: "flight (aq m1 q) (tag_u64 tag) = None"
      and aq2: "aq m2 q = (aq m1 q)\<lparr>ready := [], flight := (flight (aq m1 q))(tag_u64 tag \<mapsto> msg)\<rparr>" .
  from aq2 have "flight (aq m2 q) (tag_u64 tag) \<noteq> None" by simp
  from flow_ack [OF assms(1) m2(2,3) this] obtain m3
    where m3: "ack S q tag m2 = (Ok (), m3)" "aq m3 q = (aq m2 q)\<lparr>flight := (flight (aq m2 q))(tag_u64 tag := None)\<rparr>" .
  have "aq m3 q = aq m q"
    using m1(4) aq2 m3(2) fl assms(9) by (auto simp: fun_upd_idem)
  with m1(1) m2(1) m3(1) show ?thesis by blast
qed

text \<open>A key shorter than the slice makes \<^verbatim>\<open>consume\<close> panic.\<close>

lemma consume_short_key:
  assumes "\<not> faulty" "q \<in> declared (view (mgr_db m))" "view (mgr_db m) q = (k, v) # rest" "length k < 9"
  shows "wp (consume S B q) (\<lambda>r m'. r = Panic) m"
proof -
  have loop: "wp (consume_loop S B q (Suc n)) (\<lambda>r m'. r = Panic) m1" if "view (mgr_db m1) = view (mgr_db m)" for n m1
    using assms(1,3,4) that by (auto simp: wp_simps entries_ok_Cons intro!: wp_rules)
  show ?thesis
    unfolding consume_def consume_rounds_def numeral_2_eq_2
    using assms by (auto simp: wp_simps simp del: consume_loop.simps intro!: wp_rules loop)
qed

text \<open>The ticks of a consume stream.\<close>

lemma stream_ticks:
  assumes nf: "\<not> faulty" and "wf_manager B view nxt m" "q \<in> declared (view (mgr_db m))" "length (ready (aq m q)) \<le> n"
    and st: "st_queue st = Some q" "st_running st"
  shows "\<exists>tags m'. consume_stream S B L F (replicate n (Tick True)) st (solo m) =
      (Ok (st\<lparr>st_sent := st_sent st @ map (delivers L) (zip tags (ready (aq m q)))\<rparr>), solo m') \<and>
    length tags = length (ready (aq m q)) \<and> distinct tags \<and> (\<forall>t \<in> set tags. flight (aq m q) t = None) \<and>
    flight (aq m' q) = (flight (aq m q))(tags [\<mapsto>] ready (aq m q)) \<and> ready (aq m' q) = []"
  using assms(2-)
proof (induction n arbitrary: m st)
  case 0
  then show ?case by (intro exI [of _ "[]"] exI [of _ m]) (simp add: ret_def)
next
  case (Suc n)
  show ?case
  proof (cases "ready (aq m q)")
    case Nil
    from flow_consume_empty [OF nf Suc.prems(1,2) Nil] obtain m1 where c: "consume S B q m = (Ok None, m1)" "abs m1 = abs m" .
    have e: "aq m1 q = aq m q" "wf_manager B view nxt m1" "q \<in> declared (view (mgr_db m1))"
      using c(2) Suc.prems(1,2) by (simp_all add: wf_manager_def abs_state_eq)
    have "consume_stream S B L F (replicate (Suc n) (Tick True)) st (solo m) =
        consume_stream S B L F (replicate n (Tick True)) st (solo m1)"
      using Suc.prems(4,5) by (simp add: stream_tick_def bnd_def consume_one_def dispatch_solo(1) [where c = "consume S B q", OF c(1)] ret_def)
    with Suc.IH [OF e(2,3) _ Suc.prems(4,5)] show ?thesis by (simp add: e(1) Nil)
  next
    case (Cons msg msgs)
    from flow_consume [OF nf Suc.prems(1,2) Cons] obtain tag m1
      where c: "consume S B q m = (Ok (Some (tag, msg)), m1)" "wf_manager B view nxt m1" "q \<in> declared (view (mgr_db m1))"
        and fl: "flight (aq m q) (tag_u64 tag) = None"
        and a: "aq m1 q = (aq m q)\<lparr>ready := msgs, flight := (flight (aq m q))(tag_u64 tag \<mapsto> msg)\<rparr>" .
    let ?st = "st\<lparr>st_sent := st_sent st @ [delivers L (tag_u64 tag, msg)]\<rparr>"
    have run: "consume_stream S B L F (replicate (Suc n) (Tick True)) st (solo m) =
        consume_stream S B L F (replicate n (Tick True)) ?st (solo m1)"
      using Suc.prems(4,5) by (simp add: stream_tick_def bnd_def consume_one_def dispatch_solo(1) [where c = "consume S B q", OF c(1)] ret_def delivers_def
          still_running)
    have "length (ready (aq m1 q)) \<le> n" using Suc.prems(3) Cons a by simp
    from Suc.IH [OF c(2,3) this, of ?st] Suc.prems(4,5) obtain tags m'
      where ih: "consume_stream S B L F (replicate n (Tick True)) ?st (solo m1) =
          (Ok (?st\<lparr>st_sent := st_sent ?st @ map (delivers L) (zip tags (ready (aq m1 q)))\<rparr>), solo m')"
        "length tags = length (ready (aq m1 q))" "distinct tags" "\<forall>t \<in> set tags. flight (aq m1 q) t = None"
        "flight (aq m' q) = (flight (aq m1 q))(tags [\<mapsto>] ready (aq m1 q))" "ready (aq m' q) = []" by auto
    have "tag_u64 tag \<notin> set tags" using ih(4) by (auto simp: a)
    with ih fl show ?thesis
      unfolding run Cons by (intro exI [of _ "tag_u64 tag # tags"] exI [of _ m']) (auto simp: a split: if_splits)
  qed
qed

end

end
