(* ===== verification/Daemon_Instances.thy ===== *)
theory Daemon_Instances
  imports Daemon_Flow Mem_Codec
begin

text \<open>
  Executable instances of the interfaces of the daemon: hexadecimal text for payloads and UUIDs
  (\<^verbatim>\<open>web_libs\<close>), and a consensus of one node that appends every write to the log of its store and
  applies it (\<^verbatim>\<open>flock_leader\<close>), built from the definitions of \<^verbatim>\<open>storage.rs\<close> on the in-memory database.
\<close>

section \<open>Text encodings\<close>

definition hex_digit :: "nat \<Rightarrow> char" where
  "hex_digit n = char_of (if n < 10 then 48 + n else 87 + n)"

definition hex_value :: "char \<Rightarrow> nat option" where
  "hex_value c =
     (let n = of_char c in
      if 48 \<le> n \<and> n < 58 then Some (n - 48) else if 97 \<le> n \<and> n < 103 then Some (n - 87) else None)"

fun hex_encode :: "bytes \<Rightarrow> string" where
  "hex_encode [] = []"
| "hex_encode (c # cs) = hex_digit (of_char c div 16) # hex_digit (of_char c mod 16) # hex_encode cs"

fun hex_decode :: "string \<Rightarrow> string + bytes" where
  "hex_decode [] = Inr []"
| "hex_decode [c] = Inl ''odd length''"
| "hex_decode (a # b # cs) =
     (case (hex_value a, hex_value b, hex_decode cs) of
        (Some x, Some y, Inr bs) \<Rightarrow> Inr (char_of (16 * x + y) # bs)
      | (Some x, Some y, Inl e) \<Rightarrow> Inl e
      | _ \<Rightarrow> Inl ''invalid byte'')"

definition ref_libs :: libs where
  "ref_libs =
     \<lparr>b64_encode = hex_encode, b64_decode = hex_decode,
      show_uuid = (\<lambda>u. hex_encode (to_be_bytes u)),
      parse_uuid = (\<lambda>s. case hex_decode s of
          Inl e \<Rightarrow> Inl e
        | Inr bs \<Rightarrow> if length bs = 16 then Inr (from_be_bytes bs) else Inl ''invalid length''),
      header_value_ok = list_all (\<lambda>c. 32 \<le> (of_char c :: nat) \<and> of_char c \<noteq> (127 :: nat))\<rparr>"

section \<open>A consensus of one node\<close>

definition single_write ::
    "(nat \<Rightarrow> nat \<Rightarrow> i64) \<Rightarrow> (mem_db, string) raft_store \<times> u64 \<Rightarrow> queue_operation \<Rightarrow>
       (raft_error + queue_operation_response) \<times> (mem_db, string) raft_store \<times> u64" where
  "single_write clk w op =
     (case w of (store, i) \<Rightarrow>
        (case bnd (append_to_log mem_sled ref_raft [demo_entry i op]) (\<lambda>_.
              apply_to_state_machine mem_sled ref_bincode ref_raft (\<lambda>_. clk) [demo_entry i op]) store of
           (Ok (resp # _), store') \<Rightarrow> (Inr resp, store', i + 1)
         | (_, store') \<Rightarrow> (Inl \<lparr>forward_to_leader = None, raft_error_string = ''fatal''\<rparr>, store', i + 1)))"

definition single_node :: "(nat \<Rightarrow> nat \<Rightarrow> i64) \<Rightarrow> ((mem_db, string) raft_store \<times> u64, mem_db) flock" where
  "single_node clk =
     \<lparr>raft_client_write = single_write clk,
      raft_local = (\<lambda>w. state_machine (fst w)),
      raft_update_local = (\<lambda>w m. ((fst w)\<lparr>state_machine := m\<rparr>, snd w)),
      raft_metrics = (\<lambda>w. (1, Some 1))\<rparr>"

section \<open>The laws hold\<close>

lemma hex_digit_value: "n < 16 \<Longrightarrow> hex_value (hex_digit n) = Some n"
  by (auto simp: hex_value_def hex_digit_def Let_def)

lemma hex_roundtrip: "hex_decode (hex_encode bs) = Inr bs"
proof (induction bs)
  case (Cons c bs)
  have "(of_char c :: nat) < 256" by (metis of_char_mod_256 mod_less_divisor zero_less_numeral)
  then have "of_char c div 16 < (16 :: nat)" by (simp add: less_mult_imp_div_less)
  then show ?case using Cons by (simp add: hex_digit_value)
qed simp

interpretation ref_libs: web_libs ref_libs
  by unfold_locales (simp_all add: ref_libs_def hex_roundtrip from_be_bytes_to_be_bytes)

interpretation single: flock_leader "single_node clk" mem_sled ref_bincode clk for clk
proof
  fix op w resp m'
  assume "apply_operation mem_sled ref_bincode clk op (raft_local (single_node clk) w) = (Ok resp, m')"
  then show "\<exists>w'. raft_client_write (single_node clk) w op = (Inr resp, w') \<and> raft_local (single_node clk) w' = m'"
    by (cases w) (simp add: single_node_def single_write_def bnd_def append_to_log_def raft_flush_def on_raft_def ret_def
        db_flush_def db_insert_def meta_set_def apply_entry_def on_state_machine_def demo_entry_def mem_sled_def ref_raft_def encode_all_def)
qed (simp add: single_node_def)

end
