(* ===== verification/Daemon_Correctness.thy ===== *)
theory Daemon_Correctness
  imports Daemon_Instances
begin

text \<open>
  Properties of the daemon as a whole: the three servers over the queue engine in both modes, and the
  client library over the gRPC service.
\<close>

definition demo_solo :: "mem_db manager" where
  "demo_solo = \<lparr>mgr_db = mgr_db demo_declared, current_bytes = 0, max_bytes = None\<rparr>"

definition demo_mqtt_env :: mqtt_env where
  "demo_mqtt_env = \<lparr>env_uuid = 5, env_secs = 1, env_clk = (\<lambda>_. 1000)\<rparr>"

definition demo_full :: "mem_db manager" where
  "demo_full = \<lparr>mgr_db = mgr_db demo_declared, current_bytes = 0, max_bytes = Some 10\<rparr>"

lemma demo_solo_facts:
  "wf_manager ref_bincode mem_view mem_next demo_solo" "''q'' \<in> declared (mem_view (mgr_db demo_solo))"
  "mem_next (mgr_db demo_solo) < 2 ^ 64" "max_bytes demo_solo = None"
  "ready (queue_of ref_bincode (mem_view (mgr_db demo_solo)) ''q'') = []"
proof -
  show "wf_manager ref_bincode mem_view mem_next demo_solo"
    using engine_facts(1) [OF mem.engine_axioms [where f = False] demo_reach(1)]
    by (simp add: wf_state_def wf_manager_def abs_state_def demo_solo_def)
  show "ready (queue_of ref_bincode (mem_view (mgr_db demo_solo)) ''q'') = []" by code_simp
qed (use demo_q(1) in \<open>simp_all add: demo_solo_def demo_declared_def demo_manager_def\<close>)

lemma wf_demo_published: "wf_manager ref_bincode mem_view mem_next demo_published"
  using engine_facts(1) [OF mem.engine_axioms [where f = False] demo_reach(2)]
  by (simp add: wf_state_def wf_manager_def abs_state_def)

text \<open>
  No request panics the daemon.  In Solo mode, on a well-formed store, every HTTP request, every
  gRPC call, every run of a consume stream and every MQTT connection returns, leaves the store well
  formed and does not poison the mutex, I/O failures of the database included; the queue names a
  client declares must not collide with the names of the engine's own trees.
\<close>

theorem daemon_total:
  assumes "engine S view nxt f B"
  shows "(regular_request (cluster \<noteq> None) hreq \<and> 0 \<le> sint (hclk 1) \<longrightarrow>
      serves (wf_manager B view nxt) (http_serve S B L F cluster new_id now_ms hclk hreq)) \<and>
    (regular_grpc clk greq \<longrightarrow> serves (wf_manager B view nxt) (grpc_serve S B L F new_ids clk greq)) \<and>
    serves (wf_manager B view nxt) (consume_stream S B L F events st) \<and>
    (list_all regular_event es \<longrightarrow> serves (wf_manager B view nxt) (handle_connection S B F first ok es))"
  using engine.api_serves [OF assms, of cluster hreq hclk] engine.grpc_serves [OF assms] stream_serves [OF assms]
    engine.mqtt_loop_serves [OF assms, of es]
  by (auto simp: handle_connection_def intro!: serves_bnd)

theorem daemon_total_witness:
  "\<exists>r eng. handle_connection mem_sled ref_bincode (single_node (\<lambda>_ _. 1000)) (Some (Inr Connect)) True
      [EPacket \<lparr>env_uuid = 5, env_secs = 1, env_clk = (\<lambda>_. 1000)\<rparr> True (Publish ''t'' AtLeastOnce 3 ''x'')] (solo demo_solo) = (r, eng) \<and>
    solo_ok (wf_manager ref_bincode mem_view mem_next) eng \<and> returns r"
proof -
  let ?es = "[EPacket \<lparr>env_uuid = 5, env_secs = 1, env_clk = (\<lambda>_. 1000)\<rparr> True (Publish ''t'' AtLeastOnce 3 ''x'')]"
  have "plain_name ''t''" "utf8_ok ''t''" by code_simp+
  then have "list_all regular_event ?es" using demo_clock by simp
  with daemon_total [OF mem.engine_axioms [where f = False], where es = ?es and F = "single_node (\<lambda>_ _. 1000)"
      and first = "Some (Inr Connect)" and ok = True]
  have "serves (wf_manager ref_bincode mem_view mem_next)
      (handle_connection mem_sled ref_bincode (single_node (\<lambda>_ _. 1000)) (Some (Inr Connect)) True ?es)" by blast
  then show ?thesis using servesD [of "wf_manager ref_bincode mem_view mem_next" _ demo_solo] demo_solo_facts(1) by (fastforce simp: solo_ok_def)
qed





text \<open>
  C22. The client library end to end.  Over the gRPC service of a healthy Solo daemon with nothing
  ready in the queue, publishing a message without delay and deduplication key returns the id the
  daemon chose; the next consume returns a delivery with that id and exactly the message that was
  built (payload, headers, priority), no attempts, and timestamp 0; acknowledging its tag succeeds and
  leaves the queue as it was.
\<close>

theorem sdk_roundtrip:
  fixes S :: "'db sled" and F :: "('w, 'db) flock" and new_ids :: "nat \<Rightarrow> uuid"
  assumes "engine S view nxt False B" "web_libs L"
    and "wf_manager B view nxt m" "q \<in> declared (view (mgr_db m))" "nxt (mgr_db m) < 2 ^ 64" "max_bytes m = None"
    and "0 \<le> sint (clk 0 1)" "ready (queue_of B (view (mgr_db m)) q) = []"
    and "cl_deliver_at msg = None" "cl_dedup_key msg = None"
  defines "C \<equiv> daemon_stub S B L F new_ids clk"
  shows "\<exists>tag m1 m2 m3.
    sdk_publish C q msg (solo m) = (Ok \<lparr>res_id = show_uuid L (new_ids 0), res_deduplicated = False\<rparr>, solo m1) \<and>
    sdk_consume C q (solo m1) =
      (Ok (Some \<lparr>dl_tag = tag, dl_message = msg, dl_id = show_uuid L (new_ids 0), dl_timestamp = 0, dl_attempts = 0\<rparr>), solo m2) \<and>
    sdk_ack C q tag (solo m2) = (Ok (), solo m3) \<and>
    queue_of B (view (mgr_db m3)) q = queue_of B (view (mgr_db m)) q"
proof -
  let ?msg = "proto_message_to_core L (new_ids 0) (client_to_proto msg)"
  have plain: "deliver_at ?msg = None" "dedup_key ?msg = None"
    using assms(9,10) by (simp_all add: proto_message_to_core_def client_to_proto_def)
  have id: "msg_id ?msg = new_ids 0"
    using web_libs.uuid_not_empty [OF assms(2)] by (auto simp: proto_message_to_core_def client_to_proto_def isl_def)
  obtain m1 m2 m3 tag where run: "publish S B (clk 0) q ?msg m = (Ok (Stored (msg_id ?msg)), m1)"
    "consume S B q m1 = (Ok (Some (tag, ?msg)), m2)" "ack S q tag m2 = (Ok (), m3)"
    and q: "queue_of B (view (mgr_db m3)) q = queue_of B (view (mgr_db m)) q"
    using engine.flow_roundtrip [where clk = "clk 0" and msg = ?msg, OF assms(1) _ assms(3-6) plain assms(7,8)] by blast
  have "sdk_publish C q msg (solo m) = (Ok \<lparr>res_id = show_uuid L (new_ids 0), res_deduplicated = False\<rparr>, solo m1)"
    using run(1) id
    by (simp add: sdk_publish_def C_def daemon_stub_def bnd_def ret_def call_rpc_def grpc_publish_def dispatch_solo Let_def
        or_status_def publish_response_of_def publish_result_of_def)
  moreover have "sdk_consume C q (solo m1) =
      (Ok (Some \<lparr>dl_tag = tag_u64 tag, dl_message = msg, dl_id = show_uuid L (new_ids 0), dl_timestamp = 0, dl_attempts = 0\<rparr>), solo m2)"
    using run(2) id client_roundtrip [of L "new_ids 0" msg]
    by (simp add: sdk_consume_def C_def daemon_stub_def bnd_def ret_def call_rpc_def grpc_consume_def dispatch_solo
        or_status_def consumed_of_def delivery_of_def)
      (simp add: core_message_to_proto_def proto_message_to_core_def client_to_proto_def)
  moreover have "sdk_ack C q (tag_u64 tag) (solo m2) = (Ok (), solo m3)"
    using run(3) by (simp add: sdk_ack_def C_def daemon_stub_def bnd_def ret_def call_rpc_def grpc_ack_def dispatch_solo or_status_def)
  ultimately show ?thesis using q by blast
qed

theorem sdk_roundtrip_witness:
  "\<exists>tag m1 m2. let C = daemon_stub mem_sled ref_bincode ref_libs (single_node (\<lambda>_ _. 1000)) (\<lambda>_. 5) (\<lambda>_ _. 1000);
       msg = client_with_priority (ClientMessage_new ''hi'') 7 in
     sdk_publish C ''q'' msg (solo demo_solo) =
       (Ok \<lparr>res_id = show_uuid ref_libs 5, res_deduplicated = False\<rparr>, solo m1) \<and>
     sdk_consume C ''q'' (solo m1) =
       (Ok (Some \<lparr>dl_tag = tag, dl_message = msg, dl_id = show_uuid ref_libs 5, dl_timestamp = 0, dl_attempts = 0\<rparr>), solo m2)"
proof -
  let ?msg = "client_with_priority (ClientMessage_new ''hi'') 7"
  have "cl_deliver_at ?msg = None" "cl_dedup_key ?msg = None" by (simp_all add: client_with_priority_def ClientMessage_new_def)
  from sdk_roundtrip [OF mem.engine_axioms ref_libs.web_libs_axioms demo_solo_facts(1-4) demo_clock demo_solo_facts(5) this,
      where F = "single_node (\<lambda>_ _. 1000)" and new_ids = "\<lambda>_. 5"]
  show ?thesis unfolding Let_def by blast
qed

text \<open>
  C23. The consume stream delivers the queue.  On a healthy Solo daemon, a stream whose first item names
  a declared queue sends, one per tick, exactly the ready messages in delivery order, under distinct
  tags that were not in flight; after enough ticks the queue is empty, each message is in flight under
  its tag, and the stream still runs.
\<close>

theorem stream_delivers:
  assumes "engine S view nxt False B" "wf_manager B view nxt m" "q \<in> declared (view (mgr_db m))" "q \<noteq> []"
    and "length (ready (queue_of B (view (mgr_db m)) q)) \<le> n"
  defines "a \<equiv> queue_of B (view (mgr_db m)) q"
  shows "\<exists>tags m'. consume_stream S B L F
      (Inbound \<lparr>sa_delivery_tag = None, sa_nack_delivery_tag = None, sa_queue = Some q\<rparr> # replicate n (Tick True))
      stream_start (solo m) =
      (Ok \<lparr>st_queue = Some q, st_sent = map (\<lambda>(t, msg). Inr (consumed_of L (DeliveryTag t, msg))) (zip tags (ready a)),
        st_running = True\<rparr>, solo m') \<and>
    length tags = length (ready a) \<and> distinct tags \<and> (\<forall>t \<in> set tags. flight a t = None) \<and>
    flight (queue_of B (view (mgr_db m')) q) = (flight a)(tags [\<mapsto>] ready a) \<and>
    ready (queue_of B (view (mgr_db m')) q) = []"
proof -
  let ?st = "\<lparr>st_queue = Some q, st_sent = [], st_running = True\<rparr>"
  have d: "(\<lambda>(t, msg). Inr (consumed_of L (DeliveryTag t, msg))) = delivers L" by (auto simp: delivers_def fun_eq_iff)
  have "consume_stream S B L F
      (Inbound \<lparr>sa_delivery_tag = None, sa_nack_delivery_tag = None, sa_queue = Some q\<rparr> # replicate n (Tick True)) stream_start (solo m) =
    consume_stream S B L F (replicate n (Tick True)) ?st (solo m)"
    using assms(4) by (simp add: stream_inbound_def stream_start_def bnd_def ret_def)
  with engine.stream_ticks [OF assms(1) _ assms(2,3,5), of ?st L F] show ?thesis by (simp add: d a_def)
qed

theorem stream_delivers_witness:
  "\<exists>tags m'. consume_stream mem_sled ref_bincode ref_libs (single_node (\<lambda>_ _. 1000))
      (Inbound \<lparr>sa_delivery_tag = None, sa_nack_delivery_tag = None, sa_queue = Some ''q''\<rparr> # replicate 1 (Tick True))
      stream_start (solo demo_published) =
      (Ok \<lparr>st_queue = Some ''q'', st_sent = map (\<lambda>(t, msg). Inr (consumed_of ref_libs (DeliveryTag t, msg))) (zip tags [demo_msg]),
        st_running = True\<rparr>, solo m') \<and> length tags = 1"
proof -
  have r: "ready (queue_of ref_bincode (mem_view (mgr_db demo_published)) ''q'') = [demo_msg]" by code_simp
  have "''q'' \<noteq> []" "length (ready (queue_of ref_bincode (mem_view (mgr_db demo_published)) ''q'')) \<le> 1" by (simp_all add: r)
  from stream_delivers [OF mem.engine_axioms wf_demo_published demo_q(2) this, of ref_libs "single_node (\<lambda>_ _. 1000)"]
  show ?thesis unfolding r by auto
qed



text \<open>
  C24. MQTT end to end.  On a healthy Solo daemon, for a connection subscribed to a queue with no
  delivery waiting in its channel: a poll takes the first ready message, the connection sends it as a
  PUBLISH on the queue's topic under the next packet identifier, and the client's PUBACK of that
  identifier removes exactly this message from the queue; the connection keeps no record of it.
\<close>

theorem mqtt_roundtrip:
  assumes "engine S view nxt False B" "wf_manager B view nxt m" "q \<in> declared (view (mgr_db m))"
    and "ready (queue_of B (view (mgr_db m)) q) = msg # msgs"
    and "mc_open conn" "q \<in> set (mc_subscriptions conn)" "mc_channel conn = []"
  shows "\<exists>m'. mqtt_loop S B F [EPoll q, EOutgoing True, EPacket env True (PubAck (mc_next_pkid conn))] conn (solo m) =
      (Ok (conn\<lparr>mc_next_pkid := mc_next_pkid conn + 1, mc_inflight := (mc_inflight conn)(mc_next_pkid conn := None),
         mc_written := mc_written conn @ [Publish q AtLeastOnce (mc_next_pkid conn) (payload msg)]\<rparr>), solo m') \<and>
    queue_of B (view (mgr_db m')) q = (queue_of B (view (mgr_db m)) q)\<lparr>ready := msgs\<rparr>"
proof -
  from engine.flow_consume [OF assms(1) _ assms(2-4)] obtain tag m1
    where c: "consume S B q m = (Ok (Some (tag, msg)), m1)" "wf_manager B view nxt m1" "q \<in> declared (view (mgr_db m1))"
      and fl: "flight (queue_of B (view (mgr_db m)) q) (tag_u64 tag) = None"
      and a: "queue_of B (view (mgr_db m1)) q = (queue_of B (view (mgr_db m)) q)
        \<lparr>ready := msgs, flight := (flight (queue_of B (view (mgr_db m)) q))(tag_u64 tag \<mapsto> msg)\<rparr>" by blast
  from a have "flight (queue_of B (view (mgr_db m1)) q) (tag_u64 tag) \<noteq> None" by simp
  from engine.flow_ack [OF assms(1) _ c(2,3) this] obtain m2 where k: "ack S q tag m1 = (Ok (), m2)"
    "queue_of B (view (mgr_db m2)) q = (queue_of B (view (mgr_db m1)) q)
       \<lparr>flight := (flight (queue_of B (view (mgr_db m1)) q))(tag_u64 tag := None)\<rparr>" by blast
  have "mqtt_loop S B F [EPoll q, EOutgoing True, EPacket env True (PubAck (mc_next_pkid conn))] conn (solo m) =
      (Ok (conn\<lparr>mc_next_pkid := mc_next_pkid conn + 1, mc_inflight := (mc_inflight conn)(mc_next_pkid conn := None),
         mc_written := mc_written conn @ [Publish q AtLeastOnce (mc_next_pkid conn) (payload msg)]\<rparr>), solo m2)"
    using assms(5-7)
    by (cases conn)
      (simp add: subscription_poll_def send_outgoing_def handle_client_packet_def mqtt_send_def mqtt_consume_one_def ack_message_def
        bnd_def ret_def Let_def dispatch_solo(1) [where c = "consume S B q", OF c(1)] dispatch_solo(1) [where c = "ack S q tag", OF k(1)])
  moreover have "queue_of B (view (mgr_db m2)) q = (queue_of B (view (mgr_db m)) q)\<lparr>ready := msgs\<rparr>"
    using k(2) a fl by (auto simp: fun_upd_idem)
  ultimately show ?thesis by blast
qed

theorem mqtt_roundtrip_witness:
  "\<exists>conn m'. mqtt_loop mem_sled ref_bincode (single_node (\<lambda>_ _. 1000))
      [EPoll ''q'', EOutgoing True, EPacket demo_mqtt_env True (PubAck 1)] (mqtt_accepted\<lparr>mc_subscriptions := [''q'']\<rparr>) (solo demo_published) =
      (Ok conn, solo m') \<and> mc_written conn = [ConnAck, Publish ''q'' AtLeastOnce 1 ''hi''] \<and>
    queue_of ref_bincode (mem_view (mgr_db m')) ''q'' =
      (queue_of ref_bincode (mem_view (mgr_db demo_published)) ''q'')\<lparr>ready := []\<rparr>"
proof -
  let ?conn = "mqtt_accepted\<lparr>mc_subscriptions := [''q'']\<rparr>"
  have r: "ready (queue_of ref_bincode (mem_view (mgr_db demo_published)) ''q'') = [demo_msg]" by code_simp
  have "mc_open ?conn" "''q'' \<in> set (mc_subscriptions ?conn)" "mc_channel ?conn = []" by (simp_all add: mqtt_accepted_def)
  from mqtt_roundtrip [OF mem.engine_axioms wf_demo_published demo_q(2) r this, of "single_node (\<lambda>_ _. 1000)" demo_mqtt_env]
  obtain m' where "mqtt_loop mem_sled ref_bincode (single_node (\<lambda>_ _. 1000))
        [EPoll ''q'', EOutgoing True, EPacket demo_mqtt_env True (PubAck (mc_next_pkid ?conn))] ?conn (solo demo_published) =
      (Ok (?conn\<lparr>mc_next_pkid := mc_next_pkid ?conn + 1, mc_inflight := (mc_inflight ?conn)(mc_next_pkid ?conn := None),
         mc_written := mc_written ?conn @ [Publish ''q'' AtLeastOnce (mc_next_pkid ?conn) (payload demo_msg)]\<rparr>), solo m')"
    "queue_of ref_bincode (mem_view (mgr_db m')) ''q'' =
      (queue_of ref_bincode (mem_view (mgr_db demo_published)) ''q'')\<lparr>ready := []\<rparr>" by blast
  moreover have "payload demo_msg = ''hi''" "mc_next_pkid ?conn = 1" "mc_written ?conn = [ConnAck]"
    by (simp_all add: demo_msg_def with_dedup_key_def with_priority_def Message_new_def mqtt_accepted_def)
  ultimately show ?thesis by (intro exI conjI) (auto simp: mqtt_accepted_def simp del: mqtt_loop.simps)
qed

text \<open>
  C37. MQTT acknowledges messages it did not store.  On a healthy Solo daemon whose byte budget refuses
  the message, a PUBLISH with quality of service 1 to a declared queue is answered with the PUBACK of a
  successful one, and the queue is unchanged: the client takes the message for delivered, and it is
  lost.
\<close>

theorem mqtt_puback_without_store:
  assumes "engine S view nxt False B" "wf_manager B view nxt m" "q \<in> declared (view (mgr_db m))" "nxt (mgr_db m) < 2 ^ 64"
    and "ser_message B (mqtt_message (env_uuid env) (env_secs env) pl) = Inr b"
    and "storage_limit (max_bytes m) (current_bytes m) (of_nat (length b)) = Some e"
  shows "\<exists>m'. handle_client_packet S B F env True (Publish q AtLeastOnce pkid pl) conn (solo m) =
      (Ok (True, conn\<lparr>mc_written := mc_written conn @ [PubAck pkid]\<rparr>), solo m') \<and>
    queue_of B (view (mgr_db m')) q = queue_of B (view (mgr_db m)) q"
proof -
  let ?msg = "mqtt_message (env_uuid env) (env_secs env) pl"
  have wf: "wf_state B (abs_state view nxt m)" using assms(2) engine.wf_manager_state [OF assms(1)] by blast
  obtain r1 m1 where d: "declare_queue S B q m = (r1, m1)" by force
  have "declare_spec False B q RetentionPolicy_default (abs_state view nxt m) r1 (abs_state view nxt m1)"
    using wpD [OF engine.declare_refines [OF assms(1)] d [unfolded declare_queue_def]] .
  then have r1: "r1 = Err (QueueAlreadyExists q)" and m1: "abs_state view nxt m1 = abs_state view nxt m"
    using assms(3) by (cases r1; auto simp: declare_spec_def Let_def split: pelican_error.splits)+
  obtain r2 m2 where p: "publish S B (env_clk env) q ?msg m1 = (r2, m2)" by force
  have sp: "publish_spec False B (env_clk env) q ?msg (abs_state view nxt m) r2 (abs_state view nxt m2)"
    using wpD [OF engine.publish_refines [OF assms(1)] p] by (simp add: m1)
  have q: "q \<in> declared (cont (abs_state view nxt m))" "next_id (abs_state view nxt m) < 2 ^ 64" using assms(3,4) by simp_all
  have r2: "r2 = Err e" and m2: "abs_state view nxt m2 = abs_state view nxt m"
    using publish_outcome [OF sp wf q assms(5)] assms(6) by (simp_all add: aq_duplicate_def mqtt_message_def split: option.splits)
  have "handle_client_packet S B F env True (Publish q AtLeastOnce pkid pl) conn (solo m) =
      (Ok (True, conn\<lparr>mc_written := mc_written conn @ [PubAck pkid]\<rparr>), solo m2)"
    using d p
    by (simp add: r1 r2 handle_client_packet_def mqtt_declare_queue_def publish_message_def bnd_def ret_def Let_def mqtt_send_def
        dispatch_solo(1) [of "declare_queue S B q" m r1 m1] dispatch_solo(1) [of "publish S B (env_clk env) q ?msg" m1 r2 m2])
  then show ?thesis using m2 by (auto simp: abs_state_eq)
qed

theorem mqtt_puback_without_store_witness:
  "\<exists>m'. handle_client_packet mem_sled ref_bincode (single_node (\<lambda>_ _. 1000)) demo_mqtt_env True
      (Publish ''q'' AtLeastOnce 3 ''hi'') mqtt_accepted (solo demo_full) =
      (Ok (True, mqtt_accepted\<lparr>mc_written := [ConnAck, PubAck 3]\<rparr>), solo m') \<and>
    ready (queue_of ref_bincode (mem_view (mgr_db m')) ''q'') = []"
proof -
  let ?b = "enc_message (mqtt_message (env_uuid demo_mqtt_env) (env_secs demo_mqtt_env) ''hi'')"
  have m: "wf_manager ref_bincode mem_view mem_next demo_full" "''q'' \<in> declared (mem_view (mgr_db demo_full))"
    "mem_next (mgr_db demo_full) < 2 ^ 64" "ready (queue_of ref_bincode (mem_view (mgr_db demo_full)) ''q'') = []"
    using demo_solo_facts by (simp_all add: demo_full_def demo_solo_def wf_manager_def)
  have s: "ser_message ref_bincode (mqtt_message (env_uuid demo_mqtt_env) (env_secs demo_mqtt_env) ''hi'') = Inr ?b"
    by (simp add: ref_bincode_def encode_all_def)
  have "storage_limit (max_bytes demo_full) (current_bytes demo_full) (of_nat (length ?b)) \<noteq> None" by code_simp
  then obtain e where "storage_limit (max_bytes demo_full) (current_bytes demo_full) (of_nat (length ?b)) = Some e" by blast
  from mqtt_puback_without_store [OF mem.engine_axioms m(1-3) s this, of "single_node (\<lambda>_ _. 1000)" 3 mqtt_accepted] m(4)
  show ?thesis by (auto simp: mqtt_accepted_def)
qed

text \<open>
  C38. A queue name can bring the daemon down.  On a healthy Solo daemon with a message of some queue
  \<open>q\<close> in flight, a client may declare a queue named \<^verbatim>\<open>inflight:q\<close>: the request succeeds, although the tree
  of that name is the in-flight tree of \<open>q\<close>.  Consuming from the new queue panics while the lock is held
  (the keys are shorter than the slice), the mutex is poisoned, and every later declare, list,
  consume or ack request panics, whatever queue it names.
\<close>

theorem name_collision_poisons:
  assumes "engine S view nxt False B" "wf_manager B view nxt m" "q \<in> declared (view (mgr_db m))"
    and "flight (queue_of B (view (mgr_db m)) q) t \<noteq> None"
  shows "\<exists>m1 mx. api_declare_queue S B L F (''inflight:'' @ q) (solo m) = (Ok (respond 201 JNull), solo m1) \<and>
    api_consume S B L F (''inflight:'' @ q) (solo m1) = (Panic, Solo mx) \<and>
    (\<forall>name. api_declare_queue S B L F name (Solo mx) = (Panic, Solo mx)) \<and>
    (\<forall>name. api_consume S B L F name (Solo mx) = (Panic, Solo mx)) \<and>
    (\<forall>name req. api_ack S L F name req (Solo mx) = (Panic, Solo mx)) \<and>
    api_list_queues S F (Solo mx) = (Panic, Solo mx)"
proof -
  let ?q = "inflight_tree_name q" and ?s = "abs_state view nxt m"
  have name: "''inflight:'' @ q = ?q" by (simp add: inflight_tree_name_def)
  have wf: "wf_state B ?s" using assms(2) engine.wf_manager_state [OF assms(1)] by blast
  have q: "q \<in> declared (cont ?s)" using assms(3) by simp
  have fresh: "?q \<notin> declared (view (mgr_db m))"
    using wf_state_queue(1) [OF wf, of ?q] by auto
  obtain k v rest where head: "view (mgr_db m) ?q = (k, v) # rest"
    using assms(4) by (cases "view (mgr_db m) ?q") (auto simp: queue_of_def)
  have "inflight_entry B (next_id ?s) (k, v)" using wf_state_queue(2) [OF wf q] head by (simp add: wf_lists_def)
  then obtain i :: u64 where "k = to_be_bytes i" by (auto elim: inflight_entryE)
  then have short: "length k < 9" by simp
  obtain r m1 where d: "declare_queue S B ?q m = (r, m1)" by force
  have sp: "declare_spec False B ?q RetentionPolicy_default ?s r (abs_state view nxt m1)"
    using wpD [OF engine.declare_refines [OF assms(1)] d [unfolded declare_queue_def]] .
  then have r: "r = Ok ()"
    using fresh by (cases r) (auto simp: declare_spec_def Let_def split: pelican_error.splits)
  have "abs_state view nxt m1 = ?s\<lparr>cont := (view (mgr_db m))
      (META_QUEUES_TREE := ot_insert ?q [] (view (mgr_db m) META_QUEUES_TREE),
       META_RETENTION_TREE := ot_insert ?q (projr (ser_policy B RetentionPolicy_default)) (view (mgr_db m) META_RETENTION_TREE))\<rparr>"
    using sp by (simp add: r declare_spec_def Let_def)
  from arg_cong [OF this, of cont] have "view (mgr_db m1) = (view (mgr_db m))
      (META_QUEUES_TREE := ot_insert ?q [] (view (mgr_db m) META_QUEUES_TREE),
       META_RETENTION_TREE := ot_insert ?q (projr (ser_policy B RetentionPolicy_default)) (view (mgr_db m) META_RETENTION_TREE))"
    by simp
  moreover have "?q \<noteq> META_QUEUES_TREE" "?q \<noteq> META_RETENTION_TREE" "META_QUEUES_TREE \<noteq> META_RETENTION_TREE"
    by simp_all
  ultimately have m1: "?q \<in> declared (view (mgr_db m1))" "view (mgr_db m1) ?q = (k, v) # rest"
    using head by (simp_all add: declared_def)
  obtain m2 where c: "consume S B ?q m1 = (Panic, m2)"
    using engine.consume_short_key [OF assms(1) _ m1 short] by (auto simp: wp_def split: prod.splits)
  have "api_declare_queue S B L F ?q (solo m) = (Ok (respond 201 JNull), solo m1)"
    using d by (simp add: r api_declare_queue_def dispatch_solo(1) [where c = "declare_queue S B ?q"] unit_reply_def)
  moreover have "api_consume S B L F ?q (solo m1) = (Panic, Solo \<lparr>guarded = m2, poisoned = True\<rparr>)"
    by (simp add: api_consume_def dispatch_def lock_run_def c)
  ultimately show ?thesis
    unfolding name by (intro exI [of _ m1] exI [of _ "\<lparr>guarded = m2, poisoned = True\<rparr>"])
      (simp add: poisoned_panics api_declare_queue_def api_consume_def api_ack_def api_list_queues_def)
qed

theorem name_collision_poisons_witness:
  "\<exists>m1 mx. api_declare_queue mem_sled ref_bincode ref_libs (single_node (\<lambda>_ _. 1000)) ''inflight:q'' (solo demo_consumed) =
      (Ok (respond 201 JNull), solo m1) \<and>
    api_consume mem_sled ref_bincode ref_libs (single_node (\<lambda>_ _. 1000)) ''inflight:q'' (solo m1) = (Panic, Solo mx) \<and>
    api_list_queues mem_sled (single_node (\<lambda>_ _. 1000)) (Solo mx) = (Panic, Solo mx)"
proof -
  have wf: "wf_manager ref_bincode mem_view mem_next demo_consumed"
    using engine_facts(1) [OF mem.engine_axioms [where f = False] demo_reach(3)]
    by (simp add: wf_state_def wf_manager_def abs_state_def)
  have "flight (queue_of ref_bincode (mem_view (mgr_db demo_consumed)) ''q'') 0 \<noteq> None" by code_simp
  from name_collision_poisons [OF mem.engine_axioms wf demo_q(3) this, of ref_libs "single_node (\<lambda>_ _. 1000)"]
  show ?thesis unfolding append_Cons append_Nil by blast
qed

end
