(* ===== verification/Daemon_Runs.thy ===== *)
theory Daemon_Runs
  imports Daemon_Flow Queue_Ledger
begin

text \<open>
  The Solo daemon as a whole: HTTP requests, gRPC calls, consume streams and MQTT connections
  interleave over one queue manager, and the process restarts.  Each handler is a
  sequence of engine calls (\<^verbatim>\<open>logs\<close>), so every state of the daemon has an engine
  history that contains each publish a reply confirmed, and only acknowledgements a client sent.
  A step is a whole handler or event: where one takes the mutex several times (an MQTT publish declares and
  then publishes, a subscription declares each topic) the steps of others between two of its locks are not covered.
\<close>

section \<open>What clients are told and what they ask for\<close>

text \<open>The messages a reply confirms as stored, and the deliveries a request acknowledges.\<close>

definition http_confirms ::
    "libs \<Rightarrow> bool \<Rightarrow> uuid \<Rightarrow> i64 \<Rightarrow> http_request \<Rightarrow> (unit, http_response) outcome \<Rightarrow> (string \<times> message) set" where
  "http_confirms L has_cluster new_id now_ms req r =
     (case (build_router has_cluster (req_method req) (req_path req), publish_body req, r) of
        (Inr (RPublish name), Inr body, Ok resp) \<Rightarrow>
          (case b64_decode L (payload_base64 body) of
             Inr bs \<Rightarrow> if http_status resp = 201 then {(name, Message_new new_id now_ms bs (req_headers body))} else {}
           | Inl _ \<Rightarrow> {})
      | _ \<Rightarrow> {})"

definition http_acks :: "bool \<Rightarrow> http_request \<Rightarrow> (string \<times> delivery_tag) set" where
  "http_acks has_cluster req =
     (case (build_router has_cluster (req_method req) (req_path req), ack_body req) of
        (Inr (RAck name), Inr body) \<Rightarrow> {(name, req_tag body)}
      | _ \<Rightarrow> {})"

fun grpc_confirms :: "libs \<Rightarrow> (nat \<Rightarrow> uuid) \<Rightarrow> grpc_request \<Rightarrow> (status, grpc_reply) outcome \<Rightarrow> (string \<times> message) set" where
  "grpc_confirms L new_ids (GPublish q (Some pm)) (Ok (PublishResponse resp)) =
     (if pr_deduplicated resp then {} else {(q, proto_message_to_core L (new_ids 0) pm)})"
| "grpc_confirms L new_ids (GPublishBatch q msgs) (Ok (PublishBatchResponse resps)) =
     {(q, proto_message_to_core L (new_ids i) (msgs ! i)) | i. i < length msgs \<and> \<not> pr_deduplicated (resps ! i)}"
| "grpc_confirms L new_ids _ _ = {}"

fun grpc_acks :: "grpc_request \<Rightarrow> (string \<times> delivery_tag) set" where
  "grpc_acks (GAck q t) = {(q, DeliveryTag t)}"
| "grpc_acks _ = {}"

fun stream_acks :: "stream_state \<Rightarrow> stream_event \<Rightarrow> (string \<times> delivery_tag) set" where
  "stream_acks st (Inbound a) =
     (case (st_queue st, sa_delivery_tag a) of (Some q, Some t) \<Rightarrow> {(q, DeliveryTag t)} | _ \<Rightarrow> {})"
| "stream_acks st _ = {}"

fun mqtt_acks :: "mqtt_conn \<Rightarrow> mqtt_event \<Rightarrow> (string \<times> delivery_tag) set" where
  "mqtt_acks conn (EPacket env ok (PubAck pkid)) = set_option (mc_inflight conn pkid)"
| "mqtt_acks conn _ = {}"

section \<open>The daemon\<close>

record ('db, 'w) daemon =
  d_engine :: "('db, 'w) app_engine"
  d_streams :: "nat \<Rightarrow> stream_state option"
  d_conns :: "nat \<Rightarrow> mqtt_conn option"

definition daemon_start :: "'db manager \<Rightarrow> ('db, 'w) daemon" where
  "daemon_start m = \<lparr>d_engine = solo m, d_streams = Map.empty, d_conns = Map.empty\<rparr>"

text \<open>A restart: the process exits when opening the database fails and is started again until it succeeds.\<close>

inductive reopens :: "'db sled \<Rightarrow> bincode \<Rightarrow> 'db manager \<Rightarrow> 'db manager \<Rightarrow> bool" for S B where
  reopen_ok: "open_manager S B (Inr (mgr_db m)) mx = (Ok (), Some m') \<Longrightarrow> reopens S B m m'"
| reopen_fails: "open_manager S B (Inr (mgr_db m)) mx = (Err e, Some m1) \<Longrightarrow> reopens S B m1 m' \<Longrightarrow> reopens S B m m'"

definition stream_next :: "('e, stream_state) outcome \<Rightarrow> stream_state option" where
  "stream_next r = (case r of Ok st \<Rightarrow> if st_running st then Some st else None | _ \<Rightarrow> None)"

definition conn_next :: "('e, mqtt_conn) outcome \<Rightarrow> mqtt_conn option" where
  "conn_next r = (case r of Ok conn \<Rightarrow> if mc_open conn then Some conn else None | _ \<Rightarrow> None)"

text \<open>
  One step of the daemon, with the messages its reply confirms and the deliveries the client acknowledges: a
  request, one event of a stream or connection, the start of one, or a restart of the process.
\<close>

inductive daemon_step ::
    "'db sled \<Rightarrow> bincode \<Rightarrow> libs \<Rightarrow> ('w, 'db) flock \<Rightarrow> cluster_config option \<Rightarrow> ('db, 'w) daemon \<Rightarrow>
       (string \<times> message) set \<Rightarrow> (string \<times> delivery_tag) set \<Rightarrow> ('db, 'w) daemon \<Rightarrow> bool"
  for S B L F cluster d where
  step_http: "regular_request (cluster \<noteq> None) req \<Longrightarrow> 0 \<le> sint (clk 1) \<Longrightarrow>
    http_serve S B L F cluster new_id now_ms clk req (d_engine d) = (r, eng) \<Longrightarrow>
    daemon_step S B L F cluster d (http_confirms L (cluster \<noteq> None) new_id now_ms req r)
      (http_acks (cluster \<noteq> None) req) (d\<lparr>d_engine := eng\<rparr>)"
| step_grpc: "regular_grpc clk2 greq \<Longrightarrow> grpc_serve S B L F new_ids clk2 greq (d_engine d) = (gr, eng) \<Longrightarrow>
    daemon_step S B L F cluster d (grpc_confirms L new_ids greq gr) (grpc_acks greq) (d\<lparr>d_engine := eng\<rparr>)"
| step_stream_open: "d_streams d i = None \<Longrightarrow>
    daemon_step S B L F cluster d {} {} (d\<lparr>d_streams := (d_streams d)(i \<mapsto> stream_start)\<rparr>)"
| step_stream: "d_streams d i = Some st \<Longrightarrow> stream_step S B L F ev st (d_engine d) = (sr, eng) \<Longrightarrow>
    daemon_step S B L F cluster d {} (stream_acks st ev)
      (d\<lparr>d_engine := eng, d_streams := (d_streams d)(i := stream_next sr)\<rparr>)"
| step_mqtt_open: "d_conns d i = None \<Longrightarrow>
    daemon_step S B L F cluster d {} {} (d\<lparr>d_conns := (d_conns d)(i \<mapsto> mqtt_accepted)\<rparr>)"
| step_mqtt: "d_conns d i = Some conn \<Longrightarrow> regular_event mev \<Longrightarrow>
    mqtt_step S B F mev conn (d_engine d) = (mr, eng) \<Longrightarrow>
    daemon_step S B L F cluster d {} (mqtt_acks conn mev)
      (d\<lparr>d_engine := eng, d_conns := (d_conns d)(i := conn_next mr)\<rparr>)"
| step_restart: "d_engine d = Solo mx \<Longrightarrow> reopens S B (guarded mx) m' \<Longrightarrow>
    daemon_step S B L F cluster d {} {} (daemon_start m')"

text \<open>
  \<open>daemon_run S B L F cluster view C A d\<close>: the daemon has come to state \<open>d\<close> from an empty database,
  its replies confirmed the messages \<open>C\<close> and clients acknowledged the deliveries \<open>A\<close>.
\<close>

inductive daemon_run ::
    "'db sled \<Rightarrow> bincode \<Rightarrow> libs \<Rightarrow> ('w, 'db) flock \<Rightarrow> cluster_config option \<Rightarrow> ('db \<Rightarrow> contents) \<Rightarrow>
       (string \<times> message) set \<Rightarrow> (string \<times> delivery_tag) set \<Rightarrow> ('db, 'w) daemon \<Rightarrow> bool"
  for S B L F cluster view where
  daemon_boot: "\<forall>t. view (mgr_db m) t = [] \<Longrightarrow> reopens S B m m' \<Longrightarrow>
    daemon_run S B L F cluster view {} {} (daemon_start m')"
| daemon_next: "daemon_run S B L F cluster view C A d \<Longrightarrow> daemon_step S B L F cluster d C' A' d' \<Longrightarrow>
    daemon_run S B L F cluster view (C \<union> C') (A \<union> A') d'"

section \<open>What a handler does to the engine\<close>

definition within :: "(string \<times> delivery_tag) set \<Rightarrow> event list \<Rightarrow> bool" where
  "within A es \<longleftrightarrow> (\<forall>q t. Acked q t \<in> set es \<longrightarrow> (q, t) \<in> A) \<and> (\<forall>q. Swept q \<notin> set es \<and> Promoted q \<notin> set es)"

definition stores :: "(string \<times> message) set \<Rightarrow> event list \<Rightarrow> bool" where
  "stores C es \<longleftrightarrow> (\<forall>q msg. (q, msg) \<in> C \<longrightarrow> Published q msg True \<in> set es)"

text \<open>Every outcome \<open>r\<close> comes from a run that acknowledges only \<open>A\<close> and stores all of \<open>C r\<close>.\<close>

definition logs_prog ::
    "'db sled \<Rightarrow> bincode \<Rightarrow> (string \<times> delivery_tag) set \<Rightarrow>
       ((pelican_error, 'a) outcome \<Rightarrow> (string \<times> message) set) \<Rightarrow> ('db, 'a) mprog \<Rightarrow> bool" where
  "logs_prog S B A C c \<longleftrightarrow> (\<forall>m r m'. c m = (r, m') \<longrightarrow> (\<exists>es. run S B m es m' \<and> within A es \<and> stores (C r) es))"

definition logs ::
    "'db sled \<Rightarrow> bincode \<Rightarrow> (string \<times> delivery_tag) set \<Rightarrow>
       (('e, 'r) outcome \<Rightarrow> (string \<times> message) set) \<Rightarrow> ('db, 'w, 'e, 'r) handler \<Rightarrow> bool" where
  "logs S B A C h \<longleftrightarrow>
     (\<forall>mx r eng. h (Solo mx) = (r, eng) \<longrightarrow>
        (\<exists>mx' es. eng = Solo mx' \<and> run S B (guarded mx) es (guarded mx') \<and> within A es \<and> stores (C r) es))"

text \<open>
  The invariant of the daemon: the mutex is not poisoned; the manager has a history that contains what
  was confirmed, acknowledges only what clients acknowledged and sweeps nothing; and the packet
  identifiers of every MQTT connection are in order.
\<close>

definition daemon_ok ::
    "'db sled \<Rightarrow> bincode \<Rightarrow> ('db \<Rightarrow> contents) \<Rightarrow>
       (string \<times> message) set \<Rightarrow> (string \<times> delivery_tag) set \<Rightarrow> ('db, 'w) daemon \<Rightarrow> bool" where
  "daemon_ok S B view C A d \<longleftrightarrow>
     (\<exists>m h. d_engine d = solo m \<and> history S B view h m \<and>
        within A h \<and> stores C h) \<and>
     (\<forall>i conn. d_conns d i = Some conn \<longrightarrow> pkids_ok conn \<and> mc_open conn)"

section \<open>Handlers are sequences of engine calls\<close>

lemma within_append [simp]: "within A [] \<and> (within A (es @ es') \<longleftrightarrow> within A es \<and> within A es')"
  by (auto simp: within_def)

lemma within_mono: "within A es \<Longrightarrow> A \<subseteq> A' \<Longrightarrow> within A' es"
  by (auto simp: within_def)

lemma stores_append: "stores C es \<or> stores C es' \<Longrightarrow> stores C (es @ es')"
  by (auto simp: stores_def)

lemma stores_empty [simp]: "stores {} es"
  by (simp add: stores_def)

lemma stores_mono: "stores C es \<Longrightarrow> C' \<subseteq> C \<Longrightarrow> stores C' es"
  by (auto simp: stores_def)

lemma logs_prog_ret [simp]: "logs_prog S B A (\<lambda>_. {}) (ret x)" "logs_prog S B A (\<lambda>_. {}) (throw e)"
  by (auto simp: logs_prog_def ret_def throw_def intro: run_start)

lemma logs_prog_bnd:
  assumes "logs_prog S B A (\<lambda>_. {}) c" "\<And>x. logs_prog S B A (\<lambda>_. {}) (f x)"
  shows "logs_prog S B A (\<lambda>_. {}) (bnd c f)"
  unfolding logs_prog_def
proof (intro allI impI)
  fix m r m' assume run: "bnd c f m = (r, m')"
  obtain r1 m1 where c: "c m = (r1, m1)" by force
  from assms(1) c obtain es where es: "run S B m es m1" "within A es" unfolding logs_prog_def by blast
  show "\<exists>es. run S B m es m' \<and> within A es \<and> stores {} es"
  proof (cases r1)
    case (Ok x)
    with run c have "f x m1 = (r, m')" by (simp add: bnd_def)
    with assms(2) obtain es' where "run S B m1 es' m'" "within A es'" unfolding logs_prog_def by blast
    with es run_trans show ?thesis by (metis stores_empty within_append)
  qed (use run c es in \<open>auto simp: bnd_def\<close>)
qed

lemma logs_prog_attempt: "logs_prog S B A (\<lambda>_. {}) c \<Longrightarrow> logs_prog S B A (\<lambda>_. {}) (attempt c)"
  unfolding logs_prog_def attempt_def by (fastforce split: prod.splits outcome.splits)

lemma logs_ret [simp]: "logs S B A (\<lambda>_. {}) (ret x)" "logs S B A (\<lambda>_. {}) (throw e)"
  by (auto simp: logs_def ret_def throw_def intro: run_start)

lemma logs_weaken: "logs S B A C h \<Longrightarrow> A \<subseteq> A' \<Longrightarrow> (\<And>r. C' r \<subseteq> C r) \<Longrightarrow> logs S B A' C' h"
  unfolding logs_def by (meson within_mono stores_mono)

lemma logs_bnd:
  assumes "logs S B A (\<lambda>_. {}) h" "\<And>x. logs S B A (\<lambda>_. {}) (k x)"
  shows "logs S B A (\<lambda>_. {}) (bnd h k)"
  unfolding logs_def
proof (intro allI impI)
  fix mx r eng assume run: "bnd h k (Solo mx) = (r, eng)"
  obtain r1 eng1 where h: "h (Solo mx) = (r1, eng1)" by force
  from assms(1) h obtain mx1 es where es: "eng1 = Solo mx1" "run S B (guarded mx) es (guarded mx1)" "within A es"
    unfolding logs_def by blast
  show "\<exists>mx' es. eng = Solo mx' \<and> run S B (guarded mx) es (guarded mx') \<and> within A es \<and> stores {} es"
  proof (cases r1)
    case (Ok x)
    with run h es(1) have "k x (Solo mx1) = (r, eng)" by (simp add: bnd_def)
    with assms(2) obtain mx' es' where "eng = Solo mx'" "run S B (guarded mx1) es' (guarded mx')" "within A es'"
      unfolding logs_def by blast
    with es run_trans show ?thesis by (metis stores_empty within_append)
  qed (use run h es in \<open>auto simp: bnd_def\<close>)
qed

lemma logs_map:
  assumes "logs S B A C h" "\<And>x. C' (Ok (g x)) \<subseteq> C (Ok x)" "\<And>e. C' (Err e) = {}" "C' Panic = {}" "C' Diverge = {}"
  shows "logs S B A C' (bnd h (\<lambda>x. ret (g x)))"
  unfolding logs_def
proof (intro allI impI)
  fix mx r eng assume run: "bnd h (\<lambda>x. ret (g x)) (Solo mx) = (r, eng)"
  obtain r1 eng1 where h: "h (Solo mx) = (r1, eng1)" by force
  from assms(1) h obtain mx1 es where es: "eng1 = Solo mx1" "run S B (guarded mx) es (guarded mx1)" "within A es" "stores (C r1) es"
    unfolding logs_def by blast
  then show "\<exists>mx' es. eng = Solo mx' \<and> run S B (guarded mx) es (guarded mx') \<and> within A es \<and> stores (C' r) es"
    using run h assms(3-) stores_mono [OF _ assms(2), of _ es]
    by (cases r1) (auto simp: bnd_def ret_def intro!: exI [of _ es])
qed

lemma logs_attempt: "logs S B A (\<lambda>_. {}) h \<Longrightarrow> logs S B A (\<lambda>_. {}) (attempt h)"
  unfolding logs_def attempt_def by (fastforce split: prod.splits outcome.splits)

text \<open>A handler confirms only what its program stored.\<close>

lemma logs_dispatch:
  assumes c: "logs_prog S B A C0 c" and r: "\<And>a. C (f (Inr a)) \<subseteq> C0 (Ok a)" "\<And>e. C (f (Inl e)) \<subseteq> C0 (Err e)"
    and p: "C Panic = {}" "C Diverge = {}"
  shows "logs S B A C (dispatch F c f op g)" and "logs S B A C (dispatch_read F c f)"
proof -
  have "\<exists>mx' es. eng = Solo mx' \<and> run S B (guarded mx) es (guarded mx') \<and> within A es \<and> stores (C x) es"
    if "and_then (lock_run c mx) Solo f = (x, eng)" for mx x eng
  proof (cases "poisoned mx")
    case True
    with that p show ?thesis by (auto simp: lock_run_def intro!: exI [of _ mx] exI [of _ "[]"] run_start)
  next
    case False
    obtain r1 m1 where run: "c (guarded mx) = (r1, m1)" by force
    from c run obtain es where es: "run S B (guarded mx) es m1" "within A es" "stores (C0 r1) es"
      unfolding logs_prog_def by blast
    then show ?thesis using that run False p stores_mono [OF _ r(1), of _ es] stores_mono [OF _ r(2), of _ es]
      by (cases r1) (auto simp: lock_run_def intro!: exI [of _ es])
  qed
  then show "logs S B A C (dispatch F c f op g)" "logs S B A C (dispatch_read F c f)"
    unfolding logs_def dispatch_def dispatch_read_def by (simp_all, blast+)
qed

section \<open>The engine operations and the handlers\<close>

lemma discard_run: "c m = (r, m') \<Longrightarrow> \<exists>r'. discard c m = (r', m')"
  by (cases r) (simp_all add: discard_def bnd_def ret_def)

lemma within_simps [simp]:
  "within A [Published q msg ok]" "within A (delivery q r)" "within A (on_success u (Nacked q t))"
  "(q, t) \<in> A \<Longrightarrow> within A (on_success u (Acked q t))"
proof -
  show "within A (delivery q r)" by (cases "(q, r)" rule: delivery.cases) (simp_all add: within_def)
qed (simp_all add: within_def on_success_def)

lemma ops_log:
  shows "plain_name q \<Longrightarrow> utf8_ok q \<Longrightarrow> logs_prog S B A (\<lambda>_. {}) (declare_queue_with_retention S B q P)"
    and "plain_name q \<Longrightarrow> utf8_ok q \<Longrightarrow> logs_prog S B A (\<lambda>_. {}) (declare_queue S B q)"
    and "0 \<le> sint (clk 1) \<Longrightarrow> logs_prog S B A (\<lambda>r. if accepted r then {(q, msg)} else {}) (publish S B clk q msg)"
    and "logs_prog S B A (\<lambda>_. {}) (consume S B q)"
    and "(q, t) \<in> A \<Longrightarrow> logs_prog S B A (\<lambda>_. {}) (ack S q t)"
    and "logs_prog S B A (\<lambda>_. {}) (nack S B q t)"
proof -
  have d: "logs_prog S B A (\<lambda>_. {}) (declare_queue_with_retention S B q P)" if "plain_name q" "utf8_ok q" for P
    using run_declare [OF run_start that, of S B P] by (fastforce simp: logs_prog_def)
  show "plain_name q \<Longrightarrow> utf8_ok q \<Longrightarrow> logs_prog S B A (\<lambda>_. {}) (declare_queue_with_retention S B q P)" by (rule d)
  show "plain_name q \<Longrightarrow> utf8_ok q \<Longrightarrow> logs_prog S B A (\<lambda>_. {}) (declare_queue S B q)"
    unfolding declare_queue_def by (rule d)
  show "0 \<le> sint (clk 1) \<Longrightarrow> logs_prog S B A (\<lambda>r. if accepted r then {(q, msg)} else {}) (publish S B clk q msg)"
    using run_publish [OF run_start, of clk S B q msg] by (fastforce simp: logs_prog_def stores_def)
  show "logs_prog S B A (\<lambda>_. {}) (consume S B q)"
    using run_consume [OF run_start, of S B q] by (fastforce simp: logs_prog_def)
  show "(q, t) \<in> A \<Longrightarrow> logs_prog S B A (\<lambda>_. {}) (ack S q t)"
    using run_ack [OF run_start, of S q t _ _ _ B] by (fastforce simp: logs_prog_def)
  show "logs_prog S B A (\<lambda>_. {}) (nack S B q t)"
    using run_nack [OF run_start, of S B q t] by (fastforce simp: logs_prog_def)
qed

lemma query_logs: "(\<And>m r m'. c m = (r, m') \<Longrightarrow> \<exists>r'. query_prog S qu m = (r', m')) \<Longrightarrow> logs_prog S B A (\<lambda>_. {}) c"
  using run_query [OF run_start, of S qu] by (fastforce simp: logs_prog_def)

lemma reads_log:
  "logs_prog S B A (\<lambda>_. {}) (depth S q)" "logs_prog S B A (\<lambda>_. {}) (scheduled_depth S q)" "logs_prog S B A (\<lambda>_. {}) (list_queues S)"
  by (rule query_logs [of _ S "QDepth q"], simp add: discard_run,
      rule query_logs [of _ S "QScheduled q"], simp add: discard_run,
      rule query_logs [of _ S QList], simp add: discard_run)

lemma lists_log:
  "logs_prog S B A (\<lambda>_. {}) (queue_entries S names)" "logs_prog S B A (\<lambda>_. {}) (queue_infos S names)"
  by (induction names) (auto intro!: logs_prog_bnd logs_prog_attempt reads_log)

lemma consume_loop_logs: "logs_prog S B A (\<lambda>_. {}) (consume_loop_n S B L q rs n)"
  by (induction n arbitrary: rs) (auto intro!: logs_prog_bnd ops_log split: option.split)

lemma publish_loop_logs:
  assumes "publish_loop S B L clk q k rs msgs m = (r, m')" "\<forall>i < length msgs. 0 \<le> sint (clk (k + i) 1)"
  shows "\<exists>es. run S B m es m' \<and> within A es \<and> (\<forall>resps. r = Ok resps \<longrightarrow>
     (\<exists>ys. resps = rs @ ys \<and> length ys = length msgs \<and>
        (\<forall>i < length msgs. \<not> pr_deduplicated (ys ! i) \<longrightarrow> Published q (msgs ! i) True \<in> set es)))"
  using assms
proof (induction msgs arbitrary: k rs m)
  case Nil
  then show ?case by (auto simp: ret_def intro!: exI [of _ "[]"] run_start)
next
  case (Cons msg msgs)
  obtain p m1 where p: "publish S B (clk k) q msg m = (p, m1)" by force
  have clk: "0 \<le> sint (clk k 1)" using Cons.prems(2) [rule_format, of 0] by simp
  note first = run_publish [OF run_start [of S B m] clk p]
  show ?case
  proof (cases p)
    case (Ok out)
    then have rest: "publish_loop S B L clk q (Suc k) (rs @ [publish_response_of L out]) msgs m1 = (r, m')"
      using Cons.prems(1) by (simp add: bnd_def p)
    have "\<forall>i < length msgs. 0 \<le> sint (clk (Suc k + i) 1)" using Cons.prems(2) by auto
    from Cons.IH [OF rest this] obtain es where es: "run S B m1 es m'" "within A es"
      and ys: "\<And>resps. r = Ok resps \<Longrightarrow> \<exists>ys. resps = rs @ publish_response_of L out # ys \<and> length ys = length msgs \<and>
        (\<forall>i < length msgs. \<not> pr_deduplicated (ys ! i) \<longrightarrow> Published q (msgs ! i) True \<in> set es)" by auto
    have out: "accepted p" if "\<not> pr_deduplicated (publish_response_of L out)"
      using that by (cases out) (simp_all add: Ok publish_response_of_def)
    show ?thesis
    proof (intro exI [of _ "es @ [Published q msg (accepted p)]"] conjI allI impI)
      show "run S B m (es @ [Published q msg (accepted p)]) m'" using run_trans [OF es(1) first] by simp
      show "within A (es @ [Published q msg (accepted p)])" using es(2) by simp
      fix resps assume "r = Ok resps"
      from ys [OF this] obtain ys where ys: "resps = rs @ publish_response_of L out # ys" "length ys = length msgs"
        "\<forall>i < length msgs. \<not> pr_deduplicated (ys ! i) \<longrightarrow> Published q (msgs ! i) True \<in> set es" by blast
      have "Published q ((msg # msgs) ! i) True \<in> set (es @ [Published q msg (accepted p)])"
        if "i < length (msg # msgs)" "\<not> pr_deduplicated ((publish_response_of L out # ys) ! i)" for i
        using ys(3) out that by (cases i) auto
      with ys(1,2) show "\<exists>ys. resps = rs @ ys \<and> length ys = length (msg # msgs) \<and>
          (\<forall>i < length (msg # msgs). \<not> pr_deduplicated (ys ! i) \<longrightarrow>
             Published q ((msg # msgs) ! i) True \<in> set (es @ [Published q msg (accepted p)]))"
        by (intro exI [of _ "publish_response_of L out # ys"]) auto
    qed
  qed (use Cons.prems(1) p first in \<open>auto simp: bnd_def intro!: exI [of _ "[Published q msg (accepted p)]"]\<close>)
qed

lemma no_confirms:
  assumes "\<And>name body bs. build_router hc (req_method req) (req_path req) = Inr (RPublish name) \<Longrightarrow>
    publish_body req = Inr body \<Longrightarrow> b64_decode L (payload_base64 body) = Inr bs \<Longrightarrow> False"
  shows "http_confirms L hc new_id now_ms req = (\<lambda>_. {})"
  by (rule ext) (use assms in \<open>auto simp: http_confirms_def split: sum.splits route.splits outcome.splits\<close>)

lemma http_logs:
  assumes "regular_request (cluster \<noteq> None) req" "0 \<le> sint (clk 1)"
  shows "logs S B (http_acks (cluster \<noteq> None) req) (http_confirms L (cluster \<noteq> None) new_id now_ms req)
    (http_serve S B L F cluster new_id now_ms clk req)"
proof -
  define hc where "hc = (cluster \<noteq> None)"
  have serve: "http_serve S B L F cluster new_id now_ms clk req =
     (case build_router hc (req_method req) (req_path req) of
        Inl st \<Rightarrow> ret (empty_response st)
      | Inr RHealth \<Rightarrow> api_health
      | Inr RListQueues \<Rightarrow> api_list_queues S F
      | Inr (RDeclare name) \<Rightarrow> api_declare_queue S B L F name
      | Inr (RPublish name) \<Rightarrow> with_body (publish_body req) (api_publish S B L F new_id now_ms clk name)
      | Inr (RConsume name) \<Rightarrow> api_consume S B L F name
      | Inr (RAck name) \<Rightarrow> with_body (ack_body req) (api_ack S L F name)
      | Inr (RNack name) \<Rightarrow> with_body (ack_body req) (api_nack S B L F name)
      | Inr RClusterStatus \<Rightarrow> api_cluster_status cluster)"
    unfolding http_serve_def hc_def by (rule refl)
  note reg = assms(1) [folded hc_def]
  have "logs S B (http_acks hc req) (http_confirms L hc new_id now_ms req) (http_serve S B L F cluster new_id now_ms clk req)"
  proof (cases "\<exists>name body bs. build_router hc (req_method req) (req_path req) = Inr (RPublish name) \<and>
      publish_body req = Inr body \<and> b64_decode L (payload_base64 body) = Inr bs")
    case True
    then obtain name body bs where pub: "build_router hc (req_method req) (req_path req) = Inr (RPublish name)"
      "publish_body req = Inr body" "b64_decode L (payload_base64 body) = Inr bs" by blast
    show ?thesis
      unfolding serve pub with_body_def sum.case route.case api_publish_def Let_def
      by (rule logs_dispatch(1) [OF ops_log(3)])
        (use assms in \<open>auto simp: http_confirms_def pub publish_reply_def respond_def map_error_def Message_new_def
           split: publish_outcome.splits pelican_error.splits\<close>)
  next
    case False
    then have none: "http_confirms L hc new_id now_ms req = (\<lambda>_. {})" by (intro no_confirms) blast
    have st: "logs S B A (\<lambda>_. {}) (api_cluster_status cluster)" for A
      by (auto simp: api_cluster_status_def logs_def intro!: exI [of _ "[]"] run_start)
    show ?thesis
      unfolding none serve using False reg st
      by (auto simp: with_body_def http_acks_def regular_request_def http_defs
          intro!: logs_dispatch [where C = "\<lambda>_. {}"] ops_log(1,2,4-) logs_prog_bnd reads_log lists_log
          split: sum.split route.split)
  qed
  then show ?thesis by (simp add: hc_def)
qed

lemma batch_logs:
  assumes "\<forall>i < length msgs. 0 \<le> sint (clk i 1)"
  shows "logs_prog S B A (\<lambda>r. case r of
      Ok resps \<Rightarrow> {(q, msgs ! i) | i. i < length msgs \<and> \<not> pr_deduplicated (resps ! i)} | _ \<Rightarrow> {})
    (publish_loop S B L clk q 0 [] msgs)"
  unfolding logs_prog_def
proof (intro allI impI)
  fix m r m' assume run: "publish_loop S B L clk q 0 [] msgs m = (r, m')"
  from publish_loop_logs [OF run, of A] assms obtain es where es: "run S B m es m'" "within A es"
    "\<forall>resps. r = Ok resps \<longrightarrow> (\<forall>i < length msgs. \<not> pr_deduplicated (resps ! i) \<longrightarrow> Published q (msgs ! i) True \<in> set es)"
    by auto
  then show "\<exists>es. run S B m es m' \<and> within A es \<and> stores (case r of
      Ok resps \<Rightarrow> {(q, msgs ! i) | i. i < length msgs \<and> \<not> pr_deduplicated (resps ! i)} | _ \<Rightarrow> {}) es"
    by (cases r) (auto simp: stores_def)
qed

lemma grpc_silent: "(\<And>r. grpc_confirms L new_ids req r = {}) \<Longrightarrow> grpc_confirms L new_ids req = (\<lambda>_. {})"
  by (rule ext)

lemma grpc_logs:
  assumes "regular_grpc clk req"
  shows "logs S B (grpc_acks req) (grpc_confirms L new_ids req) (grpc_serve S B L F new_ids clk req)"
proof (cases req)
  case (GPublish q msg)
  show ?thesis
  proof (cases msg)
    case None
    then show ?thesis
      using grpc_silent [of L new_ids req] by (simp add: GPublish grpc_publish_def logs_bnd)
  next
    case (Some pm)
    let ?core = "proto_message_to_core L (new_ids 0) pm"
    let ?C = "\<lambda>r. case r of Ok resp \<Rightarrow> if pr_deduplicated resp then {} else {(q, ?core)} | _ \<Rightarrow> {}"
    have "logs S B {} ?C (grpc_publish S B L F (new_ids 0) (clk 0) q msg)"
      unfolding grpc_publish_def Some option.case Let_def
      by (rule logs_dispatch(1) [OF ops_log(3)])
        (use assms in \<open>auto simp: GPublish or_status_def publish_response_of_def split: publish_outcome.splits\<close>)
    then show ?thesis
      unfolding GPublish Some grpc_serve.simps grpc_acks.simps by (rule logs_map) auto
  qed
next
  case (GPublishBatch q pms)
  let ?msgs = "map (\<lambda>(i, pm). proto_message_to_core L (new_ids i) pm) (enumerate 0 pms)"
  let ?C = "\<lambda>r. case r of
      Ok resps \<Rightarrow> {(q, ?msgs ! i) | i. i < length ?msgs \<and> \<not> pr_deduplicated (resps ! i)} | _ \<Rightarrow> {}"
  have nth: "proto_message_to_core L (new_ids i) (pms ! i) = ?msgs ! i" if "i < length pms" for i
    using that by (simp add: nth_enumerate_eq)
  have "logs S B {} ?C (grpc_publish_batch S B L F new_ids clk q pms)"
    unfolding grpc_publish_batch_def Let_def
    by (rule logs_dispatch(1) [OF batch_logs]) (use assms in \<open>auto simp: GPublishBatch or_status_def\<close>)
  then show ?thesis
    unfolding GPublishBatch grpc_serve.simps grpc_acks.simps
    by (rule logs_map) (auto simp: nth simp del: nth_map)
qed (use assms grpc_silent [of L new_ids req] in
  \<open>auto simp: grpc_defs intro!: logs_bnd logs_dispatch [where C = "\<lambda>_. {}"] ops_log logs_prog_bnd reads_log lists_log consume_loop_logs\<close>)

lemma stream_logs: "logs S B (stream_acks st ev) (\<lambda>_. {}) (stream_step S B L F ev st)"
proof (cases ev)
  case (Inbound a)
  then show ?thesis
    by (auto simp: stream_inbound_def handle_ack_def handle_nack_def stream_result_def
        intro!: logs_bnd logs_attempt logs_dispatch [where C = "\<lambda>_. {}"] ops_log split: option.split)
qed (auto simp: stream_tick_def consume_one_def intro!: logs_bnd logs_dispatch [where C = "\<lambda>_. {}"] ops_log split: option.split)

lemma subscribe_logs:
  "list_all (\<lambda>(path, q). plain_name path \<and> utf8_ok path) fs \<Longrightarrow> logs S B A (\<lambda>_. {}) (subscribe_filters S B F codes fs conn)"
  by (induction fs arbitrary: codes conn)
    (auto simp: mqtt_declare_queue_def intro!: logs_bnd logs_dispatch [where C = "\<lambda>_. {}"] ops_log)

lemma publish_logs_quiet: "0 \<le> sint (clk 1) \<Longrightarrow> logs_prog S B A (\<lambda>_. {}) (publish S B clk q msg)"
  using ops_log(3) [of clk S B A q msg] by (fastforce simp: logs_prog_def)

lemma mqtt_logs:
  assumes "regular_event ev"
  shows "logs S B (mqtt_acks conn ev) (\<lambda>_. {}) (mqtt_step S B F ev conn)"
proof (cases ev)
  case (EPacket env ok packet)
  have "logs S B (mqtt_acks conn ev) (\<lambda>_. {}) (handle_client_packet S B F env ok packet conn)"
    using assms
    by (cases packet) (auto simp: EPacket handle_client_packet_def mqtt_declare_queue_def publish_message_def ack_message_def Let_def
      intro!: logs_bnd logs_dispatch [where C = "\<lambda>_. {}"] ops_log publish_logs_quiet subscribe_logs split: option.split)
  then show ?thesis by (auto simp: EPacket intro!: logs_bnd)
qed (auto simp: subscription_poll_def mqtt_consume_one_def
    intro!: logs_bnd logs_dispatch [where C = "\<lambda>_. {}"] ops_log split: option.split)

section \<open>The invariant\<close>

lemma daemon_okI:
  assumes "d_engine d = solo m" "history S B view h m" "within A h" "stores C h"
    and "\<And>i conn. d_conns d i = Some conn \<Longrightarrow> pkids_ok conn \<and> mc_open conn"
  shows "daemon_ok S B view C A d"
  using assms unfolding daemon_ok_def by blast

lemma daemon_okE:
  assumes "daemon_ok S B view C A d"
  obtains m h where "d_engine d = solo m" "history S B view h m" "within A h" "stores C h"
    "\<And>i conn. d_conns d i = Some conn \<Longrightarrow> pkids_ok conn \<and> mc_open conn"
  using assms unfolding daemon_ok_def by blast

lemma reopens_history: "reopens S B m m' \<Longrightarrow> history S B view h m \<Longrightarrow> history S B view h m'"
  by (induction rule: reopens.induct) (auto intro: history_restart)

lemma accepted_pkids [simp]: "pkids_ok mqtt_accepted" "mc_open mqtt_accepted"
  by (simp_all add: pkids_ok_def published_def mqtt_accepted_def)

lemma stream_step_serves:
  assumes "engine S view nxt f B"
  shows "serves (wf_manager B view nxt) (stream_step S B L F e st)"
  by (cases e) (auto simp: stream_inbound_def stream_tick_def stream_result_def
      intro!: serves_bnd serves_attempt engine.stream_parts_serve [OF assms] split: option.split)

lemma engine_step:
  assumes "engine S view nxt f B" "daemon_ok S B view C A d" "logs S B A' C' h" "serves (wf_manager B view nxt) h"
    and "h (d_engine d) = (r, eng)"
  obtains m m' es where "d_engine d = solo m" "eng = solo m'" "run S B m es m'" "within A' es" "stores (C' r) es"
    "returns r" "wf_manager B view nxt m"
proof -
  from assms(2) obtain m hs where d: "d_engine d = solo m" and hs: "history S B view hs m" by (rule daemon_okE)
  have "wf_state B (abs_state view nxt m)"
    using engine.history_tracks [OF assms(1) hs] by (simp add: tracks_def)
  then have wf: "wf_manager B view nxt m" using engine.wf_manager_state [OF assms(1)] by blast
  from servesD [OF assms(4) this] assms(5) d obtain m' where m': "eng = solo m'" "returns r" by auto
  from assms(3,5) d m'(1) obtain es where "run S B m es m'" "within A' es" "stores (C' r) es"
    unfolding logs_def by fastforce
  with that d m' wf show thesis by blast
qed

text \<open>Each step is a run of the engine or a restart.\<close>

lemma daemon_step_engine:
  assumes eng: "engine S view nxt f B" and ok: "daemon_ok S B view C A d" and step: "daemon_step S B L F cluster d C' A' d'"
  obtains (run) m m' es where "d_engine d = solo m" "d_engine d' = solo m'" "run S B m es m'" "within A' es" "stores C' es"
  | (restart) m m' where "d_engine d = solo m" "d_engine d' = solo m'" "reopens S B m m'" "C' = {}"
  using step
proof cases
  case (step_http req clk new_id now_ms r eng')
  then show ?thesis
    using engine_step [OF eng ok http_logs engine.api_serves [OF eng]] run by (metis daemon.select_convs(1) daemon.surjective daemon.update_convs(1))
next
  case (step_grpc clk2 greq new_ids gr eng')
  then show ?thesis
    using engine_step [OF eng ok grpc_logs engine.grpc_serves [OF eng]] run by (metis daemon.select_convs(1) daemon.surjective daemon.update_convs(1))
next
  case (step_stream_open i)
  from ok obtain m where "d_engine d = solo m" by (rule daemon_okE)
  with step_stream_open show ?thesis by (intro run [OF _ _ run_start]) auto
next
  case (step_stream i st ev sr eng')
  from engine_step [OF eng ok stream_logs stream_step_serves [OF eng] step_stream(5)] step_stream(1-3) show ?thesis
    by (metis run daemon.select_convs(1) daemon.surjective daemon.update_convs(1,2))
next
  case (step_mqtt_open i)
  from ok obtain m where "d_engine d = solo m" by (rule daemon_okE)
  with step_mqtt_open show ?thesis by (intro run [OF _ _ run_start]) auto
next
  case (step_mqtt i conn mev mr eng')
  from engine_step [OF eng ok mqtt_logs engine.mqtt_step_serves [OF eng] step_mqtt(6)] step_mqtt show ?thesis
    by (metis run daemon.select_convs(1) daemon.surjective daemon.update_convs(1,3))
next
  case (step_restart mx m')
  from ok obtain m where "d_engine d = solo m" by (rule daemon_okE)
  with step_restart show ?thesis by (intro restart) (auto simp: daemon_start_def)
qed

lemma daemon_step_conns:
  assumes ok: "daemon_ok S B view C A d" and step: "daemon_step S B L F cluster d C' A' d'" and "d_conns d' i = Some conn"
  shows "pkids_ok conn \<and> mc_open conn"
  using step assms(3)
proof cases
  case (step_mqtt j conn0 mev mr eng)
  then have "pkids_ok conn0" "mc_open conn0" using ok by (auto simp: daemon_ok_def)
  from step_pkids [OF this, of S B F mev] step_mqtt assms(3) ok show ?thesis
    by (auto simp: conn_next_def yields_def daemon_ok_def split: outcome.splits if_splits)
qed (use ok in \<open>auto simp: daemon_ok_def daemon_start_def split: if_splits\<close>)

lemma daemon_step_ok:
  assumes eng: "engine S view nxt f B" and ok: "daemon_ok S B view C A d" and step: "daemon_step S B L F cluster d C' A' d'"
  shows "daemon_ok S B view (C \<union> C') (A \<union> A') d'"
proof -
  from ok obtain m hs where d: "d_engine d = solo m" and hs: "history S B view hs m" "within A hs" "stores C hs" by (rule daemon_okE)
  have wi: "within (A \<union> A') hs" using hs(2) by (rule within_mono) simp
  from eng ok step show ?thesis
  proof (cases rule: daemon_step_engine)
    case (run m1 m' es)
    have "history S B view (es @ hs) m'" using history_run [OF hs(1)] run d by simp
    moreover have "within (A \<union> A') (es @ hs)" using wi within_mono [OF run(4), of "A \<union> A'"] by simp
    moreover have "stores (C \<union> C') (es @ hs)" using run(5) hs(3) by (auto simp: stores_def)
    ultimately show ?thesis using run(2) daemon_step_conns [OF ok step] by (blast intro: daemon_okI)
  next
    case (restart m1 m')
    have "history S B view hs m'" using reopens_history [OF restart(3)] hs(1) restart(1) d by simp
    then show ?thesis
      using restart(2,4) wi hs(3) daemon_step_conns [OF ok step] by (intro daemon_okI [of d' m' S B view hs]) auto
  qed
qed

lemma daemon_run_ok:
  assumes "engine S view nxt f B"
  shows "daemon_run S B L F cluster view C A d \<Longrightarrow> daemon_ok S B view C A d"
proof (induction rule: daemon_run.induct)
  case (daemon_boot m m')
  then show ?case
    using reopens_history [OF daemon_boot(2) history_fresh]
    by (intro daemon_okI [where m = m' and h = "[]"]) (auto simp: daemon_start_def)
qed (rule daemon_step_ok [OF assms])

end
