(* ===== verification/Daemon_Guarantees.thy ===== *)
theory Daemon_Guarantees
  imports Daemon_Runs Daemon_Correctness
begin

text \<open>
  What the Solo daemon guarantees over a whole run (\<^verbatim>\<open>Daemon_Runs\<close>): any interleaving of HTTP requests,
  gRPC calls, consume streams and MQTT connections, with I/O failures of the database and restarts.
\<close>

text \<open>The later states of a daemon.\<close>

definition daemon_later ::
    "'db sled \<Rightarrow> bincode \<Rightarrow> libs \<Rightarrow> ('w, 'db) flock \<Rightarrow> cluster_config option \<Rightarrow> ('db, 'w) daemon \<Rightarrow> ('db, 'w) daemon \<Rightarrow> bool" where
  "daemon_later S B L F cluster = rtranclp (\<lambda>a b. \<exists>C A. daemon_step S B L F cluster a C A b)"

definition demo_declare_request :: declare_request where
  "demo_declare_request =
     \<lparr>dr_name = ''q'', dr_max_age_secs = Some 60, dr_max_messages = Some 1, dr_max_delivery_attempts = Some 2,
      dr_dead_letter_queue = None, dr_dedup_window_secs = Some 60\<rparr>"

abbreviation demo_F :: "((mem_db, string) raft_store \<times> u64, mem_db) flock" where
  "demo_F \<equiv> single_node (\<lambda>_ _. 1000)"

section \<open>Lemmas\<close>

lemma reopens_delayed:
  assumes "engine S view nxt f B" "reopens S B m m'" "wf_state B (abs_state view nxt m)"
  shows "wf_state B (abs_state view nxt m') \<and> stays_delayed p (abs_state view nxt m) (abs_state view nxt m')"
  using assms(2,3)
proof (induction rule: reopens.induct)
  case (reopen_ok m mx m')
  then show ?case
    using engine.open_manager_kept [OF assms(1) reopen_ok.hyps] engine.open_manager_regains [OF assms(1) reopen_ok.hyps]
    by (auto simp: keeps_def regains_def stays_delayed_def)
next
  case (reopen_fails m mx e m1 m')
  then show ?case
    using engine.open_manager_kept [OF assms(1) reopen_fails.hyps(1)] engine.open_manager_regains [OF assms(1) reopen_fails.hyps(1)]
    by (auto simp: keeps_def regains_def stays_delayed_def)
qed

lemma daemon_ok_wf:
  assumes "engine S view nxt f B" "daemon_ok S B view C A d" "d_engine d = solo m"
  shows "wf_state B (abs_state view nxt m)"
proof -
  from assms(2) obtain m1 h where "d_engine d = solo m1" "history S B view h m1" by (rule daemon_okE)
  with engine.history_tracks [OF assms(1), of h m1] assms(3) show ?thesis by (simp add: tracks_def)
qed

lemma daemon_step_delayed:
  assumes "engine S view nxt f B" "daemon_ok S B view C A d" "daemon_step S B L F cluster d C' A' d'"
    and "d_engine d = solo m" "d_engine d' = solo m'" "plain_name p"
  shows "stays_delayed p (abs_state view nxt m) (abs_state view nxt m')"
proof -
  note wf = daemon_ok_wf [OF assms(1,2,4)]
  from assms(1-3) show ?thesis
  proof (cases rule: daemon_step_engine)
    case (run m1 m2 es)
    then have "Promoted p \<notin> set es" by (simp add: within_def)
    with engine.run_delayed [OF assms(1) run(3) _ _ assms(6)] run(1,2) wf assms(4,5) show ?thesis by simp
  next
    case (restart m1 m2)
    with reopens_delayed [OF assms(1) restart(3)] wf assms(4,5) show ?thesis by simp
  qed
qed

lemma daemon_later_delayed:
  assumes eng: "engine S view nxt f B" and p: "plain_name p" and d: "d_engine d = solo m"
    and "rtranclp (\<lambda>a b. \<exists>C A. daemon_step S B L F cluster a C A b) d d'" "\<exists>C A. daemon_ok S B view C A d"
  shows "\<exists>m'. d_engine d' = solo m' \<and> (\<exists>C A. daemon_ok S B view C A d') \<and>
    stays_delayed p (abs_state view nxt m) (abs_state view nxt m')"
  using assms(4,5)
proof (induction rule: rtranclp_induct)
  case base
  then show ?case using d by (auto simp: stays_delayed_def)
next
  case (step d1 d2)
  from step.IH [OF step.prems] obtain m1 C A where 1: "d_engine d1 = solo m1" "daemon_ok S B view C A d1"
    "stays_delayed p (abs_state view nxt m) (abs_state view nxt m1)" by blast
  from step.hyps(2) obtain C' A' where s: "daemon_step S B L F cluster d1 C' A' d2" by blast
  from daemon_step_ok [OF eng 1(2) s] have ok: "daemon_ok S B view (C \<union> C') (A \<union> A') d2" .
  then obtain m2 where 2: "d_engine d2 = solo m2" by (rule daemon_okE)
  from daemon_step_delayed [OF eng 1(2) s 1(1) 2 p] 1(3) 2 ok show ?case
    by (auto simp: stays_delayed_def)
qed

text \<open>A run of the in-memory instance over gRPC: declare a queue, publish a ready and a delayed message, consume.\<close>

lemma core_proto_core:
  assumes "web_libs L"
  shows "proto_message_to_core L i (core_message_to_proto L msg) = msg"
  using web_libs.uuid_roundtrip [OF assms]
  by (simp add: proto_message_to_core_def core_message_to_proto_def ucast_down_ucast_id is_down)

lemma demo_boots: "open_manager mem_sled ref_bincode (Inr mem_empty) (Some 1000) = (Ok (), Some (mem_start (Some 1000)))"
  by code_simp

lemma demo_grpc_publish:
  assumes "publish mem_sled ref_bincode (\<lambda>_. 1000) ''q'' msg m = (Ok (Stored i), m')"
  shows "daemon_step mem_sled ref_bincode ref_libs demo_F None (daemon_start m) {(''q'', msg)} {} (daemon_start m')"
proof -
  let ?pm = "core_message_to_proto ref_libs msg"
  note core = core_proto_core [OF ref_libs.web_libs_axioms, of 0 msg]
  have "grpc_serve mem_sled ref_bincode ref_libs demo_F (\<lambda>_. 0) (\<lambda>_ _. 1000) (GPublish ''q'' (Some ?pm)) (d_engine (daemon_start m)) =
      (Ok (PublishResponse (publish_response_of ref_libs (Stored i))), solo m')"
    by (simp add: grpc_publish_def core dispatch_solo(1) [where c = "publish mem_sled ref_bincode (\<lambda>_. 1000) ''q'' msg", OF assms] bnd_def ret_def or_status_def daemon_start_def)
  from step_grpc [where cluster = None, OF _ this] demo_clock show ?thesis
    by (simp add: core publish_response_of_def daemon_start_def)
qed

lemma demo_published_run:
  "daemon_run mem_sled ref_bincode ref_libs demo_F None mem_view {(''q'', demo_msg), (''q'', demo_later)} {} (daemon_start demo_published)"
proof -
  let ?r = "GDeclareQueue demo_declare_request"
  have e: "\<forall>t. mem_view (mgr_db (mem_start (Some 1000))) t = []" "mgr_db (mem_start (Some 1000)) = mem_empty"
    by (simp_all add: mem_start_def mem_empty_def mem_view_def)
  have "reopens mem_sled ref_bincode (mem_start (Some 1000)) (mem_start (Some 1000))"
    by (rule reopen_ok [of _ _ _ "Some 1000"]) (simp only: e demo_boots)
  from daemon_boot [where view = mem_view, OF e(1) this]
  have boot: "daemon_run mem_sled ref_bincode ref_libs demo_F None mem_view {} {} (daemon_start (mem_start (Some 1000)))" .
  have "plain_name ''q''" "utf8_ok ''q''" by code_simp+
  then have reg: "regular_grpc (\<lambda>_ _. 1000) ?r" by (simp add: demo_declare_request_def)
  have pol: "declare_request_to_policy demo_declare_request = demo_policy" "dr_name demo_declare_request = ''q''"
    by (simp_all add: declare_request_to_policy_def demo_declare_request_def demo_policy_def RetentionPolicy_new_def)
  have "grpc_serve mem_sled ref_bincode ref_libs demo_F (\<lambda>_. 0) (\<lambda>_ _. 1000) ?r (d_engine (daemon_start (mem_start (Some 1000)))) =
      (Ok (DeclareQueueResponse True), solo demo_declared)"
    by (simp add: grpc_declare_queue_def pol dispatch_solo(1) [where c = "declare_queue_with_retention mem_sled ref_bincode ''q'' demo_policy", OF demo_declares] bnd_def ret_def declare_response_def daemon_start_def)
  from daemon_next [OF boot step_grpc [where cluster = None, OF reg this]]
  have "daemon_run mem_sled ref_bincode ref_libs demo_F None mem_view {} {} (daemon_start demo_declared)" by (simp add: daemon_start_def)
  from daemon_next [OF daemon_next [OF this demo_grpc_publish [OF demo_publishes]] demo_grpc_publish [OF demo_delays]]
  show ?thesis by (simp add: insert_commute)
qed

lemma demo_consumed_later: "daemon_later mem_sled ref_bincode ref_libs demo_F None (daemon_start demo_published) (daemon_start demo_consumed)"
proof -
  have "grpc_serve mem_sled ref_bincode ref_libs demo_F (\<lambda>_. 0) (\<lambda>_ _. 1000) (GConsume ''q'') (d_engine (daemon_start demo_published)) =
      (Ok (ConsumeResponse (Some (consumed_of ref_libs (DeliveryTag 0, demo_msg)))), solo demo_consumed)"
    by (simp add: grpc_consume_def dispatch_solo(1) [where c = "consume mem_sled ref_bincode ''q''", OF demo_consumes] bnd_def ret_def or_status_def daemon_start_def)
  from step_grpc [where cluster = None, OF _ this]
  have "daemon_step mem_sled ref_bincode ref_libs demo_F None (daemon_start demo_published) {} {} (daemon_start demo_consumed)"
    by (simp add: daemon_start_def)
  then show ?thesis unfolding daemon_later_def by blast
qed

lemma demo_engine: "d_engine (daemon_start m) = solo m"
  by (simp add: daemon_start_def)



text \<open>
  C20. Nothing a client sends brings the daemon down.  In every state a run of the Solo daemon can reach, the
  mutex is not poisoned, the store is well formed and the packet identifiers of every MQTT connection are
  in order, and the next HTTP request, gRPC call, stream event and MQTT event returns without a panic;
  excluded are new queue names that collide with the names of the engine's own trees or are not UTF-8, and clocks
  before 1970.
\<close>

theorem daemon_never_panics:
  assumes "engine S view nxt f B" "daemon_run S B L F cluster view C A d"
  shows "\<exists>m. d_engine d = solo m \<and> wf_manager B view nxt m \<and>
    (\<forall>i conn. d_conns d i = Some conn \<longrightarrow> pkids_ok conn) \<and>
    (regular_request (cluster \<noteq> None) hreq \<and> 0 \<le> sint (hclk 1) \<longrightarrow>
       returns (fst (http_serve S B L F cluster new_id now_ms hclk hreq (d_engine d)))) \<and>
    (regular_grpc clk greq \<longrightarrow> returns (fst (grpc_serve S B L F new_ids clk greq (d_engine d)))) \<and>
    returns (fst (stream_step S B L F ev st (d_engine d))) \<and>
    (regular_event mev \<longrightarrow> returns (fst (mqtt_step S B F mev conn (d_engine d))))"
proof -
  note ok = daemon_run_ok [OF assms]
  from ok obtain m where d: "d_engine d = solo m" and c: "\<And>i conn. d_conns d i = Some conn \<Longrightarrow> pkids_ok conn \<and> mc_open conn"
    by (rule daemon_okE) blast
  have wf: "wf_manager B view nxt m"
    using daemon_ok_wf [OF assms(1) ok d] engine.wf_manager_state [OF assms(1)] by blast
  have ret: "returns (fst (h (d_engine d)))" if "serves (wf_manager B view nxt) h" for h
    using servesD [OF that wf] d by auto
  note serve = engine.api_serves [OF assms(1)] engine.grpc_serves [OF assms(1)] stream_step_serves [OF assms(1)]
    engine.mqtt_step_serves [OF assms(1)]
  have "returns (fst (http_serve S B L F cluster new_id now_ms hclk hreq (d_engine d)))"
    if "regular_request (cluster \<noteq> None) hreq" "0 \<le> sint (hclk 1)"
    using ret [OF serve(1) [of cluster hreq hclk, OF that]] .
  moreover have "returns (fst (grpc_serve S B L F new_ids clk greq (d_engine d)))" if "regular_grpc clk greq"
    using ret [OF serve(2) [OF that]] .
  moreover have "returns (fst (mqtt_step S B F mev conn (d_engine d)))" if "regular_event mev"
    using ret [OF serve(4) [OF that]] .
  ultimately show ?thesis using d wf c ret [OF serve(3)] by blast
qed

theorem daemon_never_panics_witness:
  "wf_manager ref_bincode mem_view mem_next demo_published \<and>
   returns (fst (stream_step mem_sled ref_bincode ref_libs demo_F (Tick True) stream_start (solo demo_published)))"
  using daemon_never_panics [OF mem.engine_axioms demo_published_run, where ev = "Tick True" and st = stream_start]
  unfolding demo_engine by blast

text \<open>
  C39. Delayed messages are never promoted.  Nothing in the daemon calls \<^verbatim>\<open>promote_scheduled\<close>: from any state
  of a run on, whatever requests, stream and MQTT events and restarts follow and however late it is, every
  message that waits for its delivery time in a queue keeps waiting.
\<close>

theorem delayed_forever:
  assumes "engine S view nxt f B" "daemon_run S B L F cluster view C A d" "daemon_later S B L F cluster d d'"
    and "d_engine d = solo m" "plain_name q"
  shows "\<exists>m'. d_engine d' = solo m' \<and>
    set (delayed (queue_of B (view (mgr_db m)) q)) \<subseteq> set (delayed (queue_of B (view (mgr_db m')) q))"
proof -
  have "\<exists>C A. daemon_ok S B view C A d" using daemon_run_ok [OF assms(1,2)] by blast
  from daemon_later_delayed [OF assms(1,5,4) assms(3) [unfolded daemon_later_def] this] show ?thesis
    by (auto simp: stays_delayed_def queue_of_def decoded_def)
qed

theorem delayed_forever_witness:
  "demo_later \<in> set (delayed (queue_of ref_bincode (mem_view (mgr_db demo_consumed)) ''q''))"
proof -
  have q: "plain_name ''q''" by code_simp
  have "delayed (queue_of ref_bincode (mem_view (mgr_db demo_published)) ''q'') = [demo_later]" by code_simp
  with delayed_forever [OF mem.engine_axioms demo_published_run demo_consumed_later demo_engine q] show ?thesis
    by (auto simp: demo_engine)
qed

end
