(* ===== verification/Spec2Isabelle.thy ===== *)
theory Spec2Isabelle
  imports Queue_Safety Queue_Correctness Queue_Guarantees Raft_Correctness Raft_Divergence Raft_Network Cluster_Config
    Daemon_Correctness Daemon_Guarantees
begin

text \<open>
  A verification development of PelicanQ, a message queue: a daemon that keeps named queues in an
  embedded database, serves them over HTTP, gRPC and MQTT, runs alone (Solo) or replicated by Raft
  (Flock), and has a client library.  Paths below are relative to \<^verbatim>\<open>src/\<close>.

  \<^bold>\<open>How the program is modelled.\<close>  A method that changes state is a program
  \<open>state \<Rightarrow> outcome \<times> state\<close> (\<^verbatim>\<open>Prelude\<close>), where an outcome is a value, an error, a panic, or divergence: every
  early return, \<^verbatim>\<open>unwrap\<close> and slice of the source is a branch.  Machine integers are words; text and byte
  strings are lists of bytes; a \<^verbatim>\<open>HashMap\<close> is a finite map.  Programs are reasoned about with a weakest
  precondition \<^verbatim>\<open>wp\<close>, whose rules are the collections \<^verbatim>\<open>wp_simps\<close> and \<^verbatim>\<open>wp_rules\<close>.  Code that is not in the
  repository is a parameter with a locale for its contract:
  \<^item> \<^verbatim>\<open>sled\<close>: record \<^verbatim>\<open>sled\<close> and locale \<^verbatim>\<open>sled_store\<close> (theory \<^verbatim>\<open>Sled\<close>), whose flag says whether operations may fail;
  \<^item> \<^verbatim>\<open>bincode\<close>: locale \<^verbatim>\<open>bincode_codec\<close> (\<^verbatim>\<open>Core_Types\<close>); the two together are the locale \<^verbatim>\<open>engine\<close>;
  \<^item> \<^verbatim>\<open>serde_json\<close>: \<^verbatim>\<open>snapshot_json\<close> and \<^verbatim>\<open>raft_json\<close>; \<^verbatim>\<open>raft_engine\<close> joins the latter to \<^verbatim>\<open>engine\<close>;
  \<^item> \<^verbatim>\<open>openraft\<close>: record \<^verbatim>\<open>flock\<close> and locale \<^verbatim>\<open>flock_leader\<close> (\<^verbatim>\<open>App_Engine\<close>): a leader applies a write before it returns;
  \<^item> \<^verbatim>\<open>base64\<close>, \<^verbatim>\<open>uuid\<close>: locale \<^verbatim>\<open>web_libs\<close> (\<^verbatim>\<open>Http_Api\<close>).

  Clock readings and fresh UUIDs are arguments, one per call site.  Each locale is interpreted by
  executable definitions, on which the witnesses run: an in-memory database and a binary encoding
  (\<^verbatim>\<open>Mem_Store\<close>), the encodings of the replicated log (\<^verbatim>\<open>Mem_Codec\<close>), and hexadecimal text and a consensus
  of one node built from the modelled log store (\<^verbatim>\<open>Daemon_Instances\<close>).

  \<^bold>\<open>The queue engine\<close> (\<^verbatim>\<open>pelicanq-core/src\<close>).  \<^verbatim>\<open>Core_Types\<close> holds \<^verbatim>\<open>error.rs\<close>, \<^verbatim>\<open>message.rs\<close>, \<^verbatim>\<open>retention.rs\<close> and the
  in-memory \<^verbatim>\<open>Queue\<close>; \<^verbatim>\<open>Queue_Manager\<close> every method of \<^verbatim>\<open>QueueManager\<close> in \<^verbatim>\<open>queue.rs\<close>.  The retry loop of
  \<^verbatim>\<open>consume\<close> is given two rounds; one is shown to be enough on every database that keeps its contract,
  so the bound is never reached.  The proofs are in layers:
  \<^item> \<^verbatim>\<open>Queue_Invariant\<close>: the representation invariant of the trees; \<^verbatim>\<open>Queue_Spec\<close> and \<^verbatim>\<open>Queue_Sweeps\<close>: each method
    meets a specification over the tree contents, also when the database fails at any point;
  \<^item> \<^verbatim>\<open>Queue_Preservation\<close>, \<^verbatim>\<open>Queue_Conservation\<close>, \<^verbatim>\<open>Queue_Runs\<close>, \<^verbatim>\<open>Queue_Accounting\<close>: invariant, stored messages and
    bytes along runs (\<^verbatim>\<open>reach\<close>: calls and restarts from an empty database);
  \<^item> \<^verbatim>\<open>Queue_Order\<close>, \<^verbatim>\<open>Queue_Recovery\<close>, \<^verbatim>\<open>Queue_Abstract\<close>, \<^verbatim>\<open>Queue_Behaviour\<close>: the abstract queue (ready, in flight, dead,
    delayed, recent keys) and the operations on it;
  \<^item> \<^verbatim>\<open>Queue_Safety\<close> and \<^verbatim>\<open>Queue_Correctness\<close>: the properties.  No message is lost, no call panics or loops,
    a restart recovers exactly the messages in flight, the byte budget is kept, queues do not
    interfere, and every operation implements the abstract one on every branch;
  \<^item> \<^verbatim>\<open>Queue_History\<close>, \<^verbatim>\<open>Queue_Ledger\<close>, \<^verbatim>\<open>Queue_Guarantees\<close>: whole histories of the engine with the events a client sees
    (published, delivered, acknowledged, rejected).  A stored message stays until a delivery of it is acknowledged, a
    tag is delivered and settled at most once, and nothing is delivered that was not published.

  \<^bold>\<open>Snapshots and replication\<close> (\<^verbatim>\<open>pelicanq-core/src/snapshot.rs\<close>, \<^verbatim>\<open>pelicanq-raft/src\<close>).  \<^verbatim>\<open>Snapshot\<close> and
  \<^verbatim>\<open>Snapshot_Restore\<close> model export and restore; \<^verbatim>\<open>State_Machine\<close> the operations of \<^verbatim>\<open>requests.rs\<close>, \<^verbatim>\<open>state_machine.rs\<close>
  and \<^verbatim>\<open>FlockHandle\<close> of \<^verbatim>\<open>lib.rs\<close>; \<^verbatim>\<open>Replication\<close> shows that results are determined by the contents;
  \<^verbatim>\<open>Raft_Storage\<close> and \<^verbatim>\<open>Raft_Machine\<close> model the storage traits of \<^verbatim>\<open>storage.rs\<close>; \<^verbatim>\<open>Raft_Network\<close> the remote calls of
  \<^verbatim>\<open>network.rs\<close>.  \<^verbatim>\<open>Raft_Correctness\<close> has the log, restart, application and snapshot properties;
  \<^verbatim>\<open>Raft_Divergence\<close> concrete runs in which replicas or snapshots disagree.

  \<^bold>\<open>The daemon\<close> (\<^verbatim>\<open>pelicanqd/src\<close>).  \<^verbatim>\<open>App_Engine\<close> is \<^verbatim>\<open>AppEngine\<close> of \<^verbatim>\<open>api.rs\<close>: the manager behind a mutex that a panic
  poisons, or the consensus handle; a handler is given by its Solo and its Flock branch (\<^verbatim>\<open>dispatch\<close>).
  \<^verbatim>\<open>Http_Api\<close> models the handlers and routes of \<^verbatim>\<open>api.rs\<close>, \<^verbatim>\<open>Grpc_Service\<close> \<^verbatim>\<open>queue_service.rs\<close> (with the task of
  \<^verbatim>\<open>consume_stream\<close> as a step function over events) and \<^verbatim>\<open>admin_service.rs\<close>, \<^verbatim>\<open>Mqtt_Handler\<close> \<^verbatim>\<open>mqtt/handler.rs\<close>,
  \<^verbatim>\<open>Cluster_Config\<close> \<^verbatim>\<open>config.rs\<close>, \<^verbatim>\<open>cluster_config.rs\<close> and the decisions of \<^verbatim>\<open>main.rs\<close>.  Two notions carry the proofs:
  \<^verbatim>\<open>serves\<close> (a handler on a Solo engine returns, keeps the invariant and does not poison the mutex) and
  \<^verbatim>\<open>alike\<close> (Solo and Flock give the same reply and the same manager); both are closed under composition.
  \<^verbatim>\<open>Daemon_Flow\<close> follows a message through the engine, and \<^verbatim>\<open>Daemon_Correctness\<close> has the properties that span
  the components.  \<^verbatim>\<open>Daemon_Runs\<close> is the Solo daemon as a step relation: HTTP requests, gRPC calls, the events of any
  number of streams and MQTT connections and restarts interleave over one manager.  Each handler is a
  sequence of engine calls (\<^verbatim>\<open>logs\<close>), so that every run of the daemon has a history of the engine behind it;
  \<^verbatim>\<open>Daemon_Guarantees\<close> concludes at-least-once delivery end to end, that no regular request panics in any
  reachable state, and that delayed messages are never promoted.

  \<^bold>\<open>The client library\<close> (\<^verbatim>\<open>sdks/rust/src\<close>) is \<^verbatim>\<open>Rust_Sdk\<close>: types, conversions, errors and methods over the
  generated stubs; the end-to-end property runs it against the modelled gRPC service.

  \<^bold>\<open>Assumptions to keep in mind.\<close>  Queue names must not collide with the names of the engine's own trees
  (\<^verbatim>\<open>plain_name\<close>); the code does not check this, and \<^verbatim>\<open>name_collision_poisons\<close> shows what follows.  The clock
  is not before 1970, where \<^verbatim>\<open>now_ms\<close> panics: readings are arguments.  A crash between two database calls
  is covered by the failures of \<^verbatim>\<open>sled_store\<close> and the restarts of \<^verbatim>\<open>reach\<close>, \<^verbatim>\<open>history\<close> and \<^verbatim>\<open>daemon_run\<close>.

  \<^bold>\<open>Not modelled.\<close>
  \<^item> Sockets, the file system, logging and the asynchronous runtime.  Requests and events run one at a time; where
    one takes the mutex more than once, as an MQTT publish does, interleaving inside it is not covered.
    What the file system and \<^verbatim>\<open>openraft\<close> answer at start-up are arguments of \<^verbatim>\<open>raft_is_fresh\<close> and \<^verbatim>\<open>start_node\<close>.
  \<^item> The \<^verbatim>\<open>Display\<close> of responses, which prints their derived \<^verbatim>\<open>Debug\<close> form for log lines.
  \<^item> The extractors of \<^verbatim>\<open>axum\<close>, the framing of \<^verbatim>\<open>tonic\<close> and the codec of \<^verbatim>\<open>rumqttc\<close>: requests and packets are values.
  \<^item> The capacity of the channels: a send that waits for room is a send that has happened.
  \<^item> The consensus protocol of \<^verbatim>\<open>openraft\<close>: elections and quorums are that library's.
  \<^item> The Go, Java, Node and Python client libraries, the examples, the scripts, the generated protocol code
    and the tests.
\<close>

end
